(* ===== verification/Agg_Prelude.thy ===== *)
theory Agg_Prelude
  imports Main "HOL-Library.Multiset" "HOL-Library.Word"
begin

section \<open>Results, panics and shared lemmas\<close>

text \<open>
  What the other theories share. A Rust function that may panic returns \<open>panic + 'a\<close>
  (\<open>Inl\<close> the panic); one that also returns a \<open>Result\<close> returns
  \<open>panic + ('e + 'a)\<close>, the outer sum for the panic and the inner one for the
  \<open>Result\<close>. \<open>bindP\<close> sequences two steps of which the first may panic, \<open>tryP\<close>
  is the question mark operator: it also leaves early on an \<open>Err\<close>.
  \<open>foldP\<close> and \<open>tryfold\<close> are the \<open>for\<close> loops over a slice of the same two kinds.
\<close>

datatype panic =
    UnwrapNone          \<comment> \<open>\<open>unwrap\<close> or \<open>expect\<close> of a \<open>None\<close>\<close>
  | UnwrapErr           \<comment> \<open>\<open>unwrap\<close> or \<open>expect\<close> of an \<open>Err\<close>\<close>
  | IndexOutOfBounds    \<comment> \<open>an array index past the end\<close>
  | CapacityExceeded    \<comment> \<open>\<open>ArrayVec::push\<close> on a full vector\<close>
  | AssertFailed        \<comment> \<open>a failed \<open>assert!\<close>\<close>
  | ArithOverflow       \<comment> \<open>integer overflow with overflow checks on\<close>

definition bindP :: "'p + 'a \<Rightarrow> ('a \<Rightarrow> 'p + 'b) \<Rightarrow> 'p + 'b" where
  "bindP m f = (case m of Inl p \<Rightarrow> Inl p | Inr a \<Rightarrow> f a)"

definition tryP :: "'p + ('e + 'a) \<Rightarrow> ('a \<Rightarrow> 'p + ('e + 'b)) \<Rightarrow> 'p + ('e + 'b)" where
  "tryP m f = (case m of Inl p \<Rightarrow> Inl p | Inr (Inl e) \<Rightarrow> Inr (Inl e) | Inr (Inr a) \<Rightarrow> f a)"

definition tryE :: "'e + 'a \<Rightarrow> ('a \<Rightarrow> 'e + 'b) \<Rightarrow> 'e + 'b" where
  "tryE m f = (case m of Inl e \<Rightarrow> Inl e | Inr a \<Rightarrow> f a)"

abbreviation okP :: "'a \<Rightarrow> 'p + ('e + 'a)" where
  "okP a \<equiv> Inr (Inr a)"

abbreviation errP :: "'e \<Rightarrow> 'p + ('e + 'a)" where
  "errP e \<equiv> Inr (Inl e)"

fun foldP :: "('s \<Rightarrow> 'a \<Rightarrow> 'p + 's) \<Rightarrow> 's \<Rightarrow> 'a list \<Rightarrow> 'p + 's" where
  "foldP f s [] = Inr s"
| "foldP f s (x # xs) = bindP (f s x) (\<lambda>s'. foldP f s' xs)"

fun tryfold :: "('s \<Rightarrow> 'a \<Rightarrow> 'p + ('e + 's)) \<Rightarrow> 's \<Rightarrow> 'a list \<Rightarrow> 'p + ('e + 's)" where
  "tryfold f s [] = okP s"
| "tryfold f s (x # xs) = tryP (f s x) (\<lambda>s'. tryfold f s' xs)"

subsection \<open>Sequencing\<close>

lemma bindP_simps [simp]:
  "bindP (Inl p) f = Inl p"
  "bindP (Inr a) f = f a"
  by (simp_all add: bindP_def)

lemma bindP_Inr [simp]: "bindP m Inr = m"
  by (cases m) simp_all

lemma tryP_simps [simp]:
  "tryP (Inl p) f = Inl p"
  "tryP (Inr (Inl e)) f = Inr (Inl e)"
  "tryP (Inr (Inr a)) f = f a"
  by (simp_all add: tryP_def)

lemma tryE_simps [simp]:
  "tryE (Inl e) f = Inl e"
  "tryE (Inr a) f = f a"
  by (simp_all add: tryE_def)

lemma bindP_eq_Inr: "bindP m f = Inr b \<longleftrightarrow> (\<exists>a. m = Inr a \<and> f a = Inr b)"
  by (cases m) auto

lemma bindP_eq_Inl: "bindP m f = Inl p \<longleftrightarrow> m = Inl p \<or> (\<exists>a. m = Inr a \<and> f a = Inl p)"
  by (cases m) auto

lemma tryP_eq_ok: "tryP m f = okP b \<longleftrightarrow> (\<exists>a. m = okP a \<and> f a = okP b)"
  by (auto simp: tryP_def split: sum.splits)

lemma tryP_eq_err:
  "tryP m f = errP e \<longleftrightarrow> m = errP e \<or> (\<exists>a. m = okP a \<and> f a = errP e)"
  by (auto simp: tryP_def split: sum.splits)

lemma tryP_eq_Inl: "tryP m f = Inl p \<longleftrightarrow> m = Inl p \<or> (\<exists>a. m = okP a \<and> f a = Inl p)"
  by (auto simp: tryP_def split: sum.splits)

lemma foldP_append: "foldP f s (xs @ ys) = bindP (foldP f s xs) (\<lambda>s'. foldP f s' ys)"
proof (induction xs arbitrary: s)
  case Nil
  then show ?case by simp
next
  case (Cons x xs)
  then show ?case by (cases "f s x") simp_all
qed

lemma foldP_cong_Inr:
  assumes "\<And>s x. x \<in> set xs \<Longrightarrow> f s x = Inr (g x s)"
  shows "foldP f s xs = Inr (fold g xs s)"
  using assms by (induction xs arbitrary: s) auto

lemma tryfold_invariant:
  assumes "tryfold f s xs = okP s'"
    and "I s"
    and "\<And>s x t. x \<in> set xs \<Longrightarrow> I s \<Longrightarrow> f s x = okP t \<Longrightarrow> I t"
  shows "I s'"
  using assms
proof (induction xs arbitrary: s)
  case Nil
  then show ?case by simp
next
  case (Cons x xs)
  from Cons.prems(1) obtain t where t: "f s x = okP t" "tryfold f t xs = okP s'"
    by (auto simp: tryP_eq_ok)
  have "I t" by (rule Cons.prems(3) [OF _ Cons.prems(2) t(1)]) simp
  then show ?case using Cons.IH [OF t(2)] Cons.prems(3) by (metis list.set_intros(2))
qed

lemma foldP_invariant:
  assumes "foldP f s xs = Inr s'"
    and "I s"
    and "\<And>s x t. x \<in> set xs \<Longrightarrow> I s \<Longrightarrow> f s x = Inr t \<Longrightarrow> I t"
  shows "I s'"
  using assms
proof (induction xs arbitrary: s)
  case Nil
  then show ?case by simp
next
  case (Cons x xs)
  from Cons.prems(1) obtain t where t: "f s x = Inr t" "foldP f t xs = Inr s'"
    by (auto simp: bindP_eq_Inr)
  have "I t" by (rule Cons.prems(3) [OF _ Cons.prems(2) t(1)]) simp
  then show ?case using Cons.IH [OF t(2)] Cons.prems(3) by (metis list.set_intros(2))
qed

lemma tryfold_no_panic:
  assumes "\<And>s x p. x \<in> set xs \<Longrightarrow> f s x \<noteq> Inl p"
  shows "tryfold f s xs \<noteq> Inl p"
  using assms by (induction xs arbitrary: s) (auto simp: tryP_eq_Inl)

subsection \<open>Lists\<close>

lemma take_list_update_snoc:
  "n < length xs \<Longrightarrow> take (Suc n) (xs[n := x]) = take n xs @ [x]"
  by (simp add: take_Suc_conv_app_nth)

lemma mset_concat_map_filter:
  "distinct ks \<Longrightarrow>
    mset (concat (map (\<lambda>k. filter (\<lambda>x. f x = k) xs) ks)) = mset (filter (\<lambda>x. f x \<in> set ks) xs)"
proof (induction ks)
  case Nil
  then show ?case by simp
next
  case (Cons k ks)
  have "filter_mset (\<lambda>x. f x \<in> set (k # ks)) (mset xs) =
    filter_mset (\<lambda>x. f x = k) (mset xs) + filter_mset (\<lambda>x. f x \<in> set ks) (mset xs)"
    using Cons.prems by (induction xs) auto
  then show ?case using Cons by simp
qed

lemma mset_concat_list_all2:
  "list_all2 (\<lambda>s v. mset s = mset v \<and> Q s) ss vs \<Longrightarrow> mset (concat ss) = mset (concat vs)"
  by (induction ss vs rule: list_all2_induct) auto

subsection \<open>Strings\<close>

text \<open>
  A Rust \<open>String\<close> is its list of UTF-8 bytes. \<open>str::to_lowercase\<close> is the ASCII mapping on
  ASCII text; on other text it follows the Unicode case tables, which the argument \<open>ul\<close>
  stands for.
\<close>

definition is_ascii :: "string \<Rightarrow> bool" where
  "is_ascii s = list_all (\<lambda>c. (of_char c :: nat) < 128) s"

definition ascii_lower :: "char \<Rightarrow> char" where
  "ascii_lower c =
     (if 65 \<le> (of_char c :: nat) \<and> (of_char c :: nat) \<le> 90 then char_of ((of_char c :: nat) + 32)
      else c)"

definition to_lowercase :: "(string \<Rightarrow> string) \<Rightarrow> string \<Rightarrow> string" where
  "to_lowercase ul s = (if is_ascii s then map ascii_lower s else ul s)"

end
