(* ===== verification/F64.thy ===== *)
theory F64
  imports Agg_Prelude
begin

section \<open>Rust's f64\<close>

text \<open>
  An \<open>f64\<close> is its 64-bit pattern: one sign bit, 11 exponent bits, 52 fraction bits (IEEE 754
  binary64). Every finite double is an integer multiple of \<open>2 ^ -1074\<close>, so \<open>f64_val\<close>
  reads a pattern as that integer, and comparison and subtraction are exact integer operations
  followed, for subtraction, by one rounding to the nearest double, ties to even. The formula of
  \<open>f64_mag\<close> gives the two infinities the magnitude \<open>2 ^ 1024\<close>, above every finite
  double, which is what comparison needs.
\<close>

type_synonym f64 = "64 word"

datatype ordering = Less | Equal | Greater

fun reverse :: "ordering \<Rightarrow> ordering" where
  "reverse Less = Greater"
| "reverse Equal = Equal"
| "reverse Greater = Less"

definition f64_neg :: "f64 \<Rightarrow> bool" where
  "f64_neg x \<longleftrightarrow> 2 ^ 63 \<le> uint x"

definition f64_low :: "f64 \<Rightarrow> int" where
  \<comment> \<open>exponent and fraction, the pattern without its sign\<close>
  "f64_low x = uint x mod 2 ^ 63"

definition f64_exp :: "f64 \<Rightarrow> int" where
  "f64_exp x = f64_low x div 2 ^ 52"

definition f64_frac :: "f64 \<Rightarrow> int" where
  "f64_frac x = f64_low x mod 2 ^ 52"

definition is_nan :: "f64 \<Rightarrow> bool" where
  "is_nan x \<longleftrightarrow> f64_exp x = 2047 \<and> f64_frac x \<noteq> 0"

definition is_inf :: "f64 \<Rightarrow> bool" where
  "is_inf x \<longleftrightarrow> f64_exp x = 2047 \<and> f64_frac x = 0"

definition pattern_mag :: "int \<Rightarrow> int" where
  \<comment> \<open>magnitude of an exponent-and-fraction pattern in units of \<open>2 ^ -1074\<close>\<close>
  "pattern_mag p =
     (let e = p div 2 ^ 52; f = p mod 2 ^ 52
      in if e = 0 then f else (2 ^ 52 + f) * 2 ^ nat (e - 1))"

definition f64_mag :: "f64 \<Rightarrow> int" where
  "f64_mag x = pattern_mag (f64_low x)"

definition f64_val :: "f64 \<Rightarrow> int" where
  "f64_val x = (if f64_neg x then - f64_mag x else f64_mag x)"

definition f64_nan :: f64 where
  "f64_nan = 0x7FF8000000000000"

definition f64_zero :: f64 where
  "f64_zero = 0"

subsection \<open>Comparison\<close>

definition int_cmp :: "int \<Rightarrow> int \<Rightarrow> ordering" where
  "int_cmp a b = (if a < b then Less else if a = b then Equal else Greater)"

definition partial_cmp :: "f64 \<Rightarrow> f64 \<Rightarrow> ordering option" where
  "partial_cmp a b =
     (if is_nan a \<or> is_nan b then None else Some (int_cmp (f64_val a) (f64_val b)))"

definition f64_eq :: "f64 \<Rightarrow> f64 \<Rightarrow> bool" where
  "f64_eq a b \<longleftrightarrow> partial_cmp a b = Some Equal"

definition f64_gt :: "f64 \<Rightarrow> f64 \<Rightarrow> bool" where
  "f64_gt a b \<longleftrightarrow> partial_cmp a b = Some Greater"

subsection \<open>Rounding and subtraction\<close>

fun nbits :: "nat \<Rightarrow> nat" where
  "nbits n = (if n = 0 then 0 else Suc (nbits (n div 2)))"

declare nbits.simps [simp del]

definition round_div_even :: "nat \<Rightarrow> nat \<Rightarrow> nat" where
  \<comment> \<open>the integer nearest to \<open>p / q\<close>, the even one of two\<close>
  "round_div_even p q =
     (let n = p div q; r = p mod q
      in if q < 2 * r \<or> (2 * r = q \<and> odd n) then Suc n else n)"

definition round_pattern :: "nat \<Rightarrow> nat \<Rightarrow> nat" where
  \<comment> \<open>the exponent-and-fraction pattern of the double nearest to \<open>p / q\<close> units\<close>
  "round_pattern p q =
     (let k = nbits (p div q) - 53
      in min (2047 * 2 ^ 52) (k * 2 ^ 52 + round_div_even p (q * 2 ^ k)))"

definition f64_make :: "bool \<Rightarrow> nat \<Rightarrow> f64" where
  "f64_make s p = word_of_int (int p + (if s then 2 ^ 63 else 0))"

definition f64_minus :: "f64 \<Rightarrow> f64 \<Rightarrow> f64" where
  "f64_minus a b =
     (if is_nan a \<or> is_nan b then f64_nan
      else if is_inf a then (if is_inf b \<and> f64_neg a = f64_neg b then f64_nan else a)
      else if is_inf b then f64_make (\<not> f64_neg b) (2047 * 2 ^ 52)
      else (let d = f64_val a - f64_val b
            in if d = 0 then f64_make (f64_neg a \<and> \<not> f64_neg b) 0
               else f64_make (d < 0) (round_pattern (nat \<bar>d\<bar>) 1)))"

subsection \<open>Ordering laws\<close>

lemma int_cmp_simps [simp]:
  "int_cmp a b = Less \<longleftrightarrow> a < b"
  "int_cmp a b = Equal \<longleftrightarrow> a = b"
  "int_cmp a b = Greater \<longleftrightarrow> b < a"
  by (auto simp: int_cmp_def)

lemma reverse_simps [simp]:
  "reverse x = Less \<longleftrightarrow> x = Greater"
  "reverse x = Equal \<longleftrightarrow> x = Equal"
  "reverse x = Greater \<longleftrightarrow> x = Less"
  by (cases x; simp)+

lemma partial_cmp_not_nan:
  "\<not> is_nan a \<Longrightarrow> \<not> is_nan b \<Longrightarrow> partial_cmp a b = Some (int_cmp (f64_val a) (f64_val b))"
  by (simp add: partial_cmp_def)

lemma partial_cmp_None_iff: "partial_cmp a b = None \<longleftrightarrow> is_nan a \<or> is_nan b"
  by (simp add: partial_cmp_def)

lemma f64_gt_iff: "f64_gt a b \<longleftrightarrow> \<not> is_nan a \<and> \<not> is_nan b \<and> f64_val b < f64_val a"
  by (auto simp: f64_gt_def partial_cmp_def)

lemma f64_eq_iff: "f64_eq a b \<longleftrightarrow> \<not> is_nan a \<and> \<not> is_nan b \<and> f64_val a = f64_val b"
  by (auto simp: f64_eq_def partial_cmp_def)

lemma f64_low_bounds: "0 \<le> f64_low x" "f64_low x < 2 ^ 63"
  by (simp_all add: f64_low_def)

lemma pattern_mag_nonneg: "0 \<le> p \<Longrightarrow> 0 \<le> pattern_mag p"
  by (simp add: pattern_mag_def Let_def)

lemma f64_mag_nonneg [simp]: "0 \<le> f64_mag x"
  by (simp add: f64_mag_def pattern_mag_nonneg f64_low_bounds)

lemma f64_mag_not_less [simp]: "\<not> f64_mag x < 0"
  by (simp add: not_less)

lemma f64_mag_pos_iff [simp]: "0 < f64_mag x \<longleftrightarrow> f64_mag x \<noteq> 0"
  using f64_mag_nonneg [of x] by linarith

lemma f64_val_zero [simp]: "f64_val f64_zero = 0"
  by (simp add: f64_val_def f64_mag_def f64_low_def pattern_mag_def f64_zero_def)

lemma f64_gt_zero_pos: "f64_gt x f64_zero \<Longrightarrow> \<not> f64_neg x \<and> f64_mag x \<noteq> 0"
  by (auto simp: f64_gt_iff f64_val_def [of x] split: if_splits)

subsection \<open>Patterns are ordered as magnitudes\<close>

lemma pattern_mag_step:
  assumes "0 \<le> p"
  shows "pattern_mag p < pattern_mag (p + 1)"
proof -
  define e f where "e = p div 2 ^ 52" and "f = p mod 2 ^ 52"
  have p: "p = e * 2 ^ 52 + f" and f: "0 \<le> f" "f < 2 ^ 52" and e: "0 \<le> e"
    using assms by (simp_all add: e_def f_def pos_imp_zdiv_nonneg_iff)
  have mag: "pattern_mag p = (if e = 0 then f else (2 ^ 52 + f) * 2 ^ nat (e - 1))"
    by (simp only: pattern_mag_def Let_def e_def f_def)
  show ?thesis
  proof (cases "f + 1 < 2 ^ 52")
    case True
    have "(p + 1) div 2 ^ 52 = e" "(p + 1) mod 2 ^ 52 = f + 1"
      using True f unfolding p by (simp_all add: add.assoc)
    then have "pattern_mag (p + 1) = (if e = 0 then f + 1 else (2 ^ 52 + (f + 1)) * 2 ^ nat (e - 1))"
      by (simp only: pattern_mag_def Let_def)
    then show ?thesis using mag by simp
  next
    case False
    with f have f': "f = 2 ^ 52 - 1" by simp
    have q: "p + 1 = (e + 1) * 2 ^ 52" using p f' by simp
    have "(p + 1) div 2 ^ 52 = e + 1" "(p + 1) mod 2 ^ 52 = 0"
      unfolding q by simp_all
    moreover have "(2::int) ^ nat e = 2 * 2 ^ nat (e - 1)" if "e \<noteq> 0"
      using that e by (simp flip: power_Suc add: nat_diff_distrib Suc_nat_eq_nat_zadd1)
    moreover from calculation(1,2)
    have "pattern_mag (p + 1) = (if e + 1 = 0 then 0 else (2 ^ 52 + 0) * 2 ^ nat (e + 1 - 1))"
      by (simp only: pattern_mag_def Let_def)
    ultimately show ?thesis using e f' mag by simp
  qed
qed

lemma pattern_mag_strict:
  assumes "0 \<le> p" "p < q"
  shows "pattern_mag p < pattern_mag q"
  using assms(2)
proof (induction q rule: int_gr_induct)
  case base
  show ?case by (rule pattern_mag_step [OF assms(1)])
next
  case (step i)
  have "pattern_mag i < pattern_mag (i + 1)"
    using step.hyps assms(1) by (intro pattern_mag_step) simp
  with step.IH show ?case by simp
qed

lemma pattern_mag_less_iff:
  "0 \<le> p \<Longrightarrow> 0 \<le> q \<Longrightarrow> pattern_mag p < pattern_mag q \<longleftrightarrow> p < q"
  using pattern_mag_strict [of p q] pattern_mag_strict [of q p]
  by (cases p q rule: linorder_cases) auto

lemma pattern_mag_eq_iff:
  "0 \<le> p \<Longrightarrow> 0 \<le> q \<Longrightarrow> pattern_mag p = pattern_mag q \<longleftrightarrow> p = q"
  using pattern_mag_strict [of p q] pattern_mag_strict [of q p]
  by (cases p q rule: linorder_cases) auto

text \<open>
  The order of doubles is the order of their sign-and-magnitude integers, which is cheap to
  evaluate on a concrete pattern.
\<close>

definition f64_key :: "f64 \<Rightarrow> int" where
  "f64_key x = (if f64_neg x then - f64_low x else f64_low x)"

lemma pattern_mag_0 [simp]: "pattern_mag 0 = 0"
  by (simp add: pattern_mag_def)

lemma pattern_mag_neg_less: "0 \<le> p \<Longrightarrow> 0 \<le> q \<Longrightarrow> - pattern_mag p < pattern_mag q \<longleftrightarrow> - p < q"
  using pattern_mag_less_iff [of 0 p] pattern_mag_less_iff [of 0 q]
    pattern_mag_nonneg [of p] pattern_mag_nonneg [of q]
  by (cases "p = 0"; cases "q = 0") auto

lemma f64_val_less_key: "f64_val a < f64_val b \<longleftrightarrow> f64_key a < f64_key b"
  using f64_low_bounds(1) [of a] f64_low_bounds(1) [of b]
    pattern_mag_less_iff [of "f64_low a" "f64_low b"]
    pattern_mag_less_iff [of "f64_low b" "f64_low a"]
    pattern_mag_neg_less [of "f64_low a" "f64_low b"]
    pattern_mag_neg_less [of "f64_low b" "f64_low a"]
    pattern_mag_nonneg [of "f64_low a"] pattern_mag_nonneg [of "f64_low b"]
    pattern_mag_eq_iff [of 0 "f64_low a"] pattern_mag_eq_iff [of 0 "f64_low b"]
  by (auto simp: f64_val_def f64_key_def f64_mag_def)

lemma f64_val_eq_key: "f64_val a = f64_val b \<longleftrightarrow> f64_key a = f64_key b"
  using f64_val_less_key [of a b] f64_val_less_key [of b a] by linarith

lemma int_cmp_key: "int_cmp (f64_val a) (f64_val b) = int_cmp (f64_key a) (f64_key b)"
  by (simp add: int_cmp_def f64_val_less_key f64_val_eq_key)

lemmas f64_parts = f64_key_def f64_neg_def f64_low_def f64_exp_def f64_frac_def is_nan_def
  is_inf_def

lemmas f64_compute = partial_cmp_def int_cmp_key f64_gt_iff f64_eq_iff f64_val_less_key
  f64_val_eq_key f64_parts f64_nan_def f64_zero_def

lemma f64_nan_is_nan [simp]: "is_nan f64_nan"
  by (simp add: f64_compute)

lemma f64_zero_not_nan [simp]: "\<not> is_nan f64_zero"
  by (simp add: f64_compute)

subsection \<open>Rounding laws\<close>

lemma nbits_0 [simp]: "nbits 0 = 0"
  by (simp add: nbits.simps)

lemma nbits_pos: "0 < n \<Longrightarrow> nbits n = Suc (nbits (n div 2))"
  by (subst nbits.simps) simp

lemma nbits_numeral [simp]:
  "nbits 1 = 1"
  "nbits (Suc 0) = 1"
  "nbits (numeral (Num.Bit0 m)) = Suc (nbits (numeral m))"
  "nbits (numeral (Num.Bit1 m)) = Suc (nbits (numeral m))"
  by (simp_all add: nbits_pos)

lemma nbits_upper: "n < 2 ^ nbits n"
proof (induction n rule: nbits.induct)
  case (1 n)
  then show ?case by (cases "n = 0") (auto simp: nbits_pos)
qed

lemma nbits_lower: "0 < n \<Longrightarrow> 2 ^ (nbits n - 1) \<le> n"
proof (induction n rule: nbits.induct)
  case (1 n)
  show ?case
  proof (cases "n div 2 = 0")
    case True
    then show ?thesis using "1.prems" by (simp add: nbits_pos)
  next
    case False
    then have "2 ^ (nbits (n div 2) - 1) \<le> n div 2" using "1.IH" "1.prems" by simp
    moreover have "0 < nbits (n div 2)" using False by (simp add: nbits_pos)
    then have "(2::nat) ^ nbits (n div 2) = 2 * 2 ^ (nbits (n div 2) - 1)"
      by (simp flip: power_Suc)
    ultimately show ?thesis using "1.prems" by (simp add: nbits_pos)
  qed
qed

lemma nbits_le_iff: "nbits n \<le> b \<longleftrightarrow> n < 2 ^ b"
proof
  assume "nbits n \<le> b"
  then have "(2::nat) ^ nbits n \<le> 2 ^ b" by simp
  with nbits_upper [of n] show "n < 2 ^ b" by linarith
next
  assume less: "n < 2 ^ b"
  show "nbits n \<le> b"
  proof (rule ccontr)
    assume "\<not> nbits n \<le> b"
    then have "(2::nat) ^ b \<le> 2 ^ (nbits n - 1)" and "0 < n" by (auto intro: Nat.gr0I)
    with nbits_lower [of n] less show False by linarith
  qed
qed

lemma nbits_eqI: "2 ^ b \<le> n \<Longrightarrow> n < 2 ^ Suc b \<Longrightarrow> nbits n = Suc b"
  using nbits_le_iff [of n b] nbits_le_iff [of n "Suc b"] by simp

lemma nbits_mult_power: "0 < n \<Longrightarrow> nbits (n * 2 ^ s) = nbits n + s"
proof (induction s)
  case 0
  then show ?case by simp
next
  case (Suc s)
  have "nbits (n * 2 ^ Suc s) = Suc (nbits (n * 2 ^ Suc s div 2))"
    using Suc.prems by (intro nbits_pos) simp
  also have "n * 2 ^ Suc s div 2 = n * 2 ^ s" by simp
  finally show ?case using Suc by simp
qed

lemma round_div_even_1 [simp]: "round_div_even p (Suc 0) = p" "round_div_even p 1 = p"
  by (simp_all add: round_div_even_def)

lemma round_div_even_mult: "0 < q \<Longrightarrow> round_div_even (p * q) q = p"
  by (simp add: round_div_even_def)

lemma round_div_even_cancel:
  assumes "0 < c"
  shows "round_div_even (p * c) (q * c) = round_div_even p q"
proof -
  have "q * c < 2 * (p mod q * c) \<longleftrightarrow> q < 2 * (p mod q)"
    and "2 * (p mod q * c) = q * c \<longleftrightarrow> 2 * (p mod q) = q"
    using assms by (simp_all flip: mult.assoc)
  moreover have "p * c div (q * c) = p div q" using assms by simp
  ultimately show ?thesis
    by (simp only: round_div_even_def Let_def mod_mult_mult2)
qed

lemma round_div_even_ge: "p div q \<le> round_div_even p q"
  by (simp add: round_div_even_def Let_def)

lemma round_pattern_le: "round_pattern p q \<le> 2047 * 2 ^ 52"
  unfolding round_pattern_def Let_def by (rule min.cobounded1)

text \<open>An integer number of units is never rounded to zero: subtraction underflows gradually.\<close>

lemma round_pattern_pos:
  assumes "0 < n"
  shows "0 < round_pattern n 1"
proof (cases "nbits n \<le> 53")
  case True
  then show ?thesis using assms by (simp add: round_pattern_def)
next
  case False
  then show ?thesis by (simp add: round_pattern_def Let_def)
qed

lemma round_pattern_0 [simp]: "round_pattern 0 q = 0"
  by (simp add: round_pattern_def round_div_even_def)

text \<open>Evaluation: a common power of two of numerator and exponent is taken out first.\<close>

lemma round_pattern_scale:
  assumes "0 < q" "2 ^ 52 \<le> p div q"
  shows "round_pattern (p * 2 ^ u) q =
    min (2047 * 2 ^ 52) ((nbits (p div q) - 53 + u) * 2 ^ 52
      + round_div_even p (q * 2 ^ (nbits (p div q) - 53)))"
proof -
  let ?k = "nbits (p div q) - 53"
  have pos: "0 < p div q" using assms(2) by (metis less_le_trans zero_less_numeral zero_less_power)
  have nb: "nbits (p * 2 ^ u div q) = nbits (p div q) + u"
  proof -
    obtain b where b: "nbits (p div q) = Suc b" using pos by (metis nbits_pos)
    have lo: "2 ^ b \<le> p div q" and hi: "p div q < 2 ^ Suc b"
      using nbits_lower [OF pos] nbits_upper [of "p div q"] b by simp_all
    have "2 ^ b * q \<le> p" using lo assms(1) by (simp add: less_eq_div_iff_mult_less_eq)
    then have "2 ^ (b + u) * q \<le> p * 2 ^ u" by (simp add: power_add ac_simps)
    moreover have "p < 2 ^ Suc b * q" using hi assms(1) by (simp add: div_less_iff_less_mult)
    then have "p * 2 ^ u < 2 ^ Suc (b + u) * q" by (simp add: power_add ac_simps)
    ultimately have "nbits (p * 2 ^ u div q) = Suc (b + u)"
      using assms(1)
      by (intro nbits_eqI) (simp_all add: less_eq_div_iff_mult_less_eq div_less_iff_less_mult)
    then show ?thesis using b by simp
  qed
  have ge: "53 \<le> nbits (p div q)"
    using nbits_le_iff [of "p div q" 52] assms(2) by simp
  have "q * 2 ^ (?k + u) = (q * 2 ^ ?k) * 2 ^ u" by (simp add: power_add)
  then have "round_div_even (p * 2 ^ u) (q * 2 ^ (?k + u)) = round_div_even p (q * 2 ^ ?k)"
    by (simp only:) (simp add: round_div_even_cancel)
  moreover have "nbits (p div q) + u - 53 = ?k + u" using ge by simp
  ultimately show ?thesis by (simp only: round_pattern_def Let_def nb)
qed

subsection \<open>Building patterns\<close>

lemma uint_f64_make:
  assumes "p < 2 ^ 63"
  shows "uint (f64_make s p) = int p + (if s then 2 ^ 63 else 0)"
proof -
  have "int p < 2 ^ 63" using assms by simp
  then have "(int p + (if s then 2 ^ 63 else 0)) mod 2 ^ LENGTH(64) = int p + (if s then 2 ^ 63 else 0)"
    by (intro mod_pos_pos_trivial) simp_all
  then show ?thesis by (simp only: f64_make_def uint_word_of_int)
qed

lemma f64_make_parts:
  assumes "p < 2 ^ 63"
  shows "f64_neg (f64_make s p) \<longleftrightarrow> s" "f64_low (f64_make s p) = int p"
proof -
  have "int p < 2 ^ 63" using assms by simp
  then show "f64_neg (f64_make s p) \<longleftrightarrow> s" "f64_low (f64_make s p) = int p"
    using uint_f64_make [OF assms, of s] by (auto simp: f64_neg_def f64_low_def)
qed

lemma f64_make_not_nan:
  assumes "p \<le> 2047 * 2 ^ 52"
  shows "\<not> is_nan (f64_make s p)"
proof -
  have "p < 2 ^ 63" using assms by simp
  then have low: "f64_low (f64_make s p) = int p" by (rule f64_make_parts)
  have "p mod 2 ^ 52 = 0" if "p div 2 ^ 52 = 2047"
    using that assms div_mult_mod_eq [of p "2 ^ 52"] by simp
  moreover have "int p div 2 ^ 52 = int (p div 2 ^ 52)" "int p mod 2 ^ 52 = int (p mod 2 ^ 52)"
    by (simp_all add: zdiv_int zmod_int)
  ultimately show ?thesis
    unfolding is_nan_def f64_exp_def f64_frac_def low by simp
qed

lemma f64_val_make:
  assumes "p < 2 ^ 63"
  shows "f64_val (f64_make s p) = (if s then - pattern_mag (int p) else pattern_mag (int p))"
  by (simp add: f64_val_def f64_mag_def f64_make_parts [OF assms])

lemma f64_make_eqI:
  assumes "p < 2 ^ 63" "f64_neg x \<longleftrightarrow> s" "f64_low x = int p"
  shows "f64_make s p = x"
proof -
  have lt: "uint x < 2 ^ 64" using uint_lt2p [of x] by simp
  have "uint x = f64_low x + (if f64_neg x then 2 ^ 63 else 0)"
  proof (cases "f64_neg x")
    case True
    then have "(uint x - 2 ^ 63) mod 2 ^ 63 = uint x - 2 ^ 63"
      using lt by (intro mod_pos_pos_trivial) (simp_all add: f64_neg_def)
    then show ?thesis using True by (simp add: f64_low_def)
  next
    case False
    then show ?thesis by (simp add: f64_low_def f64_neg_def)
  qed
  then have "uint (f64_make s p) = uint x"
    using uint_f64_make [OF assms(1), of s] assms(2,3) by simp
  then show ?thesis by (rule word_uint_eqI)
qed

lemma round_pattern_mag:
  assumes "0 \<le> p" "p \<le> 2047 * 2 ^ 52"
  shows "round_pattern (nat (pattern_mag p)) 1 = nat p"
proof -
  define e f where "e = p div 2 ^ 52" and "f = p mod 2 ^ 52"
  have p: "p = e * 2 ^ 52 + f" and f: "0 \<le> f" "f < 2 ^ 52" and e: "0 \<le> e"
    using assms by (simp_all add: e_def f_def pos_imp_zdiv_nonneg_iff)
  have mag: "pattern_mag p = (if e = 0 then f else (2 ^ 52 + f) * 2 ^ nat (e - 1))"
    by (simp only: pattern_mag_def Let_def e_def f_def)
  show ?thesis
  proof (cases "e = 0")
    case True
    then have "nbits (nat f) \<le> 52" using f by (simp add: nbits_le_iff nat_less_iff)
    then show ?thesis using True mag p f by (simp add: round_pattern_def Let_def)
  next
    case False
    let ?n = "2 ^ 52 + nat f"
    have "nbits ?n = Suc 52" using f by (intro nbits_eqI) (simp_all add: nat_less_iff)
    then have nb: "nbits (?n * 2 ^ nat (e - 1)) = 53 + nat (e - 1)"
      by (subst nbits_mult_power) simp_all
    have m: "nat (pattern_mag p) = ?n * 2 ^ nat (e - 1)"
      using False mag f e by (simp add: nat_mult_distrib nat_add_distrib nat_power_eq)
    have "nat (e - 1) * 2 ^ 52 + ?n = nat p"
      using False e f unfolding p by (simp add: nat_add_distrib nat_mult_distrib nat_diff_distrib diff_mult_distrib)
    moreover have "round_div_even (?n * 2 ^ nat (e - 1)) (1 * 2 ^ nat (e - 1)) = ?n"
      by (simp add: round_div_even_mult)
    moreover have "nat p \<le> 2047 * 2 ^ 52" using assms(2) by simp
    ultimately show ?thesis using nb
      by (simp add: round_pattern_def Let_def m)
  qed
qed

text \<open>The difference of two finite doubles has the sign of the exact difference.\<close>

definition f64_finite :: "f64 \<Rightarrow> bool" where
  "f64_finite x \<longleftrightarrow> \<not> is_nan x \<and> \<not> is_inf x"

lemma f64_minus_finite:
  assumes "f64_finite a" "f64_finite b"
  shows "f64_minus a b =
    (let d = f64_val a - f64_val b
     in if d = 0 then f64_make (f64_neg a \<and> \<not> f64_neg b) 0
        else f64_make (d < 0) (round_pattern (nat \<bar>d\<bar>) 1))"
  using assms by (simp add: f64_minus_def f64_finite_def)

lemma f64_minus_not_nan:
  assumes "f64_finite a" "f64_finite b"
  shows "\<not> is_nan (f64_minus a b)"
  using assms round_pattern_le [of _ 1]
  by (auto simp: f64_minus_finite Let_def intro!: f64_make_not_nan)

lemma f64_minus_sign:
  assumes "f64_finite a" "f64_finite b"
  shows "f64_val (f64_minus a b) < 0 \<longleftrightarrow> f64_val a < f64_val b"
    and "f64_val (f64_minus a b) = 0 \<longleftrightarrow> f64_val a = f64_val b"
proof -
  let ?d = "f64_val a - f64_val b"
  let ?p = "round_pattern (nat \<bar>?d\<bar>) 1"
  have small: "?p < 2 ^ 63" using round_pattern_le [of "nat \<bar>?d\<bar>" 1] by simp
  have pos: "0 < pattern_mag (int ?p)" if "?d \<noteq> 0"
    using that round_pattern_pos [of "nat \<bar>?d\<bar>"] pattern_mag_less_iff [of 0 "int ?p"] by simp
  show "f64_val (f64_minus a b) < 0 \<longleftrightarrow> f64_val a < f64_val b"
    "f64_val (f64_minus a b) = 0 \<longleftrightarrow> f64_val a = f64_val b"
    using pos f64_val_make [OF small] f64_val_make [of 0]
    by (auto simp: f64_minus_finite [OF assms] Let_def split: if_splits)
qed

text \<open>A difference that is a double is returned exactly.\<close>

lemma f64_minus_exact:
  assumes "f64_finite a" "f64_finite b" "f64_finite c"
    and "f64_val c = f64_val a - f64_val b" "f64_val c \<noteq> 0"
  shows "f64_minus a b = c"
proof -
  have abs: "nat \<bar>f64_val c\<bar> = nat (pattern_mag (f64_low c))"
    by (simp add: f64_val_def f64_mag_def pattern_mag_nonneg f64_low_bounds)
  have "f64_low c < 2048 * 2 ^ 52" using f64_low_bounds(2) [of c] by simp
  moreover have "f64_exp c \<noteq> 2047"
    using assms(3) by (auto simp: f64_finite_def is_nan_def is_inf_def)
  ultimately have le: "f64_low c \<le> 2047 * 2 ^ 52"
    using div_mult_mod_eq [of "f64_low c" "2 ^ 52"] pos_mod_sign [of "2 ^ 52" "f64_low c"]
    by (simp add: f64_exp_def)
  then have "round_pattern (nat \<bar>f64_val c\<bar>) 1 = nat (f64_low c)"
    unfolding abs by (rule round_pattern_mag [OF f64_low_bounds(1)])
  moreover have "f64_neg c \<longleftrightarrow> f64_val c < 0"
    using assms(5) by (auto simp: f64_val_def split: if_splits)
  moreover have "nat (f64_low c) < 2 ^ 63" using le f64_low_bounds(1) [of c] by simp
  ultimately have "f64_make (f64_val c < 0) (round_pattern (nat \<bar>f64_val c\<bar>) 1) = c"
    using f64_low_bounds(1) [of c] by (intro f64_make_eqI) simp_all
  then show ?thesis
    using assms(4,5) by (simp add: f64_minus_finite [OF assms(1,2)] Let_def)
qed

end
