(* ===== verification/Nanos.thy ===== *)
theory Nanos
  imports Agg_Prelude
begin

section \<open>Wall clock time (aggcommon/src/nanos.rs)\<close>

text \<open>
  The system clock is an integer: the nanoseconds since the Unix epoch, negative before it.
  \<open>as_nanos\<close> is a \<open>u128\<close> and the cast to \<open>u64\<close> keeps its low 64 bits. The text of a duration is
  made by the crate humantime, the argument \<open>format_duration\<close>.
\<close>

type_synonym nano_time = "64 word"

definition nanos_now :: "int \<Rightarrow> panic + nano_time" where
  "nanos_now clock = (if clock < 0 then Inl UnwrapErr else Inr (word_of_int clock))"

definition nanos_pretty :: "(nat \<Rightarrow> string) \<Rightarrow> nano_time \<Rightarrow> string" where
  "nanos_pretty format_duration nanos = format_duration (unat nanos)"

lemma nanos_now_eq_ok [simp]:
  "nanos_now clock = Inr t \<longleftrightarrow> 0 \<le> clock \<and> t = word_of_int clock"
  by (auto simp: nanos_now_def)

lemma nanos_now_eq_panic [simp]: "nanos_now clock = Inl p \<longleftrightarrow> clock < 0 \<and> p = UnwrapErr"
  by (auto simp: nanos_now_def)

lemma uint_word_of_clock: "uint (word_of_int clock :: nano_time) = clock mod 2 ^ 64"
  by (simp add: uint_word_of_int)

text \<open>The clock reading panics exactly before the epoch; otherwise the time stamp is the number
  of nanoseconds modulo two to the 64, so it is exact until the year 2554.\<close>

theorem nanos_now_exact:
  "(\<exists>p. nanos_now clock = Inl p) = (clock < 0) \<and>
   (nanos_now clock = Inr t) = (0 \<le> clock \<and> uint t = clock mod 2 ^ 64)"
  by (auto simp: uint_word_of_clock word_uint_eq_iff)

end
