(* ===== verification/Sources.thy ===== *)
theory Sources
  imports Agg_Prelude
begin

section \<open>Source identifiers (aggcommon/src/sources.rs)\<close>

text \<open>
  The two exchanges, their names, the parser of a name and the array index of each. The derived
  \<open>Ord\<close> of the Rust enum is the order of its variants.
\<close>

datatype source_id = Bitstamp | Binance

definition NUM_SOURCES :: nat where
  "NUM_SOURCES = 2"

fun source_id_fmt :: "source_id \<Rightarrow> string" where
  "source_id_fmt Bitstamp = ''bitstamp''"
| "source_id_fmt Binance = ''binance''"

datatype source_id_parse_error = SourceIdParseError string

definition source_id_from_str ::
  "(string \<Rightarrow> string) \<Rightarrow> string \<Rightarrow> source_id_parse_error + source_id" where
  "source_id_from_str ul s =
     (let l = to_lowercase ul s
      in if l = ''bitstamp'' then Inr Bitstamp
         else if l = ''binance'' then Inr Binance
         else Inl (SourceIdParseError s))"

fun usize_from :: "source_id \<Rightarrow> nat" where
  "usize_from Bitstamp = 0"
| "usize_from Binance = 1"

definition source_id_default :: source_id where
  "source_id_default = Bitstamp"

fun source_id_parse_error_fmt :: "source_id_parse_error \<Rightarrow> string" where
  "source_id_parse_error_fmt (SourceIdParseError s) = ''Invalid source ID: '' @ [CHR 0x27] @ s @ [CHR 0x27]"

instantiation source_id :: linorder
begin

definition less_eq_source_id :: "source_id \<Rightarrow> source_id \<Rightarrow> bool" where
  "less_eq_source_id a b \<longleftrightarrow> usize_from a \<le> usize_from b"

definition less_source_id :: "source_id \<Rightarrow> source_id \<Rightarrow> bool" where
  "less_source_id a b \<longleftrightarrow> usize_from a < usize_from b"

instance
proof
  fix a b :: source_id
  assume "a \<le> b" "b \<le> a"
  then show "a = b" by (cases a; cases b) (simp_all add: less_eq_source_id_def)
qed (auto simp: less_eq_source_id_def less_source_id_def)

end

subsection \<open>Laws\<close>

lemma usize_from_bound [simp]: "usize_from s < NUM_SOURCES"
  by (cases s) (simp_all add: NUM_SOURCES_def)

lemma usize_from_inj [simp]: "usize_from a = usize_from b \<longleftrightarrow> a = b"
  by (cases a; cases b) simp_all

lemma source_id_fmt_inj [simp]: "source_id_fmt a = source_id_fmt b \<longleftrightarrow> a = b"
  by (cases a; cases b) simp_all

lemma all_source_id: "(\<forall>s :: source_id. P s) \<longleftrightarrow> P Bitstamp \<and> P Binance"
  by (metis source_id.exhaust)

lemma UNIV_source_id: "(UNIV :: source_id set) = {Bitstamp, Binance}"
  by (auto intro: source_id.exhaust)

lemma to_lowercase_fmt [simp]: "to_lowercase ul (source_id_fmt i) = source_id_fmt i"
  by (cases i) (simp_all add: to_lowercase_def is_ascii_def ascii_lower_def)

lemma source_id_from_str_ok:
  "source_id_from_str ul s = Inr i \<longleftrightarrow> to_lowercase ul s = source_id_fmt i"
  by (cases i) (simp_all add: source_id_from_str_def Let_def)

lemma source_id_from_str_err:
  "source_id_from_str ul s = Inl e \<longleftrightarrow>
    e = SourceIdParseError s \<and> (\<forall>i. to_lowercase ul s \<noteq> source_id_fmt i)"
  by (auto simp: source_id_from_str_def Let_def all_source_id)

subsection \<open>Properties\<close>

text \<open>C40: parsing accepts exactly the strings whose lower case is the printed name of a source, so
  the printed name is parsed back to its source; every other string is an error that carries the
  string as it was given.\<close>

theorem source_id_roundtrip:
  "source_id_from_str ul (source_id_fmt i) = Inr i \<and>
   (source_id_from_str ul s = Inr j \<longleftrightarrow> to_lowercase ul s = source_id_fmt j) \<and>
   (source_id_from_str ul s = Inl e \<longleftrightarrow>
      e = SourceIdParseError s \<and> to_lowercase ul s \<notin> range source_id_fmt)"
  by (auto simp: source_id_from_str_ok source_id_from_str_err)

end
