(* ===== verification/Snapshots.thy ===== *)
theory Snapshots
  imports F64 Nanos Sources
begin

section \<open>Contributor snapshots (aggserver/src/service/model.rs)\<close>

text \<open>
  A side of a snapshot is a fixed array \<open>[PriceLevel; N]\<close> with a fill count. The type fixes the
  length of the array; here the list carries it, and \<open>levels_wf n\<close> is what the type and the
  private fields guarantee.
\<close>

record price_level =
  pl_price :: f64
  pl_amount :: f64

definition zero_level :: price_level where
  "zero_level = \<lparr>pl_price = f64_zero, pl_amount = f64_zero\<rparr>"

record contributor_levels =
  cl_levels :: "price_level list"
  cl_depth :: nat

definition levels_new :: "nat \<Rightarrow> contributor_levels" where
  "levels_new n = \<lparr>cl_levels = replicate n zero_level, cl_depth = 0\<rparr>"

definition levels_push :: "nat \<Rightarrow> contributor_levels \<Rightarrow> price_level \<Rightarrow> contributor_levels" where
  "levels_push n c level =
     (if cl_depth c < n
      then c\<lparr>cl_levels := (cl_levels c)[cl_depth c := level], cl_depth := cl_depth c + 1\<rparr>
      else c)"

definition levels_as_slice :: "contributor_levels \<Rightarrow> panic + price_level list" where
  "levels_as_slice c =
     (if cl_depth c \<le> length (cl_levels c) then Inr (take (cl_depth c) (cl_levels c))
      else Inl IndexOutOfBounds)"

definition levels_depth :: "contributor_levels \<Rightarrow> nat" where
  "levels_depth c = cl_depth c"

definition levels_default :: "nat \<Rightarrow> contributor_levels" where
  "levels_default n = \<lparr>cl_levels = replicate n zero_level, cl_depth = 0\<rparr>"

record contributor_snapshot =
  cs_bids :: contributor_levels
  cs_asks :: contributor_levels
  cs_source_id :: source_id
  cs_arrival_time :: nano_time

definition snapshot_new :: "nat \<Rightarrow> source_id \<Rightarrow> nano_time \<Rightarrow> contributor_snapshot" where
  "snapshot_new n source arrival_time =
     \<lparr>cs_bids = levels_new n, cs_asks = levels_new n,
      cs_source_id = source, cs_arrival_time = arrival_time\<rparr>"

definition push_bid :: "nat \<Rightarrow> contributor_snapshot \<Rightarrow> f64 \<Rightarrow> f64 \<Rightarrow> contributor_snapshot" where
  "push_bid n s price amount =
     s\<lparr>cs_bids := levels_push n (cs_bids s) \<lparr>pl_price = price, pl_amount = amount\<rparr>\<rparr>"

definition push_ask :: "nat \<Rightarrow> contributor_snapshot \<Rightarrow> f64 \<Rightarrow> f64 \<Rightarrow> contributor_snapshot" where
  "push_ask n s price amount =
     s\<lparr>cs_asks := levels_push n (cs_asks s) \<lparr>pl_price = price, pl_amount = amount\<rparr>\<rparr>"

definition snapshot_is_empty :: "contributor_snapshot \<Rightarrow> bool" where
  "snapshot_is_empty s \<longleftrightarrow> levels_depth (cs_bids s) = 0 \<and> levels_depth (cs_asks s) = 0"

definition snapshot_default :: "nat \<Rightarrow> contributor_snapshot" where
  "snapshot_default n =
     \<lparr>cs_bids = levels_default n, cs_asks = levels_default n,
      cs_source_id = source_id_default, cs_arrival_time = 0\<rparr>"

subsection \<open>The array of a side is a list bounded by N\<close>

definition levels_wf :: "nat \<Rightarrow> contributor_levels \<Rightarrow> bool" where
  "levels_wf n c \<longleftrightarrow> length (cl_levels c) = n \<and> cl_depth c \<le> n"

definition levels_list :: "contributor_levels \<Rightarrow> price_level list" where
  "levels_list c = take (cl_depth c) (cl_levels c)"

definition snapshot_wf :: "nat \<Rightarrow> contributor_snapshot \<Rightarrow> bool" where
  "snapshot_wf n s \<longleftrightarrow> levels_wf n (cs_bids s) \<and> levels_wf n (cs_asks s)"

text \<open>
  The contract of a bounded log, which the two sides of a snapshot share: what is pushed is
  appended while there is room and dropped after.
\<close>

locale bounded_log =
  fixes cap :: nat
    and push :: "'s \<Rightarrow> 'a \<Rightarrow> 's"
    and contents :: "'s \<Rightarrow> 'a list"
    and inv :: "'s \<Rightarrow> bool"
  assumes inv_push: "inv s \<Longrightarrow> inv (push s x)"
    and contents_push: "inv s \<Longrightarrow> contents (push s x) = take cap (contents s @ [x])"
    and contents_bound: "inv s \<Longrightarrow> length (contents s) \<le> cap"
begin

lemma inv_fold: "inv s \<Longrightarrow> inv (fold (\<lambda>x s. push s x) xs s)"
  by (induction xs arbitrary: s) (simp_all add: inv_push)

lemma contents_fold:
  "inv s \<Longrightarrow> contents (fold (\<lambda>x s. push s x) xs s) = take cap (contents s @ xs)"
proof (induction xs arbitrary: s)
  case Nil
  then show ?case using contents_bound [OF Nil.prems] by simp
next
  case (Cons x xs)
  then show ?case
    using contents_bound [OF Cons.prems]
    by (auto simp: inv_push contents_push take_Cons' split: if_splits)
qed

end

lemma levels_wf_new [simp]: "levels_wf n (levels_new n)" "levels_wf n (levels_default n)"
  by (simp_all add: levels_wf_def levels_new_def levels_default_def)

lemma levels_list_new [simp]: "levels_list (levels_new n) = []" "levels_list (levels_default n) = []"
  by (simp_all add: levels_list_def levels_new_def levels_default_def)

lemma levels_wf_push: "levels_wf n c \<Longrightarrow> levels_wf n (levels_push n c l)"
  by (auto simp: levels_wf_def levels_push_def)

lemma levels_list_length: "levels_wf n c \<Longrightarrow> length (levels_list c) = cl_depth c"
  by (auto simp: levels_wf_def levels_list_def)

lemma levels_list_push:
  "levels_wf n c \<Longrightarrow> levels_list (levels_push n c l) = take n (levels_list c @ [l])"
  by (auto simp: levels_wf_def levels_list_def levels_push_def take_list_update_snoc)

interpretation levels: bounded_log n "levels_push n" levels_list "levels_wf n" for n
  by unfold_locales
    (simp_all add: levels_wf_push levels_list_push levels_list_length, simp add: levels_wf_def)

lemma levels_as_slice_wf: "levels_wf n c \<Longrightarrow> levels_as_slice c = Inr (levels_list c)"
  by (auto simp: levels_as_slice_def levels_wf_def levels_list_def)

lemma levels_depth_list: "levels_wf n c \<Longrightarrow> levels_depth c = 0 \<longleftrightarrow> levels_list c = []"
  using levels_list_length [of n c] by (auto simp: levels_depth_def)

subsection \<open>Snapshots\<close>

abbreviation snapshot_bids :: "contributor_snapshot \<Rightarrow> price_level list" where
  "snapshot_bids s \<equiv> levels_list (cs_bids s)"

abbreviation snapshot_asks :: "contributor_snapshot \<Rightarrow> price_level list" where
  "snapshot_asks s \<equiv> levels_list (cs_asks s)"

lemma snapshot_new_simps [simp]:
  "snapshot_wf n (snapshot_new n src t)"
  "snapshot_bids (snapshot_new n src t) = []"
  "snapshot_asks (snapshot_new n src t) = []"
  "cs_source_id (snapshot_new n src t) = src"
  "cs_arrival_time (snapshot_new n src t) = t"
  by (simp_all add: snapshot_wf_def snapshot_new_def)

lemma snapshot_default_simps [simp]:
  "snapshot_wf n (snapshot_default n)"
  "snapshot_bids (snapshot_default n) = []"
  "snapshot_asks (snapshot_default n) = []"
  by (simp_all add: snapshot_wf_def snapshot_default_def)

lemma push_bid_simps [simp]:
  "cs_asks (push_bid n s p a) = cs_asks s"
  "cs_source_id (push_bid n s p a) = cs_source_id s"
  "cs_arrival_time (push_bid n s p a) = cs_arrival_time s"
  "cs_bids (push_bid n s p a) = levels_push n (cs_bids s) \<lparr>pl_price = p, pl_amount = a\<rparr>"
  by (simp_all add: push_bid_def)

lemma push_ask_simps [simp]:
  "cs_bids (push_ask n s p a) = cs_bids s"
  "cs_source_id (push_ask n s p a) = cs_source_id s"
  "cs_arrival_time (push_ask n s p a) = cs_arrival_time s"
  "cs_asks (push_ask n s p a) = levels_push n (cs_asks s) \<lparr>pl_price = p, pl_amount = a\<rparr>"
  by (simp_all add: push_ask_def)

lemma snapshot_wf_push:
  "snapshot_wf n s \<Longrightarrow> snapshot_wf n (push_bid n s p a)"
  "snapshot_wf n s \<Longrightarrow> snapshot_wf n (push_ask n s p a)"
  by (simp_all add: snapshot_wf_def levels_wf_push)

lemma snapshot_is_empty_iff:
  "snapshot_wf n s \<Longrightarrow> snapshot_is_empty s \<longleftrightarrow> snapshot_bids s = [] \<and> snapshot_asks s = []"
  using levels_depth_list [of n "cs_bids s"] levels_depth_list [of n "cs_asks s"]
  by (simp add: snapshot_is_empty_def snapshot_wf_def)

subsection \<open>Properties\<close>

text \<open>Pushing a sequence of bids.\<close>

definition push_bids :: "nat \<Rightarrow> (f64 \<times> f64) list \<Rightarrow> contributor_snapshot \<Rightarrow> contributor_snapshot" where
  "push_bids n = fold (\<lambda>(p, a) s. push_bid n s p a)"

lemma push_bids_bids:
  "cs_bids (push_bids n xs s) =
    fold (\<lambda>x c. levels_push n c x) (map (\<lambda>(p, a). \<lparr>pl_price = p, pl_amount = a\<rparr>) xs) (cs_bids s)"
  by (induction xs arbitrary: s) (auto simp: push_bids_def split: prod.splits)

lemma push_bids_frame:
  "cs_asks (push_bids n xs s) = cs_asks s \<and> cs_source_id (push_bids n xs s) = cs_source_id s \<and>
   cs_arrival_time (push_bids n xs s) = cs_arrival_time s"
  by (induction xs arbitrary: s) (auto simp: push_bids_def split: prod.splits)

text \<open>Pushing any sequence of bids into a fresh snapshot keeps exactly the first \<open>n\<close> of them in
  order, never reads or writes outside the arrays, and leaves the asks, the source and the arrival
  time alone.\<close>

theorem push_bids_keeps_first_n:
  "levels_as_slice (cs_bids (push_bids n xs (snapshot_new n src t))) =
     Inr (take n (map (\<lambda>(p, a). \<lparr>pl_price = p, pl_amount = a\<rparr>) xs)) \<and>
   cs_asks (push_bids n xs (snapshot_new n src t)) = levels_new n \<and>
   cs_source_id (push_bids n xs (snapshot_new n src t)) = src \<and>
   cs_arrival_time (push_bids n xs (snapshot_new n src t)) = t"
proof -
  let ?s = "snapshot_new n src t"
  have wf: "levels_wf n (cs_bids ?s)" by (simp add: snapshot_new_def)
  have "levels_wf n (cs_bids (push_bids n xs ?s))"
    unfolding push_bids_bids by (rule levels.inv_fold [OF wf])
  then show ?thesis
    using push_bids_frame [of n xs ?s] levels.contents_fold [OF wf]
    by (simp add: levels_as_slice_wf push_bids_bids) (simp add: snapshot_new_def)
qed

end
