(* ===== verification/Price_Keys.thy ===== *)
theory Price_Keys
  imports Snapshots
begin

section \<open>Keyed prices and the price maps (aggserver/src/service/model.rs)\<close>

text \<open>
  \<open>AskKeyedPrice\<close> and \<open>BidKeyedPrice\<close> wrap an \<open>f64\<close>, replace a NaN by zero and order
  prices ascending and descending. Their \<open>cmp\<close> unwraps \<open>partial_cmp\<close>, so it panics on a NaN
  that got in past the constructor.

  \<open>to_proto\<close> keeps a \<open>BTreeMap\<close> from keys to bounded vectors of levels for each side. A
  \<open>BTreeMap\<close> is the list of its entries in key order; \<open>ArrayVec::push\<close>, of the crate
  arrayvec, is the argument \<open>av_push\<close> (capacity, vector, element).
\<close>

datatype ask_keyed_price = AskKeyedPrice f64

definition ask_key_new :: "f64 \<Rightarrow> ask_keyed_price" where
  "ask_key_new v = (if is_nan v then AskKeyedPrice f64_zero else AskKeyedPrice v)"

fun ask_key_eq :: "ask_keyed_price \<Rightarrow> ask_keyed_price \<Rightarrow> bool" where
  "ask_key_eq (AskKeyedPrice a) (AskKeyedPrice b) = f64_eq a b"

fun ask_key_cmp :: "ask_keyed_price \<Rightarrow> ask_keyed_price \<Rightarrow> panic + ordering" where
  "ask_key_cmp (AskKeyedPrice a) (AskKeyedPrice b) =
     (case partial_cmp a b of None \<Rightarrow> Inl UnwrapNone | Some x \<Rightarrow> Inr x)"

definition ask_key_partial_cmp ::
  "ask_keyed_price \<Rightarrow> ask_keyed_price \<Rightarrow> panic + ordering option" where
  "ask_key_partial_cmp a b = bindP (ask_key_cmp a b) (\<lambda>x. Inr (Some x))"

datatype bid_keyed_price = BidKeyedPrice f64

definition bid_key_new :: "f64 \<Rightarrow> bid_keyed_price" where
  "bid_key_new v = (if is_nan v then BidKeyedPrice f64_zero else BidKeyedPrice v)"

fun bid_key_eq :: "bid_keyed_price \<Rightarrow> bid_keyed_price \<Rightarrow> bool" where
  "bid_key_eq (BidKeyedPrice a) (BidKeyedPrice b) = f64_eq a b"

fun bid_key_cmp :: "bid_keyed_price \<Rightarrow> bid_keyed_price \<Rightarrow> panic + ordering" where
  "bid_key_cmp (BidKeyedPrice a) (BidKeyedPrice b) =
     (case partial_cmp a b of None \<Rightarrow> Inl UnwrapNone | Some x \<Rightarrow> Inr (reverse x))"

definition bid_key_partial_cmp ::
  "bid_keyed_price \<Rightarrow> bid_keyed_price \<Rightarrow> panic + ordering option" where
  "bid_key_partial_cmp a b = bindP (bid_key_cmp a b) (\<lambda>x. Inr (Some x))"

subsection \<open>Protobuf levels and the entry operation of the map\<close>

record level =
  lv_exchange :: string
  lv_price :: f64
  lv_amount :: f64

type_synonym av_push = "nat \<Rightarrow> level list \<Rightarrow> level \<Rightarrow> panic + level list"

text \<open>The documentation of arrayvec: \<open>push\<close> appends, and panics if the vector is already full.\<close>

definition arrayvec_push_spec :: "av_push \<Rightarrow> bool" where
  "arrayvec_push_spec push \<longleftrightarrow>
     (\<forall>cap xs x. push cap xs x =
        (if length xs < cap then Inr (xs @ [x]) else Inl CapacityExceeded))"

text \<open>\<open>map.entry(key).or_default().push(level)\<close>\<close>

fun entry_or_default_push ::
  "('k \<Rightarrow> 'k \<Rightarrow> panic + ordering) \<Rightarrow> (level list \<Rightarrow> level \<Rightarrow> panic + level list) \<Rightarrow>
    'k \<Rightarrow> level \<Rightarrow> ('k \<times> level list) list \<Rightarrow> panic + ('k \<times> level list) list" where
  "entry_or_default_push cmp push k l [] = bindP (push [] l) (\<lambda>v. Inr [(k, v)])"
| "entry_or_default_push cmp push k l ((k', v) # m) =
     bindP (cmp k k') (\<lambda>c.
       case c of
         Less \<Rightarrow> bindP (push [] l) (\<lambda>v'. Inr ((k, v') # (k', v) # m))
       | Equal \<Rightarrow> bindP (push v l) (\<lambda>v'. Inr ((k', v') # m))
       | Greater \<Rightarrow> bindP (entry_or_default_push cmp push k l m) (\<lambda>m'. Inr ((k', v) # m')))"

definition level_proto :: "source_id \<Rightarrow> price_level \<Rightarrow> level" where
  "level_proto src l =
     \<lparr>lv_exchange = source_id_fmt src, lv_price = pl_price l, lv_amount = pl_amount l\<rparr>"

text \<open>One of the two loops over the levels of a snapshot.\<close>

definition add_levels ::
  "(f64 \<Rightarrow> 'k) \<Rightarrow> ('k \<Rightarrow> 'k \<Rightarrow> panic + ordering) \<Rightarrow>
    (level list \<Rightarrow> level \<Rightarrow> panic + level list) \<Rightarrow> source_id \<Rightarrow> price_level list \<Rightarrow>
    ('k \<times> level list) list \<Rightarrow> panic + ('k \<times> level list) list" where
  "add_levels new cmp push src lvls m =
     foldP (\<lambda>m l. entry_or_default_push cmp push (new (pl_price l)) (level_proto src l) m) m lvls"

subsection \<open>The contract of a keyed price\<close>

text \<open>
  What the price maps need of a key: on the keys the constructor makes, \<open>cmp\<close> is the comparison
  of an integer rank and never panics, and \<open>eq\<close> agrees with it.
\<close>

locale keyed_price =
  fixes new :: "f64 \<Rightarrow> 'k"
    and eq :: "'k \<Rightarrow> 'k \<Rightarrow> bool"
    and cmp :: "'k \<Rightarrow> 'k \<Rightarrow> panic + ordering"
    and rank :: "'k \<Rightarrow> int"
    and valid :: "'k \<Rightarrow> bool"
  assumes valid_new: "valid (new v)"
    and cmp_rank: "valid a \<Longrightarrow> valid b \<Longrightarrow> cmp a b = Inr (int_cmp (rank a) (rank b))"
    and eq_rank: "valid a \<Longrightarrow> valid b \<Longrightarrow> eq a b \<longleftrightarrow> rank a = rank b"
begin

lemma cmp_total_order:
  assumes "valid a" "valid b" "valid c"
  shows "cmp a b = Inr Less \<longleftrightarrow> cmp b a = Inr Greater"
    and "cmp a b = Inr Equal \<longleftrightarrow> eq a b"
    and "cmp a b = Inr Less \<Longrightarrow> cmp b c = Inr Less \<Longrightarrow> cmp a c = Inr Less"
    and "cmp a b \<noteq> Inl p"
  using assms by (auto simp: cmp_rank eq_rank)

text \<open>A price map read at rank level.\<close>

definition entries_valid :: "('k \<times> level list) list \<Rightarrow> bool" where
  "entries_valid m \<longleftrightarrow> (\<forall>(k, v) \<in> set m. valid k)"

definition ranked :: "('k \<times> level list) list \<Rightarrow> (int \<times> level list) list" where
  "ranked m = map (\<lambda>(k, v). (rank k, v)) m"

definition bucket :: "('k \<times> level list) list \<Rightarrow> int \<Rightarrow> level list" where
  "bucket m r = (case map_of (ranked m) r of None \<Rightarrow> [] | Some v \<Rightarrow> v)"

definition sorted_entries :: "('k \<times> level list) list \<Rightarrow> bool" where
  "sorted_entries m \<longleftrightarrow> sorted_wrt (<) (map fst (ranked m))"

lemmas entry_simps = entries_valid_def ranked_def bucket_def sorted_entries_def

lemma entry_push:
  assumes "sorted_entries m" "entries_valid m" "valid k" "push (bucket m (rank k)) l = Inr v'"
  shows "\<exists>m'. entry_or_default_push cmp push k l m = Inr m' \<and> entries_valid m' \<and>
    sorted_entries m' \<and> fst ` set (ranked m') = insert (rank k) (fst ` set (ranked m)) \<and>
    bucket m' = (bucket m)(rank k := v')"
  using assms
proof (induction m)
  case Nil
  then show ?case by (auto simp: entry_simps)
next
  case (Cons e m)
  obtain k' v where e: "e = (k', v)" by (cases e)
  have c: "cmp k k' = Inr (int_cmp (rank k) (rank k'))"
    using Cons.prems by (simp add: cmp_rank e entries_valid_def)
  have above: "\<forall>r \<in> fst ` set (ranked m). rank k' < r"
    using Cons.prems(1) by (auto simp: sorted_entries_def ranked_def e)
  consider (less) "rank k < rank k'" | (eq) "rank k = rank k'" | (gt) "rank k' < rank k"
    by linarith
  then show ?case
  proof cases
    case less
    then have "map_of (ranked (e # m)) (rank k) = None"
      using above by (fastforce simp: e ranked_def map_of_eq_None_iff)
    then have "bucket (e # m) (rank k) = []" by (simp add: bucket_def)
    then show ?thesis
      using Cons.prems less above c by (auto simp: e entry_simps int_cmp_def fun_eq_iff)
  next
    case eq
    then have "bucket (e # m) (rank k) = v" by (simp add: e bucket_def ranked_def)
    then show ?thesis
      using Cons.prems eq above c by (auto simp: e entry_simps int_cmp_def fun_eq_iff)
  next
    case gt
    then have g: "bucket (e # m) (rank k) = bucket m (rank k)" by (simp add: e bucket_def ranked_def)
    have "sorted_entries m" "entries_valid m"
      using Cons.prems(1,2) by (simp_all add: e sorted_entries_def ranked_def entries_valid_def)
    then obtain m' where m': "entry_or_default_push cmp push k l m = Inr m'" "entries_valid m'"
      "sorted_entries m'" "fst ` set (ranked m') = insert (rank k) (fst ` set (ranked m))"
      "bucket m' = (bucket m)(rank k := v')"
      using Cons.IH Cons.prems(3,4) unfolding g by blast
    have "\<forall>r \<in> fst ` set (ranked m'). rank k' < r" using above gt m'(4) by simp
    then have "sorted_entries ((k', v) # m')"
      using m'(3) by (simp add: sorted_entries_def ranked_def)
    moreover have "bucket ((k', v) # m') = (bucket (e # m))(rank k := v')"
      using m'(5) gt by (auto simp: e bucket_def ranked_def fun_eq_iff)
    moreover have "entries_valid ((k', v) # m')"
      using m'(2) Cons.prems(2) by (simp add: entries_valid_def e)
    moreover have "fst ` set (ranked ((k', v) # m')) =
        insert (rank k) (fst ` set (ranked (e # m)))"
      using m'(4) by (auto simp: e ranked_def)
    ultimately show ?thesis using m'(1) c gt by (simp add: e int_cmp_def fun_eq_iff)
  qed
qed

lemma entry_push_panic:
  assumes "sorted_entries m" "entries_valid m" "valid k" "push (bucket m (rank k)) l = Inl p"
  shows "entry_or_default_push cmp push k l m = Inl p"
  using assms
proof (induction m)
  case Nil
  then show ?case by (auto simp: entry_simps)
next
  case (Cons e m)
  obtain k' v where e: "e = (k', v)" by (cases e)
  have c: "cmp k k' = Inr (int_cmp (rank k) (rank k'))"
    using Cons.prems by (simp add: cmp_rank e entries_valid_def)
  have above: "\<forall>r \<in> fst ` set (ranked m). rank k' < r"
    using Cons.prems(1) by (auto simp: sorted_entries_def ranked_def e)
  consider (less) "rank k < rank k'" | (eq) "rank k = rank k'" | (gt) "rank k' < rank k"
    by linarith
  then show ?case
  proof cases
    case less
    then have "map_of (ranked (e # m)) (rank k) = None"
      using above by (fastforce simp: e ranked_def map_of_eq_None_iff)
    then show ?thesis using Cons.prems(4) less c by (simp add: e bucket_def int_cmp_def)
  next
    case eq
    then show ?thesis using Cons.prems(4) c by (simp add: e bucket_def ranked_def int_cmp_def)
  next
    case gt
    then have "bucket (e # m) (rank k) = bucket m (rank k)" by (simp add: e bucket_def ranked_def)
    then show ?thesis
      using Cons gt c by (simp add: e int_cmp_def sorted_entries_def ranked_def entries_valid_def)
  qed
qed

text \<open>
  A price map represents the list of levels pushed into it: one entry for each rank that occurs,
  in rank order, holding the levels of that rank in the order they came.
\<close>

definition key_rank :: "level \<Rightarrow> int" where
  "key_rank l = rank (new (lv_price l))"

definition at_rank :: "level list \<Rightarrow> int \<Rightarrow> level list" where
  "at_rank ls r = filter (\<lambda>l. key_rank l = r) ls"

definition represents :: "('k \<times> level list) list \<Rightarrow> level list \<Rightarrow> bool" where
  "represents m ls \<longleftrightarrow> entries_valid m \<and> sorted_entries m \<and>
     fst ` set (ranked m) = key_rank ` set ls \<and> bucket m = at_rank ls"

definition within_cap :: "nat \<Rightarrow> level list \<Rightarrow> bool" where
  "within_cap cap ls \<longleftrightarrow> (\<forall>r. length (at_rank ls r) \<le> cap)"

lemma represents_Nil: "represents [] []"
  by (simp add: represents_def entry_simps at_rank_def fun_eq_iff)

lemma at_rank_snoc: "at_rank (ls @ [l]) = (at_rank ls)(key_rank l := at_rank ls (key_rank l) @ [l])"
  by (auto simp: at_rank_def fun_eq_iff)

lemma within_cap_snoc:
  assumes "within_cap cap ls"
  shows "within_cap cap (ls @ [l]) \<longleftrightarrow> length (at_rank ls (key_rank l)) < cap"
  using assms by (auto simp: within_cap_def at_rank_snoc)

lemma within_cap_prefix: "within_cap cap (ls @ ls') \<Longrightarrow> within_cap cap ls"
  unfolding within_cap_def at_rank_def
  by (metis filter_append le_add1 le_trans length_append)

lemma represents_push:
  assumes rep: "represents m ls" and av: "arrayvec_push_spec push" and cap: "within_cap cap ls"
  shows "if within_cap cap (ls @ [l])
    then \<exists>m'. entry_or_default_push cmp (push cap) (new (lv_price l)) l m = Inr m' \<and>
      represents m' (ls @ [l])
    else entry_or_default_push cmp (push cap) (new (lv_price l)) l m = Inl CapacityExceeded"
proof (cases "within_cap cap (ls @ [l])")
  case True
  have "push cap (bucket m (rank (new (lv_price l)))) l = Inr (at_rank ls (key_rank l) @ [l])"
    using rep av True within_cap_snoc [OF cap]
    by (simp add: represents_def arrayvec_push_spec_def key_rank_def)
  from entry_push [where push = "push cap" and m = m, OF _ _ valid_new this] rep obtain m' where "entry_or_default_push cmp (push cap) (new (lv_price l)) l m = Inr m'"
    "entries_valid m'" "sorted_entries m'"
    "fst ` set (ranked m') = insert (key_rank l) (fst ` set (ranked m))"
    "bucket m' = (bucket m)(key_rank l := at_rank ls (key_rank l) @ [l])"
    unfolding represents_def key_rank_def by blast
  then show ?thesis
    using True rep by (auto simp: represents_def at_rank_snoc)
next
  case False
  have "push cap (bucket m (key_rank l)) l = Inl CapacityExceeded"
    using rep av False within_cap_snoc [OF cap]
    by (simp add: represents_def arrayvec_push_spec_def)
  then show ?thesis
    using False entry_push_panic [of m "new (lv_price l)" "push cap" l] rep valid_new
    by (simp add: represents_def key_rank_def)
qed

lemma lv_price_proto [simp]: "lv_price (level_proto src l) = pl_price l"
  by (simp add: level_proto_def)

lemma add_levels_represents:
  assumes "represents m ls" "arrayvec_push_spec push" "within_cap cap ls"
  shows "if within_cap cap (ls @ map (level_proto src) lvls)
    then \<exists>m'. add_levels new cmp (push cap) src lvls m = Inr m' \<and>
      represents m' (ls @ map (level_proto src) lvls)
    else add_levels new cmp (push cap) src lvls m = Inl CapacityExceeded"
  using assms
proof (induction lvls arbitrary: m ls)
  case Nil
  then show ?case by (simp add: add_levels_def)
next
  case (Cons x xs)
  let ?l = "level_proto src x"
  have step: "if within_cap cap (ls @ [?l])
    then \<exists>m'. entry_or_default_push cmp (push cap) (new (pl_price x)) ?l m = Inr m' \<and>
      represents m' (ls @ [?l])
    else entry_or_default_push cmp (push cap) (new (pl_price x)) ?l m = Inl CapacityExceeded"
    using represents_push [OF Cons.prems, of ?l] unfolding lv_price_proto .
  show ?case
  proof (cases "within_cap cap (ls @ [?l])")
    case True
    with step obtain m' where m':
      "entry_or_default_push cmp (push cap) (new (pl_price x)) ?l m = Inr m'"
      "represents m' (ls @ [?l])" by auto
    have eq: "add_levels new cmp (push cap) src (x # xs) m = add_levels new cmp (push cap) src xs m'"
      using m'(1) by (simp add: add_levels_def)
    show ?thesis
      using Cons.IH [OF m'(2) Cons.prems(2) True] by (simp add: eq split: if_splits)
  next
    case False
    then have "\<not> within_cap cap (ls @ map (level_proto src) (x # xs))"
      using within_cap_prefix [of cap "ls @ [?l]" "map (level_proto src) xs"] by auto
    then show ?thesis using step False by (simp add: add_levels_def)
  qed
qed

text \<open>The values of the map in key order.\<close>

definition grouped :: "level list \<Rightarrow> level list list" where
  "grouped ls = map (at_rank ls) (sorted_list_of_set (key_rank ` set ls))"

lemma represents_values:
  assumes "represents m ls"
  shows "map snd m = grouped ls"
proof -
  have dist: "distinct (map fst (ranked m))" and sorted: "sorted (map fst (ranked m))"
    using assms by (auto simp: represents_def sorted_entries_def strict_sorted_iff)
  have "set (map fst (ranked m)) = key_rank ` set ls"
    using assms by (simp add: represents_def)
  then have keys: "map fst (ranked m) = sorted_list_of_set (key_rank ` set ls)"
    using dist sorted by (metis sorted_list_of_set.idem_if_sorted_distinct)
  have "map snd (ranked m) = map (bucket m) (map fst (ranked m))"
    using dist by (auto simp: bucket_def)
  moreover have "map snd m = map snd (ranked m)"
    by (auto simp: ranked_def)
  ultimately show ?thesis
    using keys assms by (simp add: represents_def grouped_def)
qed

end

subsection \<open>Both kinds of price meet the contract\<close>

fun ask_rank :: "ask_keyed_price \<Rightarrow> int" where
  "ask_rank (AskKeyedPrice v) = f64_val v"

fun bid_rank :: "bid_keyed_price \<Rightarrow> int" where
  "bid_rank (BidKeyedPrice v) = - f64_val v"

fun ask_key_valid :: "ask_keyed_price \<Rightarrow> bool" where
  "ask_key_valid (AskKeyedPrice v) \<longleftrightarrow> \<not> is_nan v"

fun bid_key_valid :: "bid_keyed_price \<Rightarrow> bool" where
  "bid_key_valid (BidKeyedPrice v) \<longleftrightarrow> \<not> is_nan v"

interpretation ask: keyed_price ask_key_new ask_key_eq ask_key_cmp ask_rank ask_key_valid
proof
  fix v a b
  show "ask_key_valid (ask_key_new v)" by (simp add: ask_key_new_def)
  assume "ask_key_valid a" "ask_key_valid b"
  then show "ask_key_cmp a b = Inr (int_cmp (ask_rank a) (ask_rank b))"
    and "ask_key_eq a b \<longleftrightarrow> ask_rank a = ask_rank b"
    by (cases a; cases b; simp add: partial_cmp_not_nan f64_eq_iff)+
qed

lemma reverse_int_cmp: "reverse (int_cmp a b) = int_cmp (- a) (- b)"
  by (auto simp: int_cmp_def)

interpretation bid: keyed_price bid_key_new bid_key_eq bid_key_cmp bid_rank bid_key_valid
proof
  fix v a b
  show "bid_key_valid (bid_key_new v)" by (simp add: bid_key_new_def)
  assume "bid_key_valid a" "bid_key_valid b"
  then show "bid_key_cmp a b = Inr (int_cmp (bid_rank a) (bid_rank b))"
    and "bid_key_eq a b \<longleftrightarrow> bid_rank a = bid_rank b"
    by (cases a; cases b; simp add: partial_cmp_not_nan f64_eq_iff reverse_int_cmp)+
qed

end
