(* ===== verification/Combined.thy ===== *)
theory Combined
  imports Price_Keys
begin

section \<open>The combined summary (aggserver/src/service/model.rs)\<close>

text \<open>
  \<open>CombinedSummary\<close> holds one snapshot per source; \<open>to_proto\<close> merges them into the summary that
  is published. \<open>Level\<close> and \<open>Summary\<close> are the messages of aggcommon/proto/orderbook.proto.
  \<open>sort_unstable_by\<close> is an insertion sort, which is what the standard library runs on slices of
  up to 20 elements; the laws proved about \<open>to_proto\<close> use only that a sort returns a sorted
  permutation (locale \<open>slice_sort\<close>), so they do not depend on the order it gives equal amounts.
\<close>

record summary =
  sm_spread :: f64
  sm_bids :: "level list"
  sm_asks :: "level list"
  sm_arrival_time :: nano_time

record combined_summary =
  co_sources :: "contributor_snapshot list"

definition combined_new :: "nat \<Rightarrow> combined_summary" where
  "combined_new n = \<lparr>co_sources = replicate NUM_SOURCES (snapshot_default n)\<rparr>"

definition update_snapshot ::
  "combined_summary \<Rightarrow> contributor_snapshot \<Rightarrow> panic + combined_summary" where
  "update_snapshot c snapshot =
     (let index = usize_from (cs_source_id snapshot)
      in if index < length (co_sources c)
         then Inr (c\<lparr>co_sources := (co_sources c)[index := snapshot]\<rparr>)
         else Inl IndexOutOfBounds)"

text \<open>The standard library's sort, with a comparison that may panic.\<close>

fun insert_by :: "('a \<Rightarrow> 'a \<Rightarrow> panic + ordering) \<Rightarrow> 'a \<Rightarrow> 'a list \<Rightarrow> panic + 'a list" where
  "insert_by cmp x [] = Inr [x]"
| "insert_by cmp x (y # ys) =
     bindP (cmp x y) (\<lambda>c.
       if c = Less then Inr (x # y # ys)
       else bindP (insert_by cmp x ys) (\<lambda>zs. Inr (y # zs)))"

definition sort_unstable_by ::
  "('a \<Rightarrow> 'a \<Rightarrow> panic + ordering) \<Rightarrow> 'a list \<Rightarrow> panic + 'a list" where
  "sort_unstable_by cmp xs = foldP (\<lambda>sorted x. insert_by cmp x sorted) [] xs"

definition amount_cmp :: "level \<Rightarrow> level \<Rightarrow> panic + ordering" where
  "amount_cmp a b =
     (case partial_cmp (lv_amount b) (lv_amount a) of
        None \<Rightarrow> Inl UnwrapNone
      | Some c \<Rightarrow> Inr c)"

type_synonym 'k price_map = "('k \<times> level list) list"

fun merge_snapshot ::
  "(level list \<Rightarrow> level \<Rightarrow> panic + level list) \<Rightarrow>
    bid_keyed_price price_map \<times> ask_keyed_price price_map \<times> nano_time \<Rightarrow> contributor_snapshot \<Rightarrow>
    panic + bid_keyed_price price_map \<times> ask_keyed_price price_map \<times> nano_time" where
  "merge_snapshot push (bid_map, ask_map, latest_time) snapshot =
     (if snapshot_is_empty snapshot then Inr (bid_map, ask_map, latest_time)
      else
        bindP (levels_as_slice (cs_bids snapshot)) (\<lambda>bids.
        bindP (add_levels bid_key_new bid_key_cmp push (cs_source_id snapshot) bids bid_map) (\<lambda>bid_map'.
        bindP (levels_as_slice (cs_asks snapshot)) (\<lambda>asks.
        bindP (add_levels ask_key_new ask_key_cmp push (cs_source_id snapshot) asks ask_map) (\<lambda>ask_map'.
          Inr (bid_map', ask_map', max latest_time (cs_arrival_time snapshot)))))))"

text \<open>\<open>map.into_iter().take(N).flat_map(sort by amount).collect()\<close>\<close>

definition collect_side ::
  "(level list \<Rightarrow> panic + level list) \<Rightarrow> nat \<Rightarrow> 'k price_map \<Rightarrow> panic + level list" where
  "collect_side sorter n m =
     foldP (\<lambda>out (k, levels). bindP (sorter levels) (\<lambda>levels'. Inr (out @ levels'))) [] (take n m)"

fun first :: "'a list \<Rightarrow> 'a option" where
  "first [] = None"
| "first (x # xs) = Some x"

fun spread_from :: "level option \<Rightarrow> level option \<Rightarrow> f64" where
  "spread_from (Some b) (Some a) =
     (if f64_gt (lv_price b) f64_zero \<and> f64_gt (lv_price a) f64_zero
      then f64_minus (lv_price a) (lv_price b) else f64_nan)"
| "spread_from _ _ = f64_nan"

definition to_proto :: "av_push \<Rightarrow> nat \<Rightarrow> combined_summary \<Rightarrow> panic + summary" where
  "to_proto av_push n c =
     bindP (foldP (merge_snapshot (av_push n)) ([], [], 0) (co_sources c))
       (\<lambda>(bid_map, ask_map, latest_time).
         bindP (collect_side (sort_unstable_by amount_cmp) n bid_map) (\<lambda>bids.
         bindP (collect_side (sort_unstable_by amount_cmp) n ask_map) (\<lambda>asks.
           Inr \<lparr>sm_spread = spread_from (first bids) (first asks),
                sm_bids = bids, sm_asks = asks, sm_arrival_time = latest_time\<rparr>)))"

subsection \<open>Snapshot slots\<close>

definition combined_wf :: "nat \<Rightarrow> combined_summary \<Rightarrow> bool" where
  "combined_wf n c \<longleftrightarrow> length (co_sources c) = NUM_SOURCES \<and> (\<forall>s \<in> set (co_sources c). snapshot_wf n s)"

definition slot :: "combined_summary \<Rightarrow> source_id \<Rightarrow> contributor_snapshot" where
  "slot c src = co_sources c ! usize_from src"

lemma combined_wf_new [simp]: "combined_wf n (combined_new n)"
  by (simp add: combined_wf_def combined_new_def)

lemma slot_new [simp]: "slot (combined_new n) src = snapshot_default n"
  by (simp add: slot_def combined_new_def)

lemma update_snapshot_wf:
  assumes "combined_wf n c" "snapshot_wf n s"
  shows "\<exists>c'. update_snapshot c s = Inr c' \<and> combined_wf n c' \<and>
    slot c' = (slot c)(cs_source_id s := s)"
proof -
  have "usize_from (cs_source_id s) < length (co_sources c)"
    using assms(1) by (simp add: combined_wf_def)
  then show ?thesis
    using assms set_update_subset_insert [of "co_sources c" "usize_from (cs_source_id s)" s]
    by (auto simp: update_snapshot_def combined_wf_def slot_def fun_eq_iff nth_list_update)
qed

lemma combined_sources:
  assumes "combined_wf n c"
  shows "co_sources c = [slot c Bitstamp, slot c Binance]"
proof -
  obtain a b where "co_sources c = [a, b]"
    using assms by (auto simp: combined_wf_def NUM_SOURCES_def length_Suc_conv numeral_2_eq_2)
  then show ?thesis by (simp add: slot_def)
qed

subsection \<open>The contract of a sort\<close>

locale slice_sort =
  fixes sorter :: "'a list \<Rightarrow> panic + 'a list"
    and weight :: "'a \<Rightarrow> int"
    and ok :: "'a \<Rightarrow> bool"
  assumes sort_ok: "\<forall>x \<in> set xs. ok x \<Longrightarrow>
      \<exists>ys. sorter xs = Inr ys \<and> mset ys = mset xs \<and> sorted_wrt (\<lambda>a b. weight a \<le> weight b) ys"
    and sort_single: "length xs \<le> 1 \<Longrightarrow> sorter xs = Inr xs"
    and sort_bad: "1 < length xs \<Longrightarrow> \<exists>x \<in> set xs. \<not> ok x \<Longrightarrow> sorter xs = Inl UnwrapNone"
begin

definition sortable :: "'a list \<Rightarrow> bool" where
  "sortable xs \<longleftrightarrow> length xs \<le> 1 \<or> (\<forall>x \<in> set xs. ok x)"

lemma sort_sortable:
  "if sortable xs
   then \<exists>ys. sorter xs = Inr ys \<and> mset ys = mset xs \<and> sorted_wrt (\<lambda>a b. weight a \<le> weight b) ys
   else sorter xs = Inl UnwrapNone"
proof (cases "length xs \<le> 1")
  case True
  then have "sorted_wrt (\<lambda>a b. weight a \<le> weight b) xs"
    by (cases xs; cases "tl xs") auto
  then show ?thesis using True by (simp add: sortable_def sort_single)
next
  case False
  then show ?thesis using sort_ok [of xs] sort_bad [of xs] by (simp add: sortable_def)
qed

text \<open>Sorting the groups one by one and concatenating, as \<open>flat_map\<close> does.\<close>

lemma flat_sort:
  "if \<forall>v \<in> set vs. sortable v
   then \<exists>ss. foldP (\<lambda>out v. bindP (sorter v) (\<lambda>s. Inr (out @ s))) acc vs = Inr (acc @ concat ss) \<and>
     list_all2 (\<lambda>s v. mset s = mset v \<and> sorted_wrt (\<lambda>a b. weight a \<le> weight b) s) ss vs
   else foldP (\<lambda>out v. bindP (sorter v) (\<lambda>s. Inr (out @ s))) acc vs = Inl UnwrapNone"
proof (induction vs arbitrary: acc)
  case Nil
  then show ?case by simp
next
  case (Cons v vs)
  show ?case
  proof (cases "sortable v")
    case True
    then obtain s where s: "sorter v = Inr s" "mset s = mset v"
      "sorted_wrt (\<lambda>a b. weight a \<le> weight b) s"
      using sort_sortable [of v] by auto
    show ?thesis
    proof (cases "\<forall>v \<in> set vs. sortable v")
      case all: True
      with Cons.IH [of "acc @ s"] obtain ss where
        "foldP (\<lambda>out v. bindP (sorter v) (\<lambda>s. Inr (out @ s))) (acc @ s) vs = Inr ((acc @ s) @ concat ss)"
        "list_all2 (\<lambda>s v. mset s = mset v \<and> sorted_wrt (\<lambda>a b. weight a \<le> weight b) s) ss vs"
        by auto
      then show ?thesis using True all s by (auto intro!: exI [of _ "s # ss"])
    next
      case False
      with Cons.IH [of "acc @ s"] show ?thesis using True s by auto
    qed
  next
    case False
    then show ?thesis using sort_sortable [of v] by auto
  qed
qed

end

lemma insert_by_ok:
  assumes "\<forall>y \<in> set ys. cmp x y = Inr (int_cmp (w x) (w y))"
    and "sorted_wrt (\<lambda>a b. w a \<le> w b) ys"
  shows "\<exists>zs. insert_by cmp x ys = Inr zs \<and> mset zs = add_mset x (mset ys) \<and>
    sorted_wrt (\<lambda>a b. w a \<le> w b) zs"
  using assms
proof (induction ys)
  case Nil
  then show ?case by simp
next
  case (Cons y ys)
  show ?case
  proof (cases "w x < w y")
    case True
    then show ?thesis using Cons.prems by (auto simp: int_cmp_def)
  next
    case False
    from Cons obtain zs where zs: "insert_by cmp x ys = Inr zs" "mset zs = add_mset x (mset ys)"
      "sorted_wrt (\<lambda>a b. w a \<le> w b) zs" by auto
    then have "set zs = insert x (set ys)" by (metis set_mset_add_mset_insert set_mset_mset)
    then show ?thesis using False zs Cons.prems by (simp add: int_cmp_def)
  qed
qed

lemma insertion_sort_ok:
  assumes "\<forall>x \<in> set xs. \<forall>y \<in> set xs. cmp x y = Inr (int_cmp (w x) (w y))"
  shows "\<exists>zs. sort_unstable_by cmp xs = Inr zs \<and> mset zs = mset xs \<and>
    sorted_wrt (\<lambda>a b. w a \<le> w b) zs"
  using assms
proof (induction xs rule: rev_induct)
  case Nil
  then show ?case by (simp add: sort_unstable_by_def)
next
  case (snoc x xs)
  then obtain zs where zs: "sort_unstable_by cmp xs = Inr zs" "mset zs = mset xs"
    "sorted_wrt (\<lambda>a b. w a \<le> w b) zs" by auto
  have "set zs = set xs" using zs(2) by (metis set_mset_mset)
  then have "\<forall>y \<in> set zs. cmp x y = Inr (int_cmp (w x) (w y))" using snoc.prems by simp
  from insert_by_ok [of zs cmp x w, OF this zs(3)] zs show ?case
    by (auto simp: sort_unstable_by_def foldP_append)
qed

lemma insertion_sort_bad:
  assumes cmp_ok: "\<And>x y. ok x \<Longrightarrow> ok y \<Longrightarrow> cmp x y = Inr (int_cmp (w x) (w y))"
    and cmp_bad: "\<And>x y. \<not> ok x \<or> \<not> ok y \<Longrightarrow> cmp x y = Inl p"
    and "1 < length xs" "\<exists>x \<in> set xs. \<not> ok x"
  shows "sort_unstable_by cmp xs = Inl p"
  using assms(3,4)
proof (induction xs rule: rev_induct)
  case Nil
  then show ?case by simp
next
  case (snoc x xs)
  have ins: "insert_by cmp x zs = Inl p" if "zs \<noteq> []" "\<not> ok x \<or> \<not> ok (hd zs)" for zs
    using that cmp_bad [of x "hd zs"] by (cases zs) auto
  have unfold: "sort_unstable_by cmp (xs @ [x]) = bindP (sort_unstable_by cmp xs) (insert_by cmp x)"
    by (simp add: sort_unstable_by_def foldP_append)
  show ?case
  proof (cases "\<forall>y \<in> set xs. ok y")
    case True
    then obtain zs where zs: "sort_unstable_by cmp xs = Inr zs" "mset zs = mset xs"
      using insertion_sort_ok [of xs cmp w] cmp_ok by blast
    moreover have "zs \<noteq> []" using zs(2) snoc.prems(1) by auto
    moreover have "\<not> ok x" using True snoc.prems(2) by auto
    ultimately show ?thesis using ins unfold by simp
  next
    case False
    show ?thesis
    proof (cases "1 < length xs")
      case True
      then show ?thesis using snoc.IH False unfold by simp
    next
      case short: False
      then obtain y where "xs = [y]" using snoc.prems(1) by (cases xs) auto
      then show ?thesis
        using False ins [of "[y]"] unfold by (simp add: sort_unstable_by_def)
    qed
  qed
qed

definition amount_ok :: "level \<Rightarrow> bool" where
  "amount_ok l \<longleftrightarrow> \<not> is_nan (lv_amount l)"

definition amount_weight :: "level \<Rightarrow> int" where
  "amount_weight l = - f64_val (lv_amount l)"

lemma amount_cmp_ok:
  "amount_ok a \<Longrightarrow> amount_ok b \<Longrightarrow> amount_cmp a b = Inr (int_cmp (amount_weight a) (amount_weight b))"
  by (simp add: amount_cmp_def amount_ok_def amount_weight_def partial_cmp_not_nan int_cmp_def)

lemma amount_cmp_bad: "\<not> amount_ok a \<or> \<not> amount_ok b \<Longrightarrow> amount_cmp a b = Inl UnwrapNone"
  by (auto simp: amount_cmp_def amount_ok_def partial_cmp_def)

interpretation amounts: slice_sort "sort_unstable_by amount_cmp" amount_weight amount_ok
proof
  fix xs :: "level list"
  show "\<exists>ys. sort_unstable_by amount_cmp xs = Inr ys \<and> mset ys = mset xs \<and>
      sorted_wrt (\<lambda>a b. amount_weight a \<le> amount_weight b) ys" if "\<forall>x \<in> set xs. amount_ok x"
    using that insertion_sort_ok [of xs amount_cmp amount_weight] amount_cmp_ok by blast
  show "sort_unstable_by amount_cmp xs = Inr xs" if "length xs \<le> 1"
    using that by (cases xs) (simp_all add: sort_unstable_by_def)
  show "sort_unstable_by amount_cmp xs = Inl UnwrapNone" if "1 < length xs" "\<exists>x \<in> set xs. \<not> amount_ok x"
    using insertion_sort_bad [of amount_ok amount_cmp amount_weight, OF amount_cmp_ok amount_cmp_bad that]
    by simp
qed

subsection \<open>One side of the summary\<close>

text \<open>
  What a side must be, given the levels of all sources: the levels of the best \<open>n\<close> prices,
  every one of them once, best price first and larger amounts first within a price.
\<close>

definition top_ranks :: "(level \<Rightarrow> int) \<Rightarrow> nat \<Rightarrow> level list \<Rightarrow> int list" where
  "top_ranks rank n ls = take n (sorted_list_of_set (rank ` set ls))"

definition side_spec :: "(level \<Rightarrow> int) \<Rightarrow> nat \<Rightarrow> level list \<Rightarrow> level list \<Rightarrow> bool" where
  "side_spec rank n ls out \<longleftrightarrow>
     sorted_wrt (\<lambda>a b. rank a < rank b \<or>
       (rank a = rank b \<and> f64_val (lv_amount b) \<le> f64_val (lv_amount a))) out \<and>
     mset out = mset (filter (\<lambda>l. rank l \<in> set (top_ranks rank n ls)) ls)"

lemma collect_side_map:
  "collect_side sorter n m =
    foldP (\<lambda>out v. bindP (sorter v) (\<lambda>s. Inr (out @ s))) [] (take n (map snd m))"
proof -
  have "foldP (\<lambda>out (k, v). bindP (sorter v) (\<lambda>s. Inr (out @ s))) acc xs =
      foldP (\<lambda>out v. bindP (sorter v) (\<lambda>s. Inr (out @ s))) acc (map snd xs)"
    for acc and xs :: "('a \<times> level list) list"
    by (induction xs arbitrary: acc) (auto intro!: arg_cong2 [where f = bindP])
  then show ?thesis by (simp add: collect_side_def take_map)
qed

lemma concat_groups_sorted:
  assumes "sorted_wrt (<) rs"
    and "list_all2 (\<lambda>s r. sorted_wrt Q s \<and> (\<forall>x \<in> set s. rank x = (r :: int))) ss rs"
  shows "sorted_wrt (\<lambda>a b. rank a < rank b \<or> (rank a = rank b \<and> Q a b)) (concat ss)"
  using assms(2,1)
proof (induction ss rs rule: list_all2_induct)
  case Nil
  then show ?case by simp
next
  case (Cons s ss r rs)
  have later: "\<exists>r' \<in> set rs. rank y = r'" if "y \<in> set (concat ss)" for y
    using Cons.hyps(2) that by (induction ss rs rule: list_all2_induct) auto
  have "sorted_wrt (\<lambda>a b. rank a < rank b \<or> (rank a = rank b \<and> Q a b)) s"
    by (rule sorted_wrt_mono_rel [of _ Q]) (use Cons.hyps(1) in auto)
  moreover have "sorted_wrt (\<lambda>a b. rank a < rank b \<or> (rank a = rank b \<and> Q a b)) (concat ss)"
    using Cons.IH Cons.prems by simp
  moreover have "rank x < rank y" if "x \<in> set s" "y \<in> set (concat ss)" for x y
    using that later [OF that(2)] Cons.hyps(1) Cons.prems by auto
  ultimately show ?case by (auto simp: sorted_wrt_append)
qed

locale price_side =
  keyed_price new eq cmp rank valid + slice_sort sorter amount_weight amount_ok
  for new :: "f64 \<Rightarrow> 'k" and eq cmp rank valid and sorter :: "level list \<Rightarrow> panic + level list"
begin

lemma at_rank_mset: "mset s = mset (at_rank ls r) \<Longrightarrow> x \<in> set s \<Longrightarrow> key_rank x = r"
  by (drule mset_eq_setD) (simp add: at_rank_def)

lemma collect_represents:
  assumes "represents m ls"
  shows "if \<forall>v \<in> set (take n (grouped ls)). sortable v
    then \<exists>out. collect_side sorter n m = Inr out \<and> side_spec key_rank n ls out
    else collect_side sorter n m = Inl UnwrapNone"
proof (cases "\<forall>v \<in> set (take n (grouped ls)). sortable v")
  case True
  let ?rs = "top_ranks key_rank n ls"
  have vs: "take n (grouped ls) = map (at_rank ls) ?rs"
    by (simp add: grouped_def top_ranks_def take_map)
  obtain ss where ss: "collect_side sorter n m = Inr (concat ss)"
    "list_all2 (\<lambda>s v. mset s = mset v \<and> sorted_wrt (\<lambda>a b. amount_weight a \<le> amount_weight b) s)
      ss (map (at_rank ls) ?rs)"
    using flat_sort [of "take n (grouped ls)" "[]"] True vs
    by (auto simp: collect_side_map represents_values [OF assms])
  have strict: "sorted_wrt (<) ?rs"
    by (simp add: top_ranks_def sorted_wrt_take)
  have groups: "list_all2 (\<lambda>s r. sorted_wrt (\<lambda>a b. amount_weight a \<le> amount_weight b) s \<and>
      (\<forall>x \<in> set s. key_rank x = r)) ss ?rs"
    using ss(2) unfolding list_all2_map2
    by (rule list_all2_mono) (blast intro: at_rank_mset)
  have "mset (concat ss) = mset (concat (map (at_rank ls) ?rs))"
    using ss(2) by (rule mset_concat_list_all2)
  also have "\<dots> = mset (filter (\<lambda>l. key_rank l \<in> set ?rs) ls)"
    unfolding at_rank_def
    by (rule mset_concat_map_filter) (use strict strict_sorted_iff in blast)
  finally have "side_spec key_rank n ls (concat ss)"
    using concat_groups_sorted [OF strict groups]
    by (simp add: side_spec_def amount_weight_def)
  then show ?thesis using True ss(1) by auto
next
  case False
  then show ?thesis
    using flat_sort [of "take n (grouped ls)" "[]"]
    by (auto simp: collect_side_map represents_values [OF assms])
qed

end

interpretation bid_side: price_side bid_key_new bid_key_eq bid_key_cmp bid_rank bid_key_valid
  "sort_unstable_by amount_cmp"
  by unfold_locales

interpretation ask_side: price_side ask_key_new ask_key_eq ask_key_cmp ask_rank ask_key_valid
  "sort_unstable_by amount_cmp"
  by unfold_locales

subsection \<open>Merging the snapshots\<close>

definition side_levels ::
  "(contributor_snapshot \<Rightarrow> contributor_levels) \<Rightarrow> contributor_snapshot list \<Rightarrow> level list" where
  "side_levels side ss =
     concat (map (\<lambda>s. map (level_proto (cs_source_id s)) (levels_list (side s))) ss)"

definition all_bids :: "combined_summary \<Rightarrow> level list" where
  "all_bids c = side_levels cs_bids (co_sources c)"

definition all_asks :: "combined_summary \<Rightarrow> level list" where
  "all_asks c = side_levels cs_asks (co_sources c)"

definition latest_time :: "contributor_snapshot list \<Rightarrow> nano_time \<Rightarrow> nano_time" where
  "latest_time ss t =
     fold (\<lambda>s t. if snapshot_is_empty s then t else max t (cs_arrival_time s)) ss t"

lemma latest_time_simps [simp]:
  "latest_time [] t = t"
  "latest_time (s # ss) t =
    latest_time ss (if snapshot_is_empty s then t else max t (cs_arrival_time s))"
  by (simp_all add: latest_time_def)

lemma side_levels_simps [simp]:
  "side_levels side [] = []"
  "side_levels side (s # ss) =
    map (level_proto (cs_source_id s)) (levels_list (side s)) @ side_levels side ss"
  by (simp_all add: side_levels_def)

lemma merge_snapshots:
  assumes "\<forall>s \<in> set ss. snapshot_wf n s" "arrayvec_push_spec av_push"
    and "bid.represents bm lb" "ask.represents am la" "bid.within_cap n lb" "ask.within_cap n la"
  shows "if bid.within_cap n (lb @ side_levels cs_bids ss) \<and>
      ask.within_cap n (la @ side_levels cs_asks ss)
    then \<exists>bm' am'. foldP (merge_snapshot (av_push n)) (bm, am, t) ss = Inr (bm', am', latest_time ss t) \<and>
      bid.represents bm' (lb @ side_levels cs_bids ss) \<and>
      ask.represents am' (la @ side_levels cs_asks ss)
    else foldP (merge_snapshot (av_push n)) (bm, am, t) ss = Inl CapacityExceeded"
  using assms
proof (induction ss arbitrary: bm am lb la t)
  case Nil
  then show ?case by simp
next
  case (Cons s ss)
  let ?b = "map (level_proto (cs_source_id s)) (snapshot_bids s)"
  let ?a = "map (level_proto (cs_source_id s)) (snapshot_asks s)"
  have wf: "snapshot_wf n s" using Cons.prems(1) by simp
  then have slices: "levels_as_slice (cs_bids s) = Inr (snapshot_bids s)"
    "levels_as_slice (cs_asks s) = Inr (snapshot_asks s)"
    by (auto simp: snapshot_wf_def intro: levels_as_slice_wf)
  have prefix: "bid.within_cap n (lb @ ?b)" "ask.within_cap n (la @ ?a)"
    if "bid.within_cap n ((lb @ ?b) @ side_levels cs_bids ss)"
      "ask.within_cap n ((la @ ?a) @ side_levels cs_asks ss)"
    using that bid.within_cap_prefix ask.within_cap_prefix by blast+
  show ?case
  proof (cases "snapshot_is_empty s")
    case True
    then have "?b = []" "?a = []" using snapshot_is_empty_iff [OF wf] by simp_all
    then show ?thesis
      using Cons.IH [of bm lb am la t] Cons.prems True by (simp split: if_splits)
  next
    case False
    note B = bid.add_levels_represents [OF Cons.prems(3,2,5),
        where src = "cs_source_id s" and lvls = "snapshot_bids s"]
    note A = ask.add_levels_represents [OF Cons.prems(4,2,6),
        where src = "cs_source_id s" and lvls = "snapshot_asks s"]
    show ?thesis
    proof (cases "bid.within_cap n (lb @ ?b) \<and> ask.within_cap n (la @ ?a)")
      case True
      then obtain bm' am' where m:
        "add_levels bid_key_new bid_key_cmp (av_push n) (cs_source_id s) (snapshot_bids s) bm = Inr bm'"
        "bid.represents bm' (lb @ ?b)"
        "add_levels ask_key_new ask_key_cmp (av_push n) (cs_source_id s) (snapshot_asks s) am = Inr am'"
        "ask.represents am' (la @ ?a)"
        using A B by auto
      show ?thesis
        using Cons.IH [OF _ Cons.prems(2) m(2,4), of "max t (cs_arrival_time s)"]
          Cons.prems(1) True False m(1,3) slices
        by (simp split: if_splits)
    next
      case exceeded: False
      then have "\<not> (bid.within_cap n (lb @ side_levels cs_bids (s # ss)) \<and>
          ask.within_cap n (la @ side_levels cs_asks (s # ss)))"
        using prefix by auto
      moreover have "merge_snapshot (av_push n) (bm, am, t) s = Inl CapacityExceeded"
        using exceeded A B False slices
        by (cases "bid.within_cap n (lb @ ?b)") (auto simp: bindP_eq_Inl)
      ultimately show ?thesis by simp
    qed
  qed
qed

text \<open>The level maps of one price side: how many levels share a price, and their amounts.\<close>

definition key_price :: "f64 \<Rightarrow> f64" where
  "key_price p = (if is_nan p then f64_zero else p)"

definition ask_order :: "level \<Rightarrow> int" where
  "ask_order l = f64_val (key_price (lv_price l))"

definition bid_order :: "level \<Rightarrow> int" where
  "bid_order l = - f64_val (key_price (lv_price l))"

lemma key_rank_orders: "bid.key_rank = bid_order" "ask.key_rank = ask_order"
  by (simp_all add: fun_eq_iff bid.key_rank_def ask.key_rank_def bid_order_def ask_order_def
      key_price_def bid_key_new_def ask_key_new_def)

definition at_price :: "(level \<Rightarrow> int) \<Rightarrow> int \<Rightarrow> level list \<Rightarrow> level list" where
  "at_price order r ls = filter (\<lambda>l. order l = r) ls"

definition crowded :: "(level \<Rightarrow> int) \<Rightarrow> nat \<Rightarrow> level list \<Rightarrow> bool" where
  \<comment> \<open>some price has more than \<open>n\<close> levels\<close>
  "crowded order n ls \<longleftrightarrow> (\<exists>l \<in> set ls. n < length (at_price order (order l) ls))"

definition incomparable :: "(level \<Rightarrow> int) \<Rightarrow> nat \<Rightarrow> level list \<Rightarrow> bool" where
  \<comment> \<open>one of the best \<open>n\<close> prices has two levels or more, one of them with a NaN amount\<close>
  "incomparable order n ls \<longleftrightarrow>
     (\<exists>r \<in> set (top_ranks order n ls). 1 < length (at_price order r ls) \<and>
       (\<exists>l \<in> set (at_price order r ls). is_nan (lv_amount l)))"

lemma within_cap_crowded:
  "bid.within_cap n ls \<longleftrightarrow> \<not> crowded bid_order n ls"
  "ask.within_cap n ls \<longleftrightarrow> \<not> crowded ask_order n ls"
proof -
  have "(\<forall>r. length (filter (\<lambda>l. order l = r) ls) \<le> n) \<longleftrightarrow> \<not> crowded order n ls" for order
  proof
    assume a: "\<not> crowded order n ls"
    show "\<forall>r. length (filter (\<lambda>l. order l = r) ls) \<le> n"
    proof
      fix r
      show "length (filter (\<lambda>l. order l = r) ls) \<le> n"
      proof (cases "\<exists>l \<in> set ls. order l = r")
        case True
        then show ?thesis using a by (auto simp: crowded_def at_price_def not_less)
      next
        case False
        then have "filter (\<lambda>l. order l = r) ls = []" by (simp add: filter_empty_conv)
        then show ?thesis by simp
      qed
    qed
  qed (auto simp: crowded_def at_price_def not_less)
  then show "bid.within_cap n ls \<longleftrightarrow> \<not> crowded bid_order n ls"
    "ask.within_cap n ls \<longleftrightarrow> \<not> crowded ask_order n ls"
    by (simp_all add: bid.within_cap_def ask.within_cap_def bid.at_rank_def ask.at_rank_def
        key_rank_orders)
qed

lemma sortable_groups:
  "(\<forall>v \<in> set (take n (bid.grouped ls)). amounts.sortable v) \<longleftrightarrow> \<not> incomparable bid_order n ls"
  "(\<forall>v \<in> set (take n (ask.grouped ls)). amounts.sortable v) \<longleftrightarrow> \<not> incomparable ask_order n ls"
  by (auto simp: bid.grouped_def ask.grouped_def take_map amounts.sortable_def amount_ok_def
      incomparable_def top_ranks_def bid.at_rank_def ask.at_rank_def at_price_def key_rank_orders
      not_le)

subsection \<open>The outcome of to\_proto\<close>

definition summary_spec :: "nat \<Rightarrow> combined_summary \<Rightarrow> summary \<Rightarrow> bool" where
  "summary_spec n c sm \<longleftrightarrow>
     side_spec bid_order n (all_bids c) (sm_bids sm) \<and>
     side_spec ask_order n (all_asks c) (sm_asks sm) \<and>
     sm_spread sm = spread_from (first (sm_bids sm)) (first (sm_asks sm)) \<and>
     sm_arrival_time sm = latest_time (co_sources c) 0"

definition too_many_levels :: "nat \<Rightarrow> combined_summary \<Rightarrow> bool" where
  "too_many_levels n c \<longleftrightarrow>
     crowded bid_order n (all_bids c) \<or> crowded ask_order n (all_asks c)"

definition nan_in_group :: "nat \<Rightarrow> combined_summary \<Rightarrow> bool" where
  "nan_in_group n c \<longleftrightarrow>
     incomparable bid_order n (all_bids c) \<or> incomparable ask_order n (all_asks c)"

lemma to_proto_outcome:
  assumes wf: "combined_wf n c" and av: "arrayvec_push_spec av_push"
  shows "if too_many_levels n c then to_proto av_push n c = Inl CapacityExceeded
    else if nan_in_group n c then to_proto av_push n c = Inl UnwrapNone
    else \<exists>sm. to_proto av_push n c = Inr sm \<and> summary_spec n c sm"
proof -
  have M: "if \<not> too_many_levels n c
    then \<exists>bm am. foldP (merge_snapshot (av_push n)) ([], [], 0) (co_sources c) =
        Inr (bm, am, latest_time (co_sources c) 0) \<and>
      bid.represents bm (all_bids c) \<and> ask.represents am (all_asks c)
    else foldP (merge_snapshot (av_push n)) ([], [], 0) (co_sources c) = Inl CapacityExceeded"
    using merge_snapshots [of "co_sources c" n av_push "[]" "[]" "[]" "[]" 0] wf av
    by (simp add: combined_wf_def bid.represents_Nil ask.represents_Nil within_cap_crowded
        crowded_def [of _ _ "[]"] all_bids_def all_asks_def too_many_levels_def split: if_splits)
  show ?thesis
  proof (cases "too_many_levels n c")
    case True
    then show ?thesis using M by (simp add: to_proto_def)
  next
    case False
    then obtain bm am where m:
      "foldP (merge_snapshot (av_push n)) ([], [], 0) (co_sources c) =
        Inr (bm, am, latest_time (co_sources c) 0)"
      "bid.represents bm (all_bids c)" "ask.represents am (all_asks c)"
      using M by auto
    note B = bid_side.collect_represents [OF m(2), of n, unfolded sortable_groups key_rank_orders]
    note A = ask_side.collect_represents [OF m(3), of n, unfolded sortable_groups key_rank_orders]
    show ?thesis
      using False m(1) A B
      by (auto simp: to_proto_def nan_in_group_def summary_spec_def split: if_splits)
  qed
qed

lemma to_proto_panic_iff:
  assumes "combined_wf n c" "arrayvec_push_spec av_push"
  shows "to_proto av_push n c = Inl p \<longleftrightarrow>
    (p = CapacityExceeded \<and> too_many_levels n c) \<or>
    (p = UnwrapNone \<and> \<not> too_many_levels n c \<and> nan_in_group n c)"
  using to_proto_outcome [OF assms] by (auto split: if_splits)

lemma to_proto_ok:
  assumes "combined_wf n c" "arrayvec_push_spec av_push" "to_proto av_push n c = Inr sm"
  shows "summary_spec n c sm"
  using to_proto_outcome [OF assms(1,2)] assms(3) by (auto split: if_splits)

subsection \<open>Consequences of the specification of a side\<close>

lemma top_ranks_simps:
  "length (top_ranks rank n ls) \<le> n" "distinct (top_ranks rank n ls)"
  "set (top_ranks rank n ls) \<subseteq> rank ` set ls"
  using set_take_subset [of n "sorted_list_of_set (rank ` set ls)"]
  by (auto simp: top_ranks_def)

lemma Min_in_top_ranks:
  assumes "ls \<noteq> []" "0 < n"
  shows "Min (rank ` set ls) \<in> set (top_ranks rank n ls)"
proof -
  have "sorted_list_of_set (rank ` set ls) =
      Min (rank ` set ls) # sorted_list_of_set (rank ` set ls - {Min (rank ` set ls)})"
    using assms(1) by (intro sorted_list_of_set_nonempty) simp_all
  then show ?thesis using assms(2) by (cases n) (simp_all add: top_ranks_def)
qed

lemma side_spec_set:
  assumes "side_spec rank n ls out"
  shows "set out = {l \<in> set ls. rank l \<in> set (top_ranks rank n ls)}"
proof -
  have "mset out = mset (filter (\<lambda>l. rank l \<in> set (top_ranks rank n ls)) ls)"
    using assms by (simp only: side_spec_def)
  from mset_eq_setD [OF this] show ?thesis by simp
qed

lemma side_spec_first:
  assumes "side_spec rank n ls out" "0 < n"
  shows "case first out of None \<Rightarrow> ls = []
    | Some l \<Rightarrow> l \<in> set ls \<and> (\<forall>l' \<in> set ls. rank l \<le> rank l')"
proof (cases out)
  case Nil
  have "ls = []"
  proof (rule ccontr)
    assume ne: "ls \<noteq> []"
    have "Min (rank ` set ls) \<in> rank ` set ls" using ne by (intro Min_in) simp_all
    then obtain l where "l \<in> set ls" "rank l = Min (rank ` set ls)" by auto
    then have "l \<in> set out"
      using side_spec_set [OF assms(1)] Min_in_top_ranks [OF ne assms(2), of rank] by simp
    then show False using Nil by simp
  qed
  then show ?thesis using Nil by simp
next
  case (Cons l rest)
  have out: "set out = {l \<in> set ls. rank l \<in> set (top_ranks rank n ls)}"
    by (rule side_spec_set [OF assms(1)])
  then have l: "l \<in> set ls" using Cons by auto
  have least: "rank l \<le> rank x" if "x \<in> set out" for x
    using that assms(1) Cons by (auto simp: side_spec_def)
  have "Min (rank ` set ls) \<in> rank ` set ls" using l by (intro Min_in) auto
  then obtain m where m: "m \<in> set ls" "rank m = Min (rank ` set ls)" by auto
  then have "m \<in> set out"
    using out Min_in_top_ranks [of ls n rank] l assms(2) by fastforce
  then have "rank l \<le> Min (rank ` set ls)" using least m(2) by force
  moreover have "Min (rank ` set ls) \<le> rank l'" if "l' \<in> set ls" for l'
    using that by (intro Min_le) simp_all
  ultimately have "\<forall>l' \<in> set ls. rank l \<le> rank l'" using order_trans by blast
  then show ?thesis using Cons l by simp
qed

lemma side_spec_length:
  assumes "side_spec rank n ls out" "\<And>r. length (at_price rank r ls) \<le> m"
  shows "length out \<le> n * m"
proof -
  let ?rs = "top_ranks rank n ls"
  have "mset out = mset (concat (map (\<lambda>r. at_price rank r ls) ?rs))"
    using assms(1) mset_concat_map_filter [OF top_ranks_simps(2) [of rank n ls], of rank ls]
    by (simp add: side_spec_def at_price_def)
  then have "length out = length (concat (map (\<lambda>r. at_price rank r ls) ?rs))"
    by (rule mset_eq_length)
  also have "\<dots> = (\<Sum>r\<leftarrow>?rs. length (at_price rank r ls))"
    by (simp add: length_concat comp_def)
  also have "\<dots> \<le> (\<Sum>r\<leftarrow>?rs. m)"
    using assms(2) by (intro sum_list_mono)
  also have "\<dots> \<le> n * m"
    using top_ranks_simps(1) [of rank n ls] by (simp add: sum_list_triv)
  finally show ?thesis .
qed

lemma side_spec_distinct_prices:
  assumes "side_spec rank n ls out"
  shows "card (rank ` set out) \<le> n"
proof -
  have "rank ` set out \<subseteq> set (top_ranks rank n ls)"
    using side_spec_set [OF assms] by auto
  then have "card (rank ` set out) \<le> card (set (top_ranks rank n ls))"
    by (intro card_mono) simp_all
  also have "\<dots> \<le> n" using top_ranks_simps(1) card_length le_trans by blast
  finally show ?thesis .
qed

end
