(* ===== verification/Combined_Properties.thy ===== *)
theory Combined_Properties
  imports Combined
begin

section \<open>What the published summary promises\<close>

text \<open>
  The properties of \<open>CombinedSummary::to_proto\<close> and \<open>update_snapshot\<close>: when merging panics and
  when it does not, what each side of the summary holds and in which order, the best prices and
  the spread. \<open>list_push\<close> is a vector push that meets the documentation of arrayvec; the
  witnesses use it, on small books of 100, 101 and 102 with amounts 1 and 2.
\<close>

definition list_push :: av_push where
  "list_push cap xs x = (if length xs < cap then Inr (xs @ [x]) else Inl CapacityExceeded)"

lemma list_push_spec: "arrayvec_push_spec list_push"
  by (simp add: arrayvec_push_spec_def list_push_def)

definition example_snapshot ::
  "nat \<Rightarrow> source_id \<Rightarrow> nano_time \<Rightarrow> (f64 \<times> f64) list \<Rightarrow> (f64 \<times> f64) list \<Rightarrow> contributor_snapshot" where
  "example_snapshot n src t bids asks =
     fold (\<lambda>(p, a) s. push_ask n s p a) asks
       (fold (\<lambda>(p, a) s. push_bid n s p a) bids (snapshot_new n src t))"

definition p100 :: f64 where "p100 = 0x4059000000000000"
definition p101 :: f64 where "p101 = 0x4059400000000000"
definition p102 :: f64 where "p102 = 0x4059800000000000"
definition a1 :: f64 where "a1 = 0x3FF0000000000000"
definition a2 :: f64 where "a2 = 0x4000000000000000"

definition example_book :: "nat \<Rightarrow> combined_summary" where
  "example_book n =
     \<lparr>co_sources =
        [example_snapshot n Bitstamp 5 [(p101, a1), (p100, a1)] [(p102, a1)],
         example_snapshot n Binance 7 [(p101, a2), (p100, a2)] []]\<rparr>"

lemma example_book_wf: "combined_wf 2 (example_book 2)"
  by code_simp

lemma example_book_levels: "\<not> too_many_levels 2 (example_book 2)"
  by code_simp

lemma nan_free_groups:
  "\<forall>l \<in> set (all_bids c @ all_asks c). \<not> is_nan (lv_amount l) \<Longrightarrow> \<not> nan_in_group n c"
  by (auto simp: nan_in_group_def incomparable_def at_price_def)

lemma example_book_groups: "\<not> nan_in_group 2 (example_book 2)"
  by (rule nan_free_groups) code_simp

subsection \<open>Panics\<close>

text \<open>C4: merging either panics or returns a summary whose two sides are exactly the levels of the
  best \<open>n\<close> prices of all sources, best price first and larger amount first within a price, with
  the spread of its first levels and the latest arrival time of the non-empty snapshots. It
  returns whenever no price has more than \<open>n\<close> levels and no amount in a group is a NaN.\<close>

theorem to_proto_correct:
  assumes "combined_wf n c" "arrayvec_push_spec av_push"
    and "\<not> too_many_levels n c" "\<not> nan_in_group n c"
  shows "\<exists>sm. to_proto av_push n c = Inr sm \<and>
    side_spec bid_order n (all_bids c) (sm_bids sm) \<and>
    side_spec ask_order n (all_asks c) (sm_asks sm) \<and>
    sm_spread sm = spread_from (first (sm_bids sm)) (first (sm_asks sm)) \<and>
    sm_arrival_time sm = latest_time (co_sources c) 0"
  using to_proto_outcome [OF assms(1,2)] assms(3,4) by (simp add: summary_spec_def)

theorem to_proto_correct_witness:
  "\<exists>sm. to_proto list_push 2 (example_book 2) = Inr sm \<and>
    side_spec bid_order 2 (all_bids (example_book 2)) (sm_bids sm) \<and>
    side_spec ask_order 2 (all_asks (example_book 2)) (sm_asks sm) \<and>
    sm_spread sm = spread_from (first (sm_bids sm)) (first (sm_asks sm)) \<and>
    sm_arrival_time sm = latest_time (co_sources (example_book 2)) 0"
  by (rule to_proto_correct [OF example_book_wf list_push_spec example_book_levels
        example_book_groups])

text \<open>C11: the panics of \<open>to_proto\<close> are exactly these: a full vector when more than \<open>n\<close> levels
  share a price on one side, and a failed comparison when a NaN amount is in a published group of
  two or more levels. No comparison of prices panics and no array is read out of range.\<close>

theorem to_proto_panics_exactly:
  assumes "combined_wf n c" "arrayvec_push_spec av_push"
  shows "to_proto av_push n c = Inl p \<longleftrightarrow>
    (p = CapacityExceeded \<and> too_many_levels n c) \<or>
    (p = UnwrapNone \<and> \<not> too_many_levels n c \<and> nan_in_group n c)"
  by (rule to_proto_panic_iff [OF assms])

theorem to_proto_panics_exactly_witness:
  "to_proto list_push 2 (example_book 2) \<noteq> Inl IndexOutOfBounds"
  using to_proto_panics_exactly [OF example_book_wf list_push_spec, of IndexOutOfBounds] by simp

text \<open>A book whose snapshots quote each price at most once per side and whose amounts are numbers.\<close>

definition distinct_prices :: "contributor_snapshot \<Rightarrow> bool" where
  "distinct_prices s \<longleftrightarrow>
     distinct (map (\<lambda>l. f64_val (key_price (pl_price l))) (snapshot_bids s)) \<and>
     distinct (map (\<lambda>l. f64_val (key_price (pl_price l))) (snapshot_asks s))"

definition amounts_are_numbers :: "contributor_snapshot \<Rightarrow> bool" where
  "amounts_are_numbers s \<longleftrightarrow>
     (\<forall>l \<in> set (snapshot_bids s @ snapshot_asks s). \<not> is_nan (pl_amount l))"

lemma length_filter_distinct: "distinct (map f xs) \<Longrightarrow> length (filter (\<lambda>x. f x = r) xs) \<le> 1"
proof (induction xs)
  case Nil
  then show ?case by simp
next
  case (Cons x xs)
  show ?case
  proof (cases "f x = r")
    case True
    have "filter (\<lambda>y. f y = f x) xs = []"
      using Cons.prems by (simp add: filter_empty_conv) (metis image_eqI)
    then show ?thesis using True by auto
  qed (use Cons in simp)
qed

lemma at_price_sources:
  assumes "\<forall>s \<in> set ss. distinct (map (\<lambda>l. f (pl_price l)) (levels_list (side s)))"
    and "\<And>l. order l = f (lv_price l)"
  shows "length (at_price order r (side_levels side ss)) \<le> length ss"
  using assms(1)
proof (induction ss)
  case Nil
  then show ?case by (simp add: at_price_def)
next
  case (Cons s ss)
  have "length (filter (\<lambda>l. f (pl_price l) = r) (levels_list (side s))) \<le> 1"
    using Cons.prems by (intro length_filter_distinct) simp
  then show ?case
    using Cons by (simp add: at_price_def filter_map comp_def assms(2))
qed

lemma distinct_at_price:
  assumes "\<forall>s \<in> set ss. distinct_prices s"
  shows "length (at_price bid_order r (side_levels cs_bids ss)) \<le> length ss"
    and "length (at_price ask_order r (side_levels cs_asks ss)) \<le> length ss"
proof -
  have "distinct (map (\<lambda>l. - f64_val (key_price (pl_price l))) xs)"
    if "distinct (map (\<lambda>l. f64_val (key_price (pl_price l))) xs)" for xs
    using that by (simp add: distinct_map inj_on_def)
  then show "length (at_price bid_order r (side_levels cs_bids ss)) \<le> length ss"
    using assms by (intro at_price_sources [where f = "\<lambda>p. - f64_val (key_price p)"])
      (auto simp: distinct_prices_def bid_order_def)
  show "length (at_price ask_order r (side_levels cs_asks ss)) \<le> length ss"
    using assms by (intro at_price_sources [where f = "\<lambda>p. f64_val (key_price p)"])
      (auto simp: distinct_prices_def ask_order_def)
qed

lemma distinct_not_crowded:
  assumes "combined_wf n c" "NUM_SOURCES \<le> n" "\<forall>s \<in> set (co_sources c). distinct_prices s"
  shows "\<not> too_many_levels n c"
proof -
  have "length (co_sources c) \<le> n" using assms(1,2) by (simp add: combined_wf_def)
  then have "length (at_price bid_order r (all_bids c)) \<le> n"
    "length (at_price ask_order r (all_asks c)) \<le> n" for r
    using distinct_at_price [OF assms(3), of r] unfolding all_bids_def all_asks_def by linarith+
  then show ?thesis by (simp add: too_many_levels_def crowded_def not_less)
qed

lemma numbers_no_nan_group:
  assumes "\<forall>s \<in> set (co_sources c). amounts_are_numbers s"
  shows "\<not> nan_in_group n c"
  using assms
  by (intro nan_free_groups)
    (auto simp: all_bids_def all_asks_def side_levels_def amounts_are_numbers_def level_proto_def)

text \<open>C22: with at least as many levels as sources, a book in which no source repeats a price on a
  side and no amount is a NaN is always merged without a panic, and each side has at most \<open>n\<close>
  distinct prices and at most \<open>n\<close> levels for each source.\<close>

theorem to_proto_total_on_proper_books:
  assumes "combined_wf n c" "arrayvec_push_spec av_push" "NUM_SOURCES \<le> n"
    and "\<forall>s \<in> set (co_sources c). distinct_prices s \<and> amounts_are_numbers s"
  shows "\<exists>sm. to_proto av_push n c = Inr sm \<and>
    card (bid_order ` set (sm_bids sm)) \<le> n \<and> length (sm_bids sm) \<le> n * NUM_SOURCES \<and>
    card (ask_order ` set (sm_asks sm)) \<le> n \<and> length (sm_asks sm) \<le> n * NUM_SOURCES"
proof -
  have d: "\<forall>s \<in> set (co_sources c). distinct_prices s" using assms(4) by simp
  have len: "length (co_sources c) = NUM_SOURCES" using assms(1) by (simp add: combined_wf_def)
  obtain sm where sm: "to_proto av_push n c = Inr sm" "summary_spec n c sm"
    using to_proto_outcome [OF assms(1,2)] distinct_not_crowded [OF assms(1,3) d]
      numbers_no_nan_group [of c n] assms(4) by auto
  then show ?thesis
    using distinct_at_price [OF d] side_spec_length [of bid_order n "all_bids c" "sm_bids sm" NUM_SOURCES]
      side_spec_length [of ask_order n "all_asks c" "sm_asks sm" NUM_SOURCES]
      side_spec_distinct_prices [of bid_order n "all_bids c" "sm_bids sm"]
      side_spec_distinct_prices [of ask_order n "all_asks c" "sm_asks sm"]
    by (auto simp: summary_spec_def all_bids_def all_asks_def len)
qed

theorem to_proto_total_on_proper_books_witness:
  "\<exists>sm. to_proto list_push 2 (example_book 2) = Inr sm \<and>
    card (bid_order ` set (sm_bids sm)) \<le> 2 \<and> length (sm_bids sm) \<le> 2 * NUM_SOURCES \<and>
    card (ask_order ` set (sm_asks sm)) \<le> 2 \<and> length (sm_asks sm) \<le> 2 * NUM_SOURCES"
proof (rule to_proto_total_on_proper_books [OF example_book_wf list_push_spec])
  show "NUM_SOURCES \<le> 2" by (simp add: NUM_SOURCES_def)
  show "\<forall>s \<in> set (co_sources (example_book 2)). distinct_prices s \<and> amounts_are_numbers s"
    by code_simp
qed

text \<open>With a depth of one, two sources whose best bids are at the same price make the merge
  panic: the vector of a price is sized by the depth, not by the number of sources.\<close>

theorem depth_one_panics_on_equal_bids:
  assumes "combined_wf 1 c" "arrayvec_push_spec av_push"
    and "snapshot_bids (slot c Bitstamp) = [x]" "snapshot_bids (slot c Binance) = [y]"
    and "f64_eq (pl_price x) (pl_price y)"
  shows "to_proto av_push 1 c = Inl CapacityExceeded"
proof -
  have "f64_val (pl_price x) = f64_val (pl_price y)" "\<not> is_nan (pl_price x)" "\<not> is_nan (pl_price y)"
    using assms(5) by (simp_all add: f64_eq_iff)
  then have "crowded bid_order 1 (all_bids c)"
    using combined_sources [OF assms(1)] assms(3,4)
    by (simp add: all_bids_def crowded_def at_price_def bid_order_def key_price_def)
  then show ?thesis
    using to_proto_outcome [OF assms(1,2)] by (simp add: too_many_levels_def)
qed

definition equal_bids_book :: combined_summary where
  "equal_bids_book =
     \<lparr>co_sources =
        [example_snapshot 1 Bitstamp 5 [(p100, a1)] [],
         example_snapshot 1 Binance 7 [(p100, a2)] []]\<rparr>"

theorem depth_one_panics_on_equal_bids_witness:
  "to_proto list_push 1 equal_bids_book = Inl CapacityExceeded"
  by (rule depth_one_panics_on_equal_bids [OF _ list_push_spec,
        where x = "\<lparr>pl_price = p100, pl_amount = a1\<rparr>" and y = "\<lparr>pl_price = p100, pl_amount = a2\<rparr>"];
      code_simp)

subsection \<open>Best prices and the spread\<close>

text \<open>C12: the first published bid has the highest bid price of all sources and the first published
  ask the lowest ask price (a NaN price counting as zero); a side is published empty only when no
  source has a level on it.\<close>

theorem summary_best_prices:
  assumes "combined_wf n c" "arrayvec_push_spec av_push" "0 < n"
    and "to_proto av_push n c = Inr sm"
  shows "(case first (sm_bids sm) of None \<Rightarrow> all_bids c = []
      | Some b \<Rightarrow> b \<in> set (all_bids c) \<and>
          (\<forall>l \<in> set (all_bids c). f64_val (key_price (lv_price l)) \<le> f64_val (key_price (lv_price b)))) \<and>
    (case first (sm_asks sm) of None \<Rightarrow> all_asks c = []
      | Some a \<Rightarrow> a \<in> set (all_asks c) \<and>
          (\<forall>l \<in> set (all_asks c). f64_val (key_price (lv_price a)) \<le> f64_val (key_price (lv_price l))))"
proof -
  have "summary_spec n c sm" by (rule to_proto_ok [OF assms(1,2,4)])
  then show ?thesis
    using side_spec_first [of bid_order n "all_bids c" "sm_bids sm"]
      side_spec_first [of ask_order n "all_asks c" "sm_asks sm"] assms(3)
    by (simp add: summary_spec_def bid_order_def ask_order_def split: option.splits)
qed

definition example_summary :: summary where
  "example_summary =
     \<lparr>sm_spread = a1,
      sm_bids = [\<lparr>lv_exchange = ''binance'', lv_price = p101, lv_amount = a2\<rparr>,
                 \<lparr>lv_exchange = ''bitstamp'', lv_price = p101, lv_amount = a1\<rparr>,
                 \<lparr>lv_exchange = ''binance'', lv_price = p100, lv_amount = a2\<rparr>,
                 \<lparr>lv_exchange = ''bitstamp'', lv_price = p100, lv_amount = a1\<rparr>],
      sm_asks = [\<lparr>lv_exchange = ''bitstamp'', lv_price = p102, lv_amount = a1\<rparr>],
      sm_arrival_time = 7\<rparr>"

lemma prices_minus: "f64_minus p102 p101 = a1"
  by (rule f64_minus_exact)
    (simp_all add: f64_finite_def f64_compute f64_val_def f64_mag_def pattern_mag_def
      p101_def p102_def a1_def)

definition example_bid_map :: "bid_keyed_price price_map" where
  "example_bid_map =
     [(BidKeyedPrice p101,
        [\<lparr>lv_exchange = ''bitstamp'', lv_price = p101, lv_amount = a1\<rparr>,
         \<lparr>lv_exchange = ''binance'', lv_price = p101, lv_amount = a2\<rparr>]),
      (BidKeyedPrice p100,
        [\<lparr>lv_exchange = ''bitstamp'', lv_price = p100, lv_amount = a1\<rparr>,
         \<lparr>lv_exchange = ''binance'', lv_price = p100, lv_amount = a2\<rparr>])]"

definition example_ask_map :: "ask_keyed_price price_map" where
  "example_ask_map =
     [(AskKeyedPrice p102, [\<lparr>lv_exchange = ''bitstamp'', lv_price = p102, lv_amount = a1\<rparr>])]"

lemma example_merged:
  "foldP (merge_snapshot (list_push 2)) ([], [], 0) (co_sources (example_book 2)) =
    Inr (example_bid_map, example_ask_map, 7)"
  by code_simp

lemma example_collected:
  "collect_side (sort_unstable_by amount_cmp) 2 example_bid_map = Inr (sm_bids example_summary)"
  "collect_side (sort_unstable_by amount_cmp) 2 example_ask_map = Inr (sm_asks example_summary)"
  by code_simp+

lemma example_to_proto: "to_proto list_push 2 (example_book 2) = Inr example_summary"
proof -
  have "f64_gt p102 f64_zero" "f64_gt p101 f64_zero"
    by (simp_all add: f64_compute p101_def p102_def)
  then show ?thesis
    by (simp add: to_proto_def example_merged example_collected)
      (simp add: example_summary_def prices_minus)
qed

theorem summary_best_prices_witness:
  "\<lparr>lv_exchange = ''binance'', lv_price = p101, lv_amount = a2\<rparr> \<in> set (all_bids (example_book 2)) \<and>
   \<lparr>lv_exchange = ''bitstamp'', lv_price = p102, lv_amount = a1\<rparr> \<in> set (all_asks (example_book 2))"
  using summary_best_prices [OF example_book_wf list_push_spec _ example_to_proto]
  by (simp add: example_summary_def)

text \<open>The published spread is the difference of the first ask and the first bid when both prices
  are positive, and a NaN otherwise. For finite positive prices it is a number, negative exactly
  when the book is crossed, zero exactly when the two prices are equal, and it is exact when the
  difference is a double.\<close>

theorem spread_correct:
  assumes "f64_gt (lv_price b) f64_zero" "f64_gt (lv_price a) f64_zero"
    and "f64_finite (lv_price b)" "f64_finite (lv_price a)"
  shows "\<not> is_nan (spread_from (Some b) (Some a)) \<and>
    (f64_val (spread_from (Some b) (Some a)) < 0 \<longleftrightarrow> f64_gt (lv_price b) (lv_price a)) \<and>
    (f64_val (spread_from (Some b) (Some a)) = 0 \<longleftrightarrow> f64_eq (lv_price b) (lv_price a)) \<and>
    (\<forall>d. f64_finite d \<and> f64_val d = f64_val (lv_price a) - f64_val (lv_price b) \<and> f64_val d \<noteq> 0 \<longrightarrow>
       spread_from (Some b) (Some a) = d)"
  using assms f64_minus_not_nan [OF assms(4,3)] f64_minus_sign [OF assms(4,3)]
    f64_minus_exact [OF assms(4,3)]
  by (auto simp: f64_gt_iff f64_eq_iff)

theorem spread_correct_witness:
  "spread_from (Some \<lparr>lv_exchange = ''binance'', lv_price = p101, lv_amount = a2\<rparr>)
     (Some \<lparr>lv_exchange = ''bitstamp'', lv_price = p102, lv_amount = a1\<rparr>) = a1"
proof -
  have "f64_gt p101 f64_zero" "f64_gt p102 f64_zero" "f64_finite p101" "f64_finite p102" "f64_finite a1"
    "f64_val a1 = f64_val p102 - f64_val p101" "f64_val a1 \<noteq> 0"
    by (simp_all add: f64_compute f64_finite_def p101_def p102_def a1_def f64_val_def f64_mag_def
        pattern_mag_def)
  then show ?thesis
    using spread_correct [of "\<lparr>lv_exchange = ''binance'', lv_price = p101, lv_amount = a2\<rparr>"
        "\<lparr>lv_exchange = ''bitstamp'', lv_price = p102, lv_amount = a1\<rparr>"] by simp
qed

text \<open>Without a positive bid and a positive ask the spread is a NaN.\<close>

theorem spread_undefined:
  assumes "b = None \<or> a = None \<or> (\<exists>x. b = Some x \<and> \<not> f64_gt (lv_price x) f64_zero) \<or>
    (\<exists>x. a = Some x \<and> \<not> f64_gt (lv_price x) f64_zero)"
  shows "is_nan (spread_from b a)"
  using assms by (cases b; cases a) auto

theorem spread_undefined_witness:
  "is_nan (spread_from (Some \<lparr>lv_exchange = ''binance'', lv_price = f64_zero, lv_amount = a2\<rparr>)
     (Some \<lparr>lv_exchange = ''bitstamp'', lv_price = p102, lv_amount = a1\<rparr>))"
  by (rule spread_undefined) (simp add: f64_compute)

subsection \<open>Depth, time and slots\<close>

text \<open>The depth limits prices, not levels: there are books of depth two whose summary has four
  bids, so a summary of depth ten can hold more than ten levels on a side.\<close>

theorem more_levels_than_depth:
  "\<exists>c sm. combined_wf 2 c \<and> to_proto list_push 2 c = Inr sm \<and> length (sm_bids sm) = 4"
  using example_book_wf example_to_proto by (force simp: example_summary_def)

lemma Max_insert_max:
  "finite A \<Longrightarrow> Max (insert (max t x) A) = Max (insert t (insert x A))" for t x :: "'a :: linorder"
  by (cases "A = {}") (simp_all add: max.assoc)

lemma latest_time_max:
  "latest_time ss t = Max (insert t (cs_arrival_time ` {s \<in> set ss. \<not> snapshot_is_empty s}))"
proof (induction ss arbitrary: t)
  case Nil
  then show ?case by simp
next
  case (Cons s ss)
  have "cs_arrival_time ` {x \<in> set (s # ss). \<not> snapshot_is_empty x} =
      (if snapshot_is_empty s then {} else {cs_arrival_time s}) \<union>
      cs_arrival_time ` {s \<in> set ss. \<not> snapshot_is_empty s}"
    by auto
  then show ?case
    using Cons [of "if snapshot_is_empty s then t else max t (cs_arrival_time s)"]
    by (simp add: Max_insert_max del: Max_insert)
qed

text \<open>The arrival time of the summary is the latest arrival time among the snapshots that have a
  level, and zero when none has; an empty snapshot does not count.\<close>

theorem summary_arrival_time:
  assumes "combined_wf n c" "arrayvec_push_spec av_push" "to_proto av_push n c = Inr sm"
  shows "sm_arrival_time sm =
    Max (insert 0 (cs_arrival_time `
      {s. (s = slot c Bitstamp \<or> s = slot c Binance) \<and>
        (snapshot_bids s \<noteq> [] \<or> snapshot_asks s \<noteq> [])}))"
proof -
  have "set (co_sources c) = {slot c Bitstamp, slot c Binance}"
    using combined_sources [OF assms(1)] by simp
  then have "{s \<in> set (co_sources c). \<not> snapshot_is_empty s} =
      {s. (s = slot c Bitstamp \<or> s = slot c Binance) \<and>
        (snapshot_bids s \<noteq> [] \<or> snapshot_asks s \<noteq> [])}"
    using assms(1) snapshot_is_empty_iff by (auto simp: combined_wf_def)
  then show ?thesis
    using to_proto_ok [OF assms] by (simp add: summary_spec_def latest_time_max)
qed

theorem summary_arrival_time_witness:
  "7 = Max (insert 0 (cs_arrival_time `
      {s. (s = slot (example_book 2) Bitstamp \<or> s = slot (example_book 2) Binance) \<and>
        (snapshot_bids s \<noteq> [] \<or> snapshot_asks s \<noteq> [])}))"
  using summary_arrival_time [OF example_book_wf list_push_spec example_to_proto]
  by (simp add: example_summary_def)

text \<open>Storing a snapshot never panics, replaces the snapshot of its own source and no other,
  and keeps the two arrays well formed.\<close>

theorem update_snapshot_slot:
  assumes "combined_wf n c" "snapshot_wf n s"
  shows "\<exists>c'. update_snapshot c s = Inr c' \<and> combined_wf n c' \<and>
    slot c' (cs_source_id s) = s \<and> (\<forall>src. src \<noteq> cs_source_id s \<longrightarrow> slot c' src = slot c src)"
  using update_snapshot_wf [OF assms] by auto

theorem update_snapshot_slot_witness:
  "\<exists>c'. update_snapshot (combined_new 2) (snapshot_new 2 Binance 9) = Inr c' \<and> combined_wf 2 c' \<and>
    slot c' Binance = snapshot_new 2 Binance 9"
  using update_snapshot_slot [OF combined_wf_new snapshot_new_simps(1), of 2 Binance 9] by auto

text \<open>The summary of a fresh combined summary is empty, with a NaN spread and time zero.\<close>

theorem to_proto_of_new:
  "to_proto av_push n (combined_new n) =
    Inr \<lparr>sm_spread = f64_nan, sm_bids = [], sm_asks = [], sm_arrival_time = 0\<rparr>"
  by (simp add: to_proto_def combined_new_def NUM_SOURCES_def numeral_2_eq_2 snapshot_is_empty_def
      levels_depth_def snapshot_default_def levels_default_def collect_side_def)

text \<open>C39: on the keys their constructors make, both price orders are total orders that never panic:
  asks ascend by price, bids descend, equal keys are equal prices, and a NaN is ordered as zero.\<close>

theorem keyed_prices_total_order:
  "ask_key_cmp (ask_key_new p) (ask_key_new q) =
     Inr (int_cmp (f64_val (key_price p)) (f64_val (key_price q))) \<and>
   bid_key_cmp (bid_key_new p) (bid_key_new q) =
     Inr (int_cmp (f64_val (key_price q)) (f64_val (key_price p))) \<and>
   (ask_key_eq (ask_key_new p) (ask_key_new q) \<longleftrightarrow>
     ask_key_cmp (ask_key_new p) (ask_key_new q) = Inr Equal) \<and>
   (bid_key_eq (bid_key_new p) (bid_key_new q) \<longleftrightarrow>
     bid_key_cmp (bid_key_new p) (bid_key_new q) = Inr Equal)"
  using ask.cmp_rank [OF ask.valid_new ask.valid_new, of p q]
    bid.cmp_rank [OF bid.valid_new bid.valid_new, of p q]
    ask.eq_rank [OF ask.valid_new ask.valid_new, of p q]
    bid.eq_rank [OF bid.valid_new bid.valid_new, of p q]
  by (auto simp: ask_key_new_def bid_key_new_def key_price_def int_cmp_def)

end
