(* ===== verification/F64_Decimal.thy ===== *)
theory F64_Decimal
  imports F64
begin

section \<open>Parsing an f64 (\<open>str::parse::<f64>\<close>)\<close>

text \<open>
  The grammar of the standard library: an optional sign, then \<open>inf\<close>, \<open>infinity\<close> or
  \<open>nan\<close> in any case, or a decimal number with an optional fraction and an optional exponent,
  with at least one digit. The value is the double nearest to the decimal, ties to even.
\<close>

datatype parse_float_error = FloatEmpty | FloatInvalid

definition is_digit :: "char \<Rightarrow> bool" where
  "is_digit c \<longleftrightarrow> 48 \<le> (of_char c :: nat) \<and> (of_char c :: nat) \<le> 57"

definition digits_val :: "string \<Rightarrow> nat" where
  "digits_val ds = foldl (\<lambda>n c. 10 * n + (of_char c - 48)) 0 ds"

definition parse_exponent :: "string \<Rightarrow> int option" where
  "parse_exponent s =
     (case s of
        [] \<Rightarrow> Some 0
      | c # r \<Rightarrow>
          if ascii_lower c \<noteq> CHR ''e'' then None
          else (let neg = (r \<noteq> [] \<and> hd r = CHR ''-'');
                    ds = (if r \<noteq> [] \<and> hd r \<in> {CHR ''-'', CHR ''+''} then tl r else r)
                in if ds = [] \<or> \<not> list_all is_digit ds then None
                   else Some (if neg then - int (digits_val ds) else int (digits_val ds))))"

text \<open>A decimal is its digits as a number and the power of ten they are multiplied by.\<close>

definition parse_decimal :: "string \<Rightarrow> (nat \<times> int) option" where
  "parse_decimal s =
     (let i = takeWhile is_digit s;
          r = dropWhile is_digit s;
          point = (r \<noteq> [] \<and> hd r = CHR ''.'');
          f = (if point then takeWhile is_digit (tl r) else []);
          r' = (if point then dropWhile is_digit (tl r) else r)
      in if i = [] \<and> f = [] then None
         else (case parse_exponent r' of
                 None \<Rightarrow> None
               | Some e \<Rightarrow> Some (digits_val (i @ f), e - int (length f))))"

definition decimal_pattern :: "nat \<Rightarrow> int \<Rightarrow> nat" where
  "decimal_pattern m e =
     (if 0 \<le> e then round_pattern (m * 10 ^ nat e * 2 ^ 1074) 1
      else round_pattern (m * 2 ^ 1074) (10 ^ nat (- e)))"

definition f64_from_str :: "string \<Rightarrow> parse_float_error + f64" where
  "f64_from_str s =
     (if s = [] then Inl FloatEmpty
      else (let neg = (hd s = CHR ''-'');
                r = (if hd s \<in> {CHR ''-'', CHR ''+''} then tl s else s);
                l = map ascii_lower r
            in if l = ''inf'' \<or> l = ''infinity'' then Inr (f64_make neg (2047 * 2 ^ 52))
               else if l = ''nan'' then Inr (f64_make neg 0x7FF8000000000000)
               else (case parse_decimal r of
                       None \<Rightarrow> Inl FloatInvalid
                     | Some (m, e) \<Rightarrow> Inr (f64_make neg (decimal_pattern m e)))))"

subsection \<open>Laws\<close>

lemma decimal_pattern_le: "decimal_pattern m e \<le> 2047 * 2 ^ 52"
  using round_pattern_le by (simp add: decimal_pattern_def)

lemma f64_from_str_number:
  assumes "f64_from_str s = Inr x" "is_nan x"
  shows "s = c # r \<Longrightarrow>
    map ascii_lower (if c \<in> {CHR ''-'', CHR ''+''} then r else c # r) = ''nan''"
  using assms f64_make_not_nan [OF decimal_pattern_le] f64_make_not_nan [of "2047 * 2 ^ 52"]
  by (auto simp: f64_from_str_def Let_def split: if_splits option.splits prod.splits)

lemma f64_from_str_empty [simp]: "f64_from_str [] = Inl FloatEmpty"
  by (simp add: f64_from_str_def)

end
