(* ===== verification/Exchange_Parsers.thy ===== *)
theory Exchange_Parsers
  imports Snapshots F64_Decimal
begin

section \<open>Parsing exchange messages (sources/binance.rs, sources/bitstamp.rs)\<close>

text \<open>
  The two parsers turn the text of a message into a snapshot. JSON values belong to the crate
  serde\_json: their type is a parameter \<open>'j\<close>, and the operations the code calls on them are
  the fields of \<open>serde_json\<close>. \<open>at_idx\<close> and \<open>at_key\<close> are the indexing operators.
\<close>

record 'j serde_json =
  js_from_str :: "string \<Rightarrow> string + 'j"
  js_get :: "'j \<Rightarrow> string \<Rightarrow> 'j option"
  js_as_array :: "'j \<Rightarrow> 'j list option"
  js_as_str :: "'j \<Rightarrow> string option"
  js_at_idx :: "'j \<Rightarrow> nat \<Rightarrow> 'j"
  js_at_key :: "'j \<Rightarrow> string \<Rightarrow> 'j"

text \<open>The errors that end up in the \<open>anyhow::Error\<close> of a source.\<close>

datatype feed_error =
    JsonError string
  | ParseFloat parse_float_error
  | ConnectError string
  | SendError string
  | WebSocketError string
  | WebSocketDisconnected
  | WebSocketPingError string

definition js_parse :: "'j serde_json \<Rightarrow> string \<Rightarrow> panic + (feed_error + 'j)" where
  "js_parse S txt = Inr (case js_from_str S txt of Inl m \<Rightarrow> Inl (JsonError m) | Inr j \<Rightarrow> Inr j)"

definition parse_f64 :: "string \<Rightarrow> panic + (feed_error + f64)" where
  "parse_f64 s = Inr (case f64_from_str s of Inl e \<Rightarrow> Inl (ParseFloat e) | Inr x \<Rightarrow> Inr x)"

fun unwrap :: "'a option \<Rightarrow> panic + (feed_error + 'a)" where
  "unwrap None = Inl UnwrapNone"
| "unwrap (Some a) = okP a"

subsection \<open>Binance\<close>

text \<open>One \<open>[price, quantity]\<close> entry of a side: both must be JSON strings, or the task panics.\<close>

definition binance_entry :: "'j serde_json \<Rightarrow> 'j \<Rightarrow> panic + (feed_error + (f64 \<times> f64) option)" where
  "binance_entry S entry =
     tryP (unwrap (js_as_str S (js_at_idx S entry 0))) (\<lambda>price_s.
     tryP (parse_f64 price_s) (\<lambda>price.
     tryP (unwrap (js_as_str S (js_at_idx S entry 1))) (\<lambda>qty_s.
     tryP (parse_f64 qty_s) (\<lambda>qty.
       okP (Some (price, qty))))))"

text \<open>The loop over one side: \<open>entries.iter().take(N)\<close>, pushing the levels with a positive amount.\<close>

definition load_levels ::
  "('j \<Rightarrow> panic + (feed_error + (f64 \<times> f64) option)) \<Rightarrow>
    (nat \<Rightarrow> contributor_snapshot \<Rightarrow> f64 \<Rightarrow> f64 \<Rightarrow> contributor_snapshot) \<Rightarrow> nat \<Rightarrow>
    contributor_snapshot \<Rightarrow> 'j list \<Rightarrow> panic + (feed_error + contributor_snapshot)" where
  "load_levels read_entry push n snap entries =
     tryfold (\<lambda>snap entry.
       tryP (read_entry entry) (\<lambda>level.
         case level of
           None \<Rightarrow> okP snap
         | Some (price, qty) \<Rightarrow>
             if f64_gt qty f64_zero then okP (push n snap price qty) else okP snap))
       snap (take n entries)"

definition binance_parse_orderbook_update ::
  "'j serde_json \<Rightarrow> nat \<Rightarrow> string \<Rightarrow> nano_time \<Rightarrow> panic + (feed_error + contributor_snapshot)" where
  "binance_parse_orderbook_update S n payload arrival_time =
     tryP (js_parse S payload) (\<lambda>json.
       let snap = snapshot_new n Binance arrival_time
       in tryP (case Option.bind (js_get S json ''bids'') (js_as_array S) of
                  None \<Rightarrow> okP snap
                | Some bids \<Rightarrow> load_levels (binance_entry S) push_bid n snap bids) (\<lambda>snap.
          case Option.bind (js_get S json ''asks'') (js_as_array S) of
            None \<Rightarrow> okP snap
          | Some asks \<Rightarrow> load_levels (binance_entry S) push_ask n snap asks))"

subsection \<open>Bitstamp\<close>

text \<open>One entry: skipped unless both parts are JSON strings.\<close>

definition bitstamp_entry :: "'j serde_json \<Rightarrow> 'j \<Rightarrow> panic + (feed_error + (f64 \<times> f64) option)" where
  "bitstamp_entry S entry =
     (case (js_as_str S (js_at_idx S entry 0), js_as_str S (js_at_idx S entry 1)) of
        (Some price_s, Some qty_s) \<Rightarrow>
          tryP (parse_f64 price_s) (\<lambda>price.
          tryP (parse_f64 qty_s) (\<lambda>qty.
            okP (Some (price, qty))))
      | _ \<Rightarrow> okP None)"

definition unwrap_or :: "'a option \<Rightarrow> 'a \<Rightarrow> 'a" where
  "unwrap_or x d = (case x of None \<Rightarrow> d | Some a \<Rightarrow> a)"

definition parse_bitstamp_update ::
  "'j serde_json \<Rightarrow> nat \<Rightarrow> string \<Rightarrow> string \<Rightarrow> nano_time \<Rightarrow>
    panic + (feed_error + contributor_snapshot option)" where
  "parse_bitstamp_update S n txt subscribed_channel arrival_time =
     tryP (js_parse S txt) (\<lambda>vp.
       let event = unwrap_or (Option.bind (js_get S vp ''event'') (js_as_str S)) ''''
       in if event \<noteq> ''data'' then okP None
          else
            let data = js_at_key S vp ''data'';
                channel = unwrap_or (js_as_str S (js_at_key S vp ''channel'')) ''''
            in if channel \<noteq> subscribed_channel then okP None
               else
                 let bids = unwrap_or (js_as_array S (js_at_key S data ''bids'')) [];
                     asks = unwrap_or (js_as_array S (js_at_key S data ''asks'')) [];
                     snap = snapshot_new n Bitstamp arrival_time
                 in tryP (load_levels (bitstamp_entry S) push_bid n snap bids) (\<lambda>snap.
                    tryP (load_levels (bitstamp_entry S) push_ask n snap asks) (\<lambda>snap.
                      okP (Some snap))))"

subsection \<open>Loading a side\<close>

abbreviation level_of :: "f64 \<times> f64 \<Rightarrow> price_level" where
  "level_of pq \<equiv> \<lparr>pl_price = fst pq, pl_amount = snd pq\<rparr>"

text \<open>The levels a list of entries denotes: the readable ones with a positive amount.\<close>

fun entry_levels ::
  "('j \<Rightarrow> panic + (feed_error + (f64 \<times> f64) option)) \<Rightarrow> 'j list \<Rightarrow> price_level list" where
  "entry_levels read_entry [] = []"
| "entry_levels read_entry (e # es) =
     (case read_entry e of
        Inr (Inr (Some (p, q))) \<Rightarrow> if f64_gt q f64_zero then [level_of (p, q)] else []
      | _ \<Rightarrow> []) @ entry_levels read_entry es"

text \<open>Pushing on one side of a snapshot, as the two push operations do.\<close>

locale side_push =
  fixes push :: "nat \<Rightarrow> contributor_snapshot \<Rightarrow> f64 \<Rightarrow> f64 \<Rightarrow> contributor_snapshot"
    and this_side other_side :: "contributor_snapshot \<Rightarrow> contributor_levels"
  assumes push_this: "this_side (push n s p q) = levels_push n (this_side s) (level_of (p, q))"
    and push_other: "other_side (push n s p q) = other_side s"
    and push_meta: "cs_source_id (push n s p q) = cs_source_id s"
      "cs_arrival_time (push n s p q) = cs_arrival_time s"
begin

lemma load_levels_ok:
  assumes "load_levels read_entry push n s es = okP s'" "levels_wf n (this_side s)"
  shows "levels_wf n (this_side s') \<and> other_side s' = other_side s \<and>
    cs_source_id s' = cs_source_id s \<and> cs_arrival_time s' = cs_arrival_time s \<and>
    levels_list (this_side s') =
      take n (levels_list (this_side s) @ entry_levels read_entry (take n es)) \<and>
    (\<forall>e \<in> set (take n es). \<exists>l. read_entry e = okP l)"
proof -
  have "levels_wf n (this_side s') \<and> other_side s' = other_side s \<and>
      cs_source_id s' = cs_source_id s \<and> cs_arrival_time s' = cs_arrival_time s \<and>
      levels_list (this_side s') = take n (levels_list (this_side s) @ entry_levels read_entry xs) \<and>
      (\<forall>e \<in> set xs. \<exists>l. read_entry e = okP l)"
    if "tryfold (\<lambda>snap entry. tryP (read_entry entry) (\<lambda>level.
         case level of None \<Rightarrow> okP snap
         | Some (price, qty) \<Rightarrow>
             if f64_gt qty f64_zero then okP (push n snap price qty) else okP snap)) s xs = okP s'"
      for xs
    using that assms(2)
  proof (induction xs arbitrary: s)
    case Nil
    then show ?case using levels.contents_bound [of n "this_side s"] by simp
  next
    case (Cons e xs)
    from Cons.prems(1) obtain l where l: "read_entry e = okP l"
      by (auto simp: tryP_eq_ok)
    consider (skip) "l = None \<or> (\<exists>p q. l = Some (p, q) \<and> \<not> f64_gt q f64_zero)"
      | (push) p q where "l = Some (p, q)" "f64_gt q f64_zero"
      by (cases l) auto
    then show ?case
    proof cases
      case skip
      then show ?thesis using Cons.IH [of s] Cons.prems l by auto
    next
      case push
      have wf: "levels_wf n (this_side (push n s p q))"
        using Cons.prems(2) by (simp add: push_this levels_wf_push)
      show ?thesis
        using Cons.IH [OF _ wf] Cons.prems l push levels.contents_bound [OF Cons.prems(2)]
        by (auto simp: push_this push_other push_meta levels_list_push take_Cons' split: if_splits)
    qed
  qed
  then show ?thesis using assms(1) by (simp add: load_levels_def)
qed

end

interpretation bid_push: side_push push_bid cs_bids cs_asks
  by unfold_locales simp_all

interpretation ask_push: side_push push_ask cs_asks cs_bids
  by unfold_locales simp_all

lemma entry_levels_length: "length (entry_levels read_entry es) \<le> length es"
  by (induction es) (auto split: sum.splits option.splits)

lemma entry_levels_positive:
  "l \<in> set (entry_levels read_entry es) \<Longrightarrow> f64_gt (pl_amount l) f64_zero"
  by (induction es) (auto split: sum.splits option.splits if_splits)

lemma load_levels_no_panic:
  assumes "\<And>e p. read_entry e \<noteq> Inl p"
  shows "load_levels read_entry push n s es \<noteq> Inl p"
  unfolding load_levels_def
  by (rule tryfold_no_panic) (auto simp: tryP_eq_Inl assms split: option.splits if_splits)

end
