(* ===== verification/Parser_Properties.thy ===== *)
theory Parser_Properties
  imports Exchange_Parsers
begin

section \<open>What the parsers accept\<close>

text \<open>
  The contract of a parser as the feeds and the publisher use it, its interpretation on the two
  exchanges, and the properties of each parser. The witnesses use a small JSON type.
\<close>

definition accepted_snapshot ::
  "nat \<Rightarrow> source_id \<Rightarrow> nano_time \<Rightarrow> contributor_snapshot \<Rightarrow> bool" where
  "accepted_snapshot n src t s \<longleftrightarrow>
     snapshot_wf n s \<and> cs_source_id s = src \<and> cs_arrival_time s = t \<and>
     (\<forall>l \<in> set (snapshot_bids s @ snapshot_asks s). f64_gt (pl_amount l) f64_zero)"

locale exchange_parser =
  fixes parse :: "nat \<Rightarrow> string \<Rightarrow> nano_time \<Rightarrow> panic + (feed_error + contributor_snapshot option)"
    and src :: source_id
  assumes parse_accepted: "parse n m t = okP (Some s) \<Longrightarrow> accepted_snapshot n src t s"
begin

lemma parse_amounts:
  "parse n m t = okP (Some s) \<Longrightarrow> l \<in> set (snapshot_bids s @ snapshot_asks s) \<Longrightarrow>
    \<not> is_nan (pl_amount l)"
  using parse_accepted [of n m t s] by (auto simp: accepted_snapshot_def f64_gt_iff)

lemma parse_depth:
  assumes "parse n m t = okP (Some s)"
  shows "length (snapshot_bids s) \<le> n" "length (snapshot_asks s) \<le> n"
  using parse_accepted [OF assms] levels.contents_bound [of n]
  by (auto simp: accepted_snapshot_def snapshot_wf_def)

end

text \<open>Both sides loaded into a fresh snapshot.\<close>

lemma load_both:
  assumes "load_levels rd push_bid n (snapshot_new n src t) bs = okP s1"
    and "load_levels rd push_ask n s1 as = okP s"
  shows "accepted_snapshot n src t s \<and>
    snapshot_bids s = entry_levels rd (take n bs) \<and> snapshot_asks s = entry_levels rd (take n as)"
proof -
  have new: "levels_wf n (cs_bids (snapshot_new n src t))" "levels_wf n (cs_asks (snapshot_new n src t))"
    using snapshot_new_simps(1) [of n src t] by (simp_all add: snapshot_wf_def)
  note B = bid_push.load_levels_ok [OF assms(1) new(1)]
  then have "levels_wf n (cs_asks s1)" using new(2) by simp
  note A = ask_push.load_levels_ok [OF assms(2) this]
  have len: "length (entry_levels rd (take n es)) \<le> n" for es
    using entry_levels_length [of rd "take n es"] by simp
  have "snapshot_bids s = entry_levels rd (take n bs)" "snapshot_asks s = entry_levels rd (take n as)"
    using A B len by simp_all
  then show ?thesis
    using A B entry_levels_positive [of _ rd]
    by (auto simp: accepted_snapshot_def snapshot_wf_def)
qed

definition json_side :: "'j serde_json \<Rightarrow> 'j \<Rightarrow> string \<Rightarrow> 'j list" where
  \<comment> \<open>the entries of a side of a Binance message, none when the key is missing or no array\<close>
  "json_side S json key =
     (case Option.bind (js_get S json key) (js_as_array S) of None \<Rightarrow> [] | Some es \<Rightarrow> es)"

lemma load_levels_Nil [simp]: "load_levels rd push n s [] = okP s"
  by (simp add: load_levels_def)

lemma binance_parse_alt:
  "binance_parse_orderbook_update S n payload t =
    tryP (js_parse S payload) (\<lambda>json.
    tryP (load_levels (binance_entry S) push_bid n (snapshot_new n Binance t) (json_side S json ''bids'')) (\<lambda>s.
      load_levels (binance_entry S) push_ask n s (json_side S json ''asks'')))"
  by (simp add: binance_parse_orderbook_update_def json_side_def Let_def tryP_def
      split: option.split sum.split)

lemma js_parse_eq_ok: "js_parse S m = okP j \<longleftrightarrow> js_from_str S m = Inr j"
  by (simp add: js_parse_def split: sum.split)

lemma binance_parse_ok:
  assumes "binance_parse_orderbook_update S n payload t = okP s"
  shows "\<exists>json. js_from_str S payload = Inr json \<and> accepted_snapshot n Binance t s \<and>
    snapshot_bids s = entry_levels (binance_entry S) (take n (json_side S json ''bids'')) \<and>
    snapshot_asks s = entry_levels (binance_entry S) (take n (json_side S json ''asks''))"
  using assms load_both
  by (fastforce simp: binance_parse_alt tryP_eq_ok js_parse_eq_ok)

text \<open>A Bitstamp message carries a book for a channel if its event is \<open>data\<close> on that channel.\<close>

definition bitstamp_relevant :: "'j serde_json \<Rightarrow> string \<Rightarrow> 'j \<Rightarrow> bool" where
  "bitstamp_relevant S ch json \<longleftrightarrow>
     unwrap_or (Option.bind (js_get S json ''event'') (js_as_str S)) '''' = ''data'' \<and>
     unwrap_or (js_as_str S (js_at_key S json ''channel'')) '''' = ch"

definition bitstamp_side :: "'j serde_json \<Rightarrow> 'j \<Rightarrow> string \<Rightarrow> 'j list" where
  "bitstamp_side S json key =
     unwrap_or (js_as_array S (js_at_key S (js_at_key S json ''data'') key)) []"

lemma bitstamp_parse_alt:
  "parse_bitstamp_update S n m ch t =
    tryP (js_parse S m) (\<lambda>json.
      if bitstamp_relevant S ch json
      then tryP (load_levels (bitstamp_entry S) push_bid n (snapshot_new n Bitstamp t)
               (bitstamp_side S json ''bids'')) (\<lambda>s.
           tryP (load_levels (bitstamp_entry S) push_ask n s (bitstamp_side S json ''asks'')) (\<lambda>s.
             okP (Some s)))
      else okP None)"
  by (auto simp: parse_bitstamp_update_def bitstamp_relevant_def bitstamp_side_def Let_def
      intro!: arg_cong2 [where f = tryP])

lemma bitstamp_parse_ok:
  assumes "parse_bitstamp_update S n m ch t = okP (Some s)"
  shows "\<exists>json. js_from_str S m = Inr json \<and> bitstamp_relevant S ch json \<and>
    accepted_snapshot n Bitstamp t s \<and>
    snapshot_bids s = entry_levels (bitstamp_entry S) (take n (bitstamp_side S json ''bids'')) \<and>
    snapshot_asks s = entry_levels (bitstamp_entry S) (take n (bitstamp_side S json ''asks''))"
proof -
  obtain json s1 where "js_parse S m = okP json" "bitstamp_relevant S ch json"
    "load_levels (bitstamp_entry S) push_bid n (snapshot_new n Bitstamp t)
      (bitstamp_side S json ''bids'') = okP s1"
    "load_levels (bitstamp_entry S) push_ask n s1 (bitstamp_side S json ''asks'') = okP s"
    using assms by (auto simp: bitstamp_parse_alt tryP_eq_ok split: if_splits)
  then show ?thesis using load_both by (fastforce simp: js_parse_eq_ok)
qed

definition binance_parser ::
  "'j serde_json \<Rightarrow> nat \<Rightarrow> string \<Rightarrow> nano_time \<Rightarrow> panic + (feed_error + contributor_snapshot option)" where
  "binance_parser S n m t =
     tryP (binance_parse_orderbook_update S n m t) (\<lambda>snapshot. okP (Some snapshot))"

interpretation binance: exchange_parser "binance_parser S" Binance for S :: "'j serde_json"
  by unfold_locales (auto simp: binance_parser_def tryP_eq_ok dest: binance_parse_ok)

definition bitstamp_parser ::
  "'j serde_json \<Rightarrow> string \<Rightarrow> nat \<Rightarrow> string \<Rightarrow> nano_time \<Rightarrow>
    panic + (feed_error + contributor_snapshot option)" where
  "bitstamp_parser S ch n m t = parse_bitstamp_update S n m ch t"

interpretation bitstamp: exchange_parser "bitstamp_parser S ch" Bitstamp
  for S :: "'j serde_json" and ch
  by unfold_locales (auto simp: bitstamp_parser_def dest: bitstamp_parse_ok)

subsection \<open>Panics of the parsers\<close>

lemma parse_f64_no_panic [simp]: "parse_f64 s \<noteq> Inl p"
  by (simp add: parse_f64_def)

lemma js_parse_no_panic [simp]: "js_parse S s \<noteq> Inl p"
  by (simp add: js_parse_def)

lemma bitstamp_entry_no_panic: "bitstamp_entry S e \<noteq> Inl p"
  by (auto simp: bitstamp_entry_def tryP_eq_Inl split: option.splits)

lemma unwrap_eq_Inl: "unwrap x = Inl p \<longleftrightarrow> x = None \<and> p = UnwrapNone"
  by (cases x) auto

text \<open>The first entry the loop stops at, and the outcome of the loop in terms of it.\<close>

fun readable :: "panic + (feed_error + 'a) \<Rightarrow> bool" where
  "readable (Inr (Inr _)) = True"
| "readable _ = False"

definition first_unreadable ::
  "('j \<Rightarrow> panic + (feed_error + (f64 \<times> f64) option)) \<Rightarrow> 'j list \<Rightarrow> 'j option" where
  "first_unreadable rd es = find (\<lambda>e. \<not> readable (rd e)) es"

lemma first_unreadable_simps [simp]:
  "first_unreadable rd [] = None"
  "first_unreadable rd (e # es) = (if readable (rd e) then first_unreadable rd es else Some e)"
  by (simp_all add: first_unreadable_def)

lemma first_unreadable_append:
  "first_unreadable rd (xs @ ys) =
    (case first_unreadable rd xs of None \<Rightarrow> first_unreadable rd ys | Some e \<Rightarrow> Some e)"
  by (induction xs) auto

lemma readable_iff: "readable r \<longleftrightarrow> (\<exists>a. r = okP a)"
  by (cases r rule: readable.cases) auto

lemma load_levels_loop:
  "load_levels rd push n s es =
    tryfold (\<lambda>snap e. tryP (rd e) (\<lambda>level. okP (case level of None \<Rightarrow> snap
      | Some (p, q) \<Rightarrow> if f64_gt q f64_zero then push n snap p q else snap))) s (take n es)"
  unfolding load_levels_def
  by (rule arg_cong [where f = "\<lambda>f. tryfold f s (take n es)"])
    (auto intro!: ext arg_cong2 [where f = tryP] split: option.split)

lemma load_levels_stops:
  "load_levels rd push n s es = Inl p \<longleftrightarrow>
    (\<exists>e. first_unreadable rd (take n es) = Some e \<and> rd e = Inl p)"
  "load_levels rd push n s es = errP err \<longleftrightarrow>
    (\<exists>e. first_unreadable rd (take n es) = Some e \<and> rd e = errP err)"
  "(\<exists>s'. load_levels rd push n s es = okP s') \<longleftrightarrow> first_unreadable rd (take n es) = None"
proof -
  let ?f = "\<lambda>snap e. tryP (rd e) (\<lambda>level. okP (case level of None \<Rightarrow> snap
      | Some (p, q) \<Rightarrow> if f64_gt q f64_zero then push n snap p q else snap))"
  have "tryfold ?f s xs = Inl p \<longleftrightarrow> (\<exists>e. first_unreadable rd xs = Some e \<and> rd e = Inl p)"
    and "tryfold ?f s xs = errP err \<longleftrightarrow> (\<exists>e. first_unreadable rd xs = Some e \<and> rd e = errP err)"
    and "(\<exists>s'. tryfold ?f s xs = okP s') \<longleftrightarrow> first_unreadable rd xs = None" for xs
  proof (induction xs arbitrary: s)
    case (Cons e xs)
    { case 1 then show ?case using Cons.IH(1) by (cases "rd e" rule: readable.cases) auto }
    { case 2 then show ?case using Cons.IH(2) by (cases "rd e" rule: readable.cases) auto }
    { case 3 then show ?case using Cons.IH(3) by (cases "rd e" rule: readable.cases) auto }
  qed simp_all
  then show "load_levels rd push n s es = Inl p \<longleftrightarrow>
    (\<exists>e. first_unreadable rd (take n es) = Some e \<and> rd e = Inl p)"
    "load_levels rd push n s es = errP err \<longleftrightarrow>
    (\<exists>e. first_unreadable rd (take n es) = Some e \<and> rd e = errP err)"
    "(\<exists>s'. load_levels rd push n s es = okP s') \<longleftrightarrow> first_unreadable rd (take n es) = None"
    unfolding load_levels_loop by blast+
qed

lemma load_both_stops:
  "tryP (load_levels rd pb n s bs) (\<lambda>s. tryP (load_levels rd pa n s as) (\<lambda>s. okP (f s))) = Inl p \<longleftrightarrow>
    (\<exists>e. first_unreadable rd (take n bs @ take n as) = Some e \<and> rd e = Inl p)"
  "tryP (load_levels rd pb n s bs) (\<lambda>s. tryP (load_levels rd pa n s as) (\<lambda>s. okP (f s))) = errP err \<longleftrightarrow>
    (\<exists>e. first_unreadable rd (take n bs @ take n as) = Some e \<and> rd e = errP err)"
  using load_levels_stops(3) [of rd pb n s bs]
  by (auto simp: tryP_eq_Inl tryP_eq_err load_levels_stops first_unreadable_append split: option.split)

definition entry_unwraps_none :: "'j serde_json \<Rightarrow> 'j \<Rightarrow> bool" where
  \<comment> \<open>the price is no string, or it is a number and the amount is no string\<close>
  "entry_unwraps_none S e \<longleftrightarrow>
     (case js_as_str S (js_at_idx S e 0) of
        None \<Rightarrow> True
      | Some p \<Rightarrow> (case f64_from_str p of Inl _ \<Rightarrow> False
                   | Inr _ \<Rightarrow> js_as_str S (js_at_idx S e 1) = None))"

lemma binance_entry_panic:
  "binance_entry S e = Inl p \<longleftrightarrow> p = UnwrapNone \<and> entry_unwraps_none S e"
  by (cases "js_as_str S (js_at_idx S e 0)"; cases "js_as_str S (js_at_idx S e 1)")
    (auto simp: binance_entry_def entry_unwraps_none_def parse_f64_def split: sum.splits)

subsection \<open>Properties\<close>

text \<open>A JSON type for the witnesses; \<open>example_json\<close> parses a few messages to fixed values.\<close>

datatype json = JNull | JStr string | JArr "json list" | JObj "(string \<times> json) list"

fun json_get :: "json \<Rightarrow> string \<Rightarrow> json option" where
  "json_get (JObj kvs) k = map_of kvs k"
| "json_get _ k = None"

fun json_array :: "json \<Rightarrow> json list option" where
  "json_array (JArr xs) = Some xs"
| "json_array _ = None"

fun json_str :: "json \<Rightarrow> string option" where
  "json_str (JStr s) = Some s"
| "json_str _ = None"

fun json_idx :: "json \<Rightarrow> nat \<Rightarrow> json" where
  "json_idx (JArr xs) i = (if i < length xs then xs ! i else JNull)"
| "json_idx _ i = JNull"

definition json_key :: "json \<Rightarrow> string \<Rightarrow> json" where
  "json_key j k = (case json_get j k of None \<Rightarrow> JNull | Some v \<Rightarrow> v)"

definition example_entries :: json where
  "example_entries =
     JArr [JArr [JStr ''100'', JStr ''1''], JArr [JStr ''99'', JStr ''0''], JArr [JStr ''99'', JStr ''1'']]"

definition example_json :: "json serde_json" where
  "example_json =
     \<lparr>js_from_str = (\<lambda>m.
        if m = ''book'' then Inr (JObj [(''bids'', example_entries)])
        else if m = ''bad entry'' then Inr (JObj [(''bids'', JArr [JNull])])
        else if m = ''data'' then
          Inr (JObj [(''event'', JStr ''data''), (''channel'', JStr ''order_book_ethbtc''),
                     (''data'', JObj [(''bids'', example_entries)])])
        else if m = ''subscribed'' then Inr (JObj [(''event'', JStr ''bts:subscription_succeeded'')])
        else Inl ''expected value''),
      js_get = json_get, js_as_array = json_array, js_as_str = json_str,
      js_at_idx = json_idx, js_at_key = json_key\<rparr>"

lemmas read_float = f64_from_str_def parse_decimal_def is_digit_def digits_val_def
  parse_exponent_def Let_def ascii_lower_def decimal_pattern_def round_pattern_def
  round_div_even_def f64_make_def

lemma float_strings:
  "f64_from_str ''100'' = Inr 0x4059000000000000"
  "f64_from_str ''99'' = Inr 0x4058C00000000000"
  "f64_from_str ''1'' = Inr 0x3FF0000000000000"
  "f64_from_str ''0'' = Inr 0"
  subgoal by (simp add: read_float)
  subgoal by (simp add: read_float)
  subgoal by (simp add: read_float)
  subgoal by (simp add: read_float)
  done

lemma one_is_positive: "f64_gt 0x3FF0000000000000 f64_zero" "\<not> f64_gt 0 f64_zero"
  by (simp_all add: f64_compute f64_zero_def)

lemma example_entry [simp]:
  "binance_entry example_json (JArr [JStr ''100'', JStr ''1'']) =
    okP (Some (0x4059000000000000, 0x3FF0000000000000))"
  "binance_entry example_json (JArr [JStr ''99'', JStr ''0'']) = okP (Some (0x4058C00000000000, 0))"
  "binance_entry example_json (JArr [JStr ''99'', JStr ''1'']) =
    okP (Some (0x4058C00000000000, 0x3FF0000000000000))"
  "bitstamp_entry example_json (JArr [JStr ''100'', JStr ''1'']) =
    okP (Some (0x4059000000000000, 0x3FF0000000000000))"
  "bitstamp_entry example_json (JArr [JStr ''99'', JStr ''0'']) = okP (Some (0x4058C00000000000, 0))"
  "bitstamp_entry example_json (JArr [JStr ''99'', JStr ''1'']) =
    okP (Some (0x4058C00000000000, 0x3FF0000000000000))"
  by (simp_all add: binance_entry_def bitstamp_entry_def example_json_def parse_f64_def float_strings)

lemma example_messages [simp]:
  "js_from_str example_json ''book'' = Inr (JObj [(''bids'', example_entries)])"
  "js_from_str example_json ''bad entry'' = Inr (JObj [(''bids'', JArr [JNull])])"
  "js_from_str example_json ''data'' = Inr (JObj [(''event'', JStr ''data''),
     (''channel'', JStr ''order_book_ethbtc''), (''data'', JObj [(''bids'', example_entries)])])"
  "js_from_str example_json ''subscribed'' =
     Inr (JObj [(''event'', JStr ''bts:subscription_succeeded'')])"
  by (simp_all add: example_json_def)

lemma example_fields [simp]:
  "js_get example_json = json_get" "js_as_array example_json = json_array"
  "js_as_str example_json = json_str" "js_at_idx example_json = json_idx"
  "js_at_key example_json = json_key"
  by (simp_all add: example_json_def)

lemma example_levels:
  assumes "rd (JArr [JStr ''100'', JStr ''1'']) = okP (Some (0x4059000000000000, 0x3FF0000000000000))"
    and "rd (JArr [JStr ''99'', JStr ''0'']) = okP (Some (0x4058C00000000000, 0))"
    and "rd (JArr [JStr ''99'', JStr ''1'']) = okP (Some (0x4058C00000000000, 0x3FF0000000000000))"
    and "json_array example_entries = Some es"
  shows "load_levels rd push 3 s es =
      okP (push 3 (push 3 s 0x4059000000000000 0x3FF0000000000000) 0x4058C00000000000 0x3FF0000000000000)"
    and "entry_levels rd (take 3 es) = [level_of (0x4059000000000000, 0x3FF0000000000000),
      level_of (0x4058C00000000000, 0x3FF0000000000000)]"
proof -
  have es: "es = [JArr [JStr ''100'', JStr ''1''], JArr [JStr ''99'', JStr ''0''], JArr [JStr ''99'', JStr ''1'']]"
    using assms(4) by (simp add: example_entries_def)
  show "load_levels rd push 3 s es =
      okP (push 3 (push 3 s 0x4059000000000000 0x3FF0000000000000) 0x4058C00000000000 0x3FF0000000000000)"
    by (simp add: es assms(1-3) load_levels_def one_is_positive)
  show "entry_levels rd (take 3 es) = [level_of (0x4059000000000000, 0x3FF0000000000000),
      level_of (0x4058C00000000000, 0x3FF0000000000000)]"
    by (simp add: es assms(1-3) one_is_positive)
qed

lemma example_side:
  "json_side example_json (JObj [(''bids'', example_entries)]) ''asks'' = []"
  "json_array example_entries =
     Some (json_side example_json (JObj [(''bids'', example_entries)]) ''bids'')"
  by (simp_all add: json_side_def example_entries_def)

lemma example_binance_parse:
  "binance_parse_orderbook_update example_json 3 ''book'' 7 = okP (push_bid 3 (push_bid 3
     (snapshot_new 3 Binance 7) 0x4059000000000000 0x3FF0000000000000) 0x4058C00000000000 0x3FF0000000000000)"
  by (simp add: binance_parse_alt js_parse_def example_side(1)
      example_levels(1) [OF example_entry(1-3) example_side(2)])

text \<open>C13: a Binance message that is accepted gives exactly the entries among the first \<open>n\<close> of each
  side that have a positive amount, in their order, in a well formed snapshot for the Binance slot
  that carries the given arrival time.\<close>

theorem binance_parse_exact:
  assumes "binance_parse_orderbook_update S n payload t = okP s"
  shows "\<exists>json. js_from_str S payload = Inr json \<and> accepted_snapshot n Binance t s \<and>
    snapshot_bids s = entry_levels (binance_entry S) (take n (json_side S json ''bids'')) \<and>
    snapshot_asks s = entry_levels (binance_entry S) (take n (json_side S json ''asks''))"
  by (rule binance_parse_ok [OF assms])

theorem binance_parse_exact_witness:
  "\<exists>s. binance_parse_orderbook_update example_json 3 ''book'' 7 = okP s \<and>
    snapshot_bids s = [level_of (0x4059000000000000, 0x3FF0000000000000),
      level_of (0x4058C00000000000, 0x3FF0000000000000)] \<and> snapshot_asks s = []"
  using binance_parse_exact [OF example_binance_parse] example_binance_parse
    example_levels(2) [OF example_entry(1-3) example_side(2)]
  by (simp add: example_side(1))

text \<open>C26: parsing a Binance message panics exactly when the message is JSON and the first entry
  that cannot be read, the bids before the asks, has no string where \<open>as_str().unwrap()\<close> expects
  one; the panic is always that of the unwrap.\<close>

theorem binance_parse_panics:
  "binance_parse_orderbook_update S n payload t = Inl p \<longleftrightarrow>
    p = UnwrapNone \<and> (\<exists>json e. js_from_str S payload = Inr json \<and>
      first_unreadable (binance_entry S)
        (take n (json_side S json ''bids'') @ take n (json_side S json ''asks'')) = Some e \<and>
      entry_unwraps_none S e)"
proof -
  have panics: "tryP (load_levels rd pb n s bs) (\<lambda>s. load_levels rd pa n s as) = Inl p \<longleftrightarrow>
    (\<exists>e. first_unreadable rd (take n bs @ take n as) = Some e \<and> rd e = Inl p)" for rd pb pa s bs as
    using load_both_stops(1) [of rd pb n s bs pa as "\<lambda>s. s"] by (simp add: tryP_eq_Inl)
  show ?thesis
    by (auto simp: binance_parse_alt tryP_eq_Inl [of "js_parse S payload"] panics
        binance_entry_panic js_parse_eq_ok)
qed

text \<open>C15: a Bitstamp message that is accepted as a book is a \<open>data\<close> event on the subscribed
  channel, and the snapshot holds exactly the readable entries with a positive amount among the
  first \<open>n\<close> of each side, in their order, for the Bitstamp slot.\<close>

theorem bitstamp_parse_exact:
  assumes "parse_bitstamp_update S n m ch t = okP (Some s)"
  shows "\<exists>json. js_from_str S m = Inr json \<and> bitstamp_relevant S ch json \<and>
    accepted_snapshot n Bitstamp t s \<and>
    snapshot_bids s = entry_levels (bitstamp_entry S) (take n (bitstamp_side S json ''bids'')) \<and>
    snapshot_asks s = entry_levels (bitstamp_entry S) (take n (bitstamp_side S json ''asks''))"
  by (rule bitstamp_parse_ok [OF assms])

lemma example_bitstamp_json:
  fixes j defines "j \<equiv> JObj [(''event'', JStr ''data''), (''channel'', JStr ''order_book_ethbtc''),
    (''data'', JObj [(''bids'', example_entries)])]"
  shows "bitstamp_relevant example_json ''order_book_ethbtc'' j"
    "bitstamp_side example_json j ''asks'' = []"
    "json_array example_entries = Some (bitstamp_side example_json j ''bids'')"
  by (simp_all add: j_def bitstamp_relevant_def bitstamp_side_def unwrap_or_def json_key_def
      example_entries_def)

lemma example_bitstamp_parse:
  "parse_bitstamp_update example_json 3 ''data'' ''order_book_ethbtc'' 7 = okP (Some (push_bid 3
     (push_bid 3 (snapshot_new 3 Bitstamp 7) 0x4059000000000000 0x3FF0000000000000)
     0x4058C00000000000 0x3FF0000000000000))"
  by (simp add: bitstamp_parse_alt js_parse_def example_bitstamp_json(1,2)
      example_levels(1) [OF example_entry(4-6) example_bitstamp_json(3)])

theorem bitstamp_parse_exact_witness:
  "\<exists>s. parse_bitstamp_update example_json 3 ''data'' ''order_book_ethbtc'' 7 = okP (Some s) \<and>
    snapshot_bids s = [level_of (0x4059000000000000, 0x3FF0000000000000),
      level_of (0x4058C00000000000, 0x3FF0000000000000)] \<and> snapshot_asks s = []"
  using bitstamp_parse_exact [OF example_bitstamp_parse] example_bitstamp_parse
    example_levels(2) [OF example_entry(4-6) example_bitstamp_json(3)]
  by (simp add: example_bitstamp_json(2))

text \<open>C14: parsing a Bitstamp message never panics; it is ignored exactly when it is JSON but not a
  \<open>data\<close> event on the subscribed channel; and it is rejected exactly when it is no JSON, or the
  first entry that cannot be read has a price or an amount that is not a number.\<close>

theorem bitstamp_parse_outcomes:
  "parse_bitstamp_update S n m ch t \<noteq> Inl p \<and>
   (parse_bitstamp_update S n m ch t = okP None \<longleftrightarrow>
      (\<exists>json. js_from_str S m = Inr json \<and> \<not> bitstamp_relevant S ch json)) \<and>
   (parse_bitstamp_update S n m ch t = errP err \<longleftrightarrow>
      (\<exists>msg. js_from_str S m = Inl msg \<and> err = JsonError msg) \<or>
      (\<exists>json e. js_from_str S m = Inr json \<and> bitstamp_relevant S ch json \<and>
        first_unreadable (bitstamp_entry S)
          (take n (bitstamp_side S json ''bids'') @ take n (bitstamp_side S json ''asks'')) = Some e \<and>
        bitstamp_entry S e = errP err))"
proof (cases "js_from_str S m")
  case (Inl msg)
  then show ?thesis by (auto simp: bitstamp_parse_alt js_parse_def)
next
  case (Inr json)
  then have j: "js_parse S m = okP json" by (simp add: js_parse_def)
  show ?thesis
    by (auto simp: bitstamp_parse_alt j Inr load_both_stops bitstamp_entry_no_panic)
      (auto simp: tryP_eq_ok)
qed

end
