(* ===== verification/Parser_Agreement.thy ===== *)
theory Parser_Agreement
  imports Parser_Properties
begin

section \<open>The two parsers agree (sources/binance.rs, sources/bitstamp.rs)\<close>

text \<open>
  The parsers are written differently: Binance unwraps the parts of an entry one after another while
  Bitstamp matches on both and skips the entry when one is no string, and they find the sides of the
  book in different places of the message. On entries whose parts are strings they do the same, down
  to the error, but for the exchange the snapshot names.
\<close>

abbreviation for_bitstamp :: "contributor_snapshot \<Rightarrow> contributor_snapshot" where
  "for_bitstamp s \<equiv> s\<lparr>cs_source_id := Bitstamp\<rparr>"

definition mapP :: "('a \<Rightarrow> 'b) \<Rightarrow> 'p + ('e + 'a) \<Rightarrow> 'p + ('e + 'b)" where
  "mapP h r = (case r of Inl p \<Rightarrow> Inl p | Inr (Inl e) \<Rightarrow> errP e | Inr (Inr a) \<Rightarrow> okP (h a))"

lemma mapP_simps [simp]:
  "mapP h (Inl p) = Inl p" "mapP h (errP e) = errP e" "mapP h (okP a) = okP (h a)"
  by (simp_all add: mapP_def)

lemma mapP_tryP: "mapP h (tryP m f) = tryP m (\<lambda>a. mapP h (f a))"
  by (auto simp: tryP_def split: sum.split)

lemma tryP_mapP: "tryP (mapP h m) f = tryP m (\<lambda>a. f (h a))"
  by (auto simp: tryP_def mapP_def split: sum.split)

text \<open>A loop whose body commutes with \<open>h\<close> commutes with \<open>h\<close>.\<close>

lemma tryfold_mapP:
  assumes "\<And>x s. x \<in> set xs \<Longrightarrow> g (h s) x = mapP h (f s x)"
  shows "tryfold g (h s) xs = mapP h (tryfold f s xs)"
  using assms
proof (induction xs arbitrary: s)
  case (Cons x xs)
  have "tryfold g (h s) (x # xs) = tryP (f s x) (\<lambda>s'. tryfold g (h s') xs)"
    using Cons.prems by (simp add: tryP_mapP)
  then show ?case using Cons by (simp add: mapP_tryP)
qed simp

definition string_entry :: "'j serde_json \<Rightarrow> 'j \<Rightarrow> bool" where
  "string_entry S e \<longleftrightarrow> js_as_str S (js_at_idx S e 0) \<noteq> None \<and> js_as_str S (js_at_idx S e 1) \<noteq> None"

lemma entries_agree: "string_entry S e \<Longrightarrow> bitstamp_entry S e = binance_entry S e"
  by (auto simp: string_entry_def bitstamp_entry_def binance_entry_def)

lemma load_levels_agree:
  assumes "list_all (string_entry S) (take n es)"
    and "\<And>s p q. push n (for_bitstamp s) p q = for_bitstamp (push n s p q)"
  shows "load_levels (bitstamp_entry S) push n (for_bitstamp s) es =
    mapP for_bitstamp (load_levels (binance_entry S) push n s es)"
  unfolding load_levels_loop
proof (rule tryfold_mapP)
  fix e s
  assume "e \<in> set (take n es)"
  then have "bitstamp_entry S e = binance_entry S e"
    using assms(1) by (simp add: list_all_iff entries_agree)
  then show "tryP (bitstamp_entry S e) (\<lambda>level. okP (case level of None \<Rightarrow> for_bitstamp s
        | Some (p, q) \<Rightarrow> if f64_gt q f64_zero then push n (for_bitstamp s) p q else for_bitstamp s)) =
      mapP for_bitstamp (tryP (binance_entry S e) (\<lambda>level. okP (case level of None \<Rightarrow> s
        | Some (p, q) \<Rightarrow> if f64_gt q f64_zero then push n s p q else s)))"
    by (auto simp: mapP_tryP assms(2) intro!: arg_cong2 [where f = tryP] split: option.split)
qed

subsection \<open>Properties\<close>

text \<open>C16: a Binance message and a book on the subscribed Bitstamp channel that hold the same entries give
  the same result when both parts of each entry that is read are strings: the same error, or the same
  levels on both sides with the same arrival time, in a snapshot for the other slot.\<close>

theorem parsers_agree:
  assumes "js_from_str S payload = Inr json" "js_from_str S m = Inr json'" "bitstamp_relevant S ch json'"
    and "json_side S json ''bids'' = bids" "bitstamp_side S json' ''bids'' = bids"
    and "json_side S json ''asks'' = asks" "bitstamp_side S json' ''asks'' = asks"
    and "list_all (string_entry S) (take n bids @ take n asks)"
  shows "parse_bitstamp_update S n m ch t =
    (case binance_parse_orderbook_update S n payload t of
       Inl p \<Rightarrow> Inl p
     | Inr (Inl e) \<Rightarrow> errP e
     | Inr (Inr s) \<Rightarrow> okP (Some (s\<lparr>cs_source_id := Bitstamp\<rparr>)))"
proof -
  have new: "snapshot_new n Bitstamp t = for_bitstamp (snapshot_new n Binance t)"
    by (simp add: snapshot_new_def)
  have b: "load_levels (bitstamp_entry S) push_bid n (for_bitstamp s) bids =
      mapP for_bitstamp (load_levels (binance_entry S) push_bid n s bids)" for s
    by (rule load_levels_agree) (use assms(8) in \<open>simp_all add: push_bid_def\<close>)
  have a: "load_levels (bitstamp_entry S) push_ask n (for_bitstamp s) asks =
      mapP for_bitstamp (load_levels (binance_entry S) push_ask n s asks)" for s
    by (rule load_levels_agree) (use assms(8) in \<open>simp_all add: push_ask_def\<close>)
  have "parse_bitstamp_update S n m ch t =
      mapP (\<lambda>s. Some (for_bitstamp s)) (binance_parse_orderbook_update S n payload t)"
    using assms(1-7)
    by (simp add: bitstamp_parse_alt binance_parse_alt js_parse_def new b tryP_mapP a mapP_tryP)
      (simp add: mapP_def tryP_def split: sum.split)
  then show ?thesis by (simp add: mapP_def)
qed

theorem parsers_agree_witness:
  "parse_bitstamp_update example_json 3 ''data'' ''order_book_ethbtc'' 7 =
    okP (Some ((push_bid 3 (push_bid 3 (snapshot_new 3 Binance 7) 0x4059000000000000 0x3FF0000000000000)
      0x4058C00000000000 0x3FF0000000000000)\<lparr>cs_source_id := Bitstamp\<rparr>))"
proof -
  let ?es = "json_side example_json (JObj [(''bids'', example_entries)]) ''bids''"
  have es: "?es = [JArr [JStr ''100'', JStr ''1''], JArr [JStr ''99'', JStr ''0''], JArr [JStr ''99'', JStr ''1'']]"
    by (simp add: json_side_def example_entries_def)
  have "list_all (string_entry example_json) (take 3 ?es @ take 3 [])"
    by (simp add: es string_entry_def)
  from parsers_agree [OF example_messages(1,3) example_bitstamp_json(1) refl _ example_side(1) example_bitstamp_json(2) this, of 7]
    example_bitstamp_json(3) example_side(2)
  show ?thesis by (simp add: example_binance_parse)
qed

end
