(* ===== verification/Decimal_Text.thy ===== *)
theory Decimal_Text
  imports F64_Decimal
begin

section \<open>Printing numbers (\<open>core::fmt\<close>)\<close>

text \<open>
  What the code uses of Rust's formatting: an unsigned integer in decimal, a double with a fixed
  number of fraction digits (\<open>{:.8}\<close>) and alignment to the right in a given width (\<open>{:>10.8}\<close>). A
  double is printed exactly rounded to its last digit, ties to even; a negative zero keeps its sign
  and a NaN has none.
\<close>

definition digit_char :: "nat \<Rightarrow> char" where
  "digit_char d = char_of (48 + d)"

fun show_nat :: "nat \<Rightarrow> string" where
  "show_nat n = (if n < 10 then [digit_char n] else show_nat (n div 10) @ [digit_char (n mod 10)])"

declare show_nat.simps [simp del]

fun fixed_digits :: "nat \<Rightarrow> nat \<Rightarrow> string" where
  \<comment> \<open>the last \<open>k\<close> decimal digits of a number\<close>
  "fixed_digits 0 n = []"
| "fixed_digits (Suc k) n = fixed_digits k (n div 10) @ [digit_char (n mod 10)]"

definition scaled_mag :: "nat \<Rightarrow> f64 \<Rightarrow> nat" where
  \<comment> \<open>the magnitude in units of the last printed digit\<close>
  "scaled_mag prec x = round_div_even (nat (f64_mag x) * 10 ^ prec) (2 ^ 1074)"

definition f64_fmt :: "nat \<Rightarrow> f64 \<Rightarrow> string" where
  "f64_fmt prec x =
     (if is_nan x then ''NaN''
      else (if f64_neg x then ''-'' else []) @
        (if is_inf x then ''inf''
         else show_nat (scaled_mag prec x div 10 ^ prec) @
           (if prec = 0 then [] else ''.'' @ fixed_digits prec (scaled_mag prec x))))"

definition pad_left :: "nat \<Rightarrow> string \<Rightarrow> string" where
  "pad_left width s = replicate (width - length s) CHR '' '' @ s"

subsection \<open>Laws\<close>

lemma of_char_digit [simp]: "d < 10 \<Longrightarrow> (of_char (digit_char d) :: nat) = 48 + d"
  by (simp add: digit_char_def)

lemma is_digit_char [simp]: "d < 10 \<Longrightarrow> is_digit (digit_char d)"
  by (simp add: is_digit_def)

lemma digits_val_snoc [simp]: "digits_val (ds @ [c]) = 10 * digits_val ds + (of_char c - 48)"
  by (simp add: digits_val_def)

lemma digits_val_Nil [simp]: "digits_val [] = 0"
  by (simp add: digits_val_def)

lemma digits_val_single: "d < 10 \<Longrightarrow> digits_val [digit_char d] = d"
  using digits_val_snoc [of "[]" "digit_char d"] by simp

lemma show_nat_digits: "list_all is_digit (show_nat n)"
  by (induction n rule: show_nat.induct) (subst show_nat.simps, simp)

lemma show_nat_val [simp]: "digits_val (show_nat n) = n"
  by (induction n rule: show_nat.induct) (subst show_nat.simps, simp add: digits_val_single)

lemma show_nat_not_Nil [simp]: "show_nat n \<noteq> []"
  by (subst show_nat.simps) simp

lemma fixed_digits_length [simp]: "length (fixed_digits k n) = k"
  by (induction k arbitrary: n) simp_all

lemma fixed_digits_digits: "list_all is_digit (fixed_digits k n)"
  by (induction k arbitrary: n) simp_all

lemma fixed_digits_val [simp]: "digits_val (fixed_digits k n) = n mod 10 ^ k"
proof (induction k arbitrary: n)
  case (Suc k)
  then show ?case by (simp add: mod_mult2_eq)
qed simp

lemma fixed_digits_zeros: "fixed_digits k (10 ^ k * m) = replicate k (digit_char 0)"
proof (induction k)
  case (Suc k)
  have "10 ^ Suc k * m div 10 = 10 ^ k * m" "10 ^ Suc k * m mod 10 = 0" by simp_all
  then show ?case using Suc by (simp only: fixed_digits.simps) (simp add: replicate_append_same)
qed simp

lemma show_nat_hd: "hd (show_nat n) = CHR ''0'' \<longleftrightarrow> n = 0"
proof (induction n rule: show_nat.induct)
  case (1 n)
  have zero: "CHR ''0'' = digit_char 0" by code_simp
  show ?case
  proof (cases "n < 10")
    case True
    then have "digit_char n = digit_char 0 \<longleftrightarrow> n = 0"
      using of_char_digit [of n] of_char_digit [of 0] by (metis add_left_cancel zero_less_numeral)
    then show ?thesis using True zero by (subst show_nat.simps) simp
  next
    case False
    then show ?thesis using 1 by (subst show_nat.simps) (simp add: hd_append)
  qed
qed

text \<open>A rounded quotient is within a half of the exact one.\<close>

lemma round_div_even_near:
  assumes "0 < q"
  shows "2 * \<bar>int (round_div_even p q) * int q - int p\<bar> \<le> int q"
proof -
  define n r where "n = p div q" and "r = p mod q"
  have p: "int p = int n * int q + int r"
    unfolding n_def r_def by (metis div_mult_mod_eq of_nat_add of_nat_mult)
  have r: "r < q" using assms by (simp add: r_def)
  have "round_div_even p q = (if q < 2 * r \<or> (2 * r = q \<and> odd n) then Suc n else n)"
    by (simp add: round_div_even_def n_def r_def Let_def)
  then show ?thesis using r unfolding p by (auto simp: algebra_simps)
qed

end
