(* ===== verification/Entry_Points.thy ===== *)
theory Entry_Points
  imports Agg_Prelude
begin

section \<open>The ends of the two binaries (aggserver/src/main.rs, aggclient/src/main.rs)\<close>

text \<open>
  How \<open>main\<close> can end, and the start that both binaries share: clap parses the command line, which is
  an argument of the model; on an error the closure prints it and exits with clap's code, and
  panics when the error cannot be printed.
\<close>

datatype main_exit =
    ProcessExit int
  | MainPanics panic
  | MainReturns "string + unit"

record clap_error =
  clap_prints :: bool      \<comment> \<open>\<open>e.print()\<close> succeeds\<close>
  clap_exit_code :: int

definition parsed_or_exit :: "clap_error + 'cli \<Rightarrow> main_exit + 'cli" where
  "parsed_or_exit args =
     (case args of
        Inl e \<Rightarrow> Inl (if clap_prints e then ProcessExit (clap_exit_code e) else MainPanics UnwrapErr)
      | Inr c \<Rightarrow> Inr c)"

end
