(* ===== verification/Watch_Channels.thy ===== *)
theory Watch_Channels
  imports Agg_Prelude
begin

section \<open>Tasks and watch channels\<close>

text \<open>
  A task is a partial step function on its state: the event is the await that completes, \<open>None\<close>
  an event the task is not waiting for. \<open>run_task\<close> runs it on a script of events. A task that
  shares a value through a cell and a watch channel bumps the version whenever it stores: this
  is the contract \<open>watched\<close>, on which the readers of the cell rely.

  The version counts the calls of \<open>send\<close>. One that finds no receiver has no effect in tokio, which no
  receiver can tell, as it compares with the version at which it subscribed. Storing and sending
  are one step here; a reader in between would see the new value and be told of it once more.
\<close>

fun run_task :: "('t \<Rightarrow> 'e \<Rightarrow> 't option) \<Rightarrow> 't \<Rightarrow> 'e list \<Rightarrow> 't option" where
  "run_task step task [] = Some task"
| "run_task step task (ev # evs) = Option.bind (step task ev) (\<lambda>task'. run_task step task' evs)"

lemma run_task_snoc:
  "run_task step t (evs @ [ev]) = Option.bind (run_task step t evs) (\<lambda>t'. step t' ev)"
  by (induction evs arbitrary: t) (auto split: Option.bind_split)

lemma run_task_induct [consumes 1, case_names start step]:
  assumes "run_task step t0 evs = Some t"
    and "P [] t0"
    and "\<And>evs t ev t'. run_task step t0 evs = Some t \<Longrightarrow> P evs t \<Longrightarrow> step t ev = Some t' \<Longrightarrow>
      P (evs @ [ev]) t'"
  shows "P evs t"
  using assms(1)
proof (induction evs arbitrary: t rule: rev_induct)
  case Nil
  then show ?case using assms(2) by simp
next
  case (snoc ev evs)
  then show ?case using assms(3) by (auto simp: run_task_snoc bind_eq_Some_conv)
qed

lemma run_task_stuck:
  assumes "\<And>ev. step t ev = None"
  shows "run_task step t evs = (if evs = [] then Some t else None)"
  using assms by (cases evs) simp_all

locale watched =
  fixes step :: "'s \<Rightarrow> 'e \<Rightarrow> 's option"
    and cell :: "'s \<Rightarrow> 'v"
    and version :: "'s \<Rightarrow> nat"
  assumes step_version: "step s ev = Some s' \<Longrightarrow> version s' = version s \<and> cell s' = cell s \<or>
    version s < version s'"
begin

lemma run_version:
  assumes "run_task step s evs = Some s'"
  shows "version s \<le> version s' \<and> (version s' = version s \<longrightarrow> cell s' = cell s)"
  using assms
proof (induction rule: run_task_induct)
  case (step evs u ev u')
  from step_version [OF step(2)] step(3) show ?case by auto
qed simp

end

end
