(* ===== verification/Exchange_Feeds.thy ===== *)
theory Exchange_Feeds
  imports Parser_Properties Watch_Channels
begin

section \<open>The feed tasks of the exchanges (sources/binance.rs, sources/bitstamp.rs)\<close>

text \<open>
  A feed shares its latest snapshot with its readers and runs one task. The task is modelled by
  what it does between two awaits: its state is the await it is suspended at (\<open>ft_phase\<close>), the
  shared feed and the frames it sent, and an event is the completion of that await, with its
  outcome. \<open>tokio::select!\<close> completes any one of its branches, so every event of a phase may come
  next. The network (connecting, sending, what \<open>read.next()\<close> yields) is the environment that
  chooses the events; sending an empty pong has an ignored outcome.

  The two \<open>subscribe\<close> functions spawn the same loop, with the exchange's own \<open>run_feed_loop\<close>:
  \<open>feed_arms\<close> are the arms of its \<open>select!\<close>, which only differ in how a text is handled, and
  \<open>loop_returns\<close> is the loop of the spawned task after \<open>run_feed_loop\<close> has returned.
\<close>

definition BACKOFF_SECONDS :: nat where "BACKOFF_SECONDS = 5"
definition PING_PERIOD_SECONDS :: nat where "PING_PERIOD_SECONDS = 30"

subsection \<open>State\<close>

record exchange_feed =
  latest :: "(feed_error + contributor_snapshot) option"
  watch_version :: nat

datatype ws_message = WsText string | WsPing | WsOther

datatype ws_frame = FrameText string | FramePing | FramePong

datatype phase =
    Connecting string             \<comment> \<open>\<open>connect_async(url).await\<close>\<close>
  | Subscribing                   \<comment> \<open>\<open>write.send(sub_msg).await\<close>\<close>
  | Streaming                     \<comment> \<open>the \<open>select!\<close> of \<open>run_feed_loop\<close>\<close>
  | Sleeping                      \<comment> \<open>the \<open>select!\<close> of the back off\<close>
  | Stopped                       \<comment> \<open>the task has ended\<close>
  | Died panic                    \<comment> \<open>the task has panicked\<close>

text \<open>\<open>ft_key\<close> is what the task captured: the symbol of Binance, the channel of Bitstamp; \<open>ft_address\<close>
  is what its last web socket is connected to.\<close>

record feed_task =
  ft_key :: string
  ft_phase :: phase
  ft_address :: string
  ft_feed :: exchange_feed
  ft_sent :: "ws_frame list"

datatype feed_event =
    ConnectDone "string + unit"
  | SubscribeDone "string + unit"
  | ReadNext "(string + ws_message) option" int    \<comment> \<open>with the clock when it arrives\<close>
  | PingTick "string + unit"                       \<comment> \<open>with the outcome of sending the ping\<close>
  | ShutdownRecv
  | BackoffElapsed

text \<open>What one turn of the \<open>select!\<close> loop does: loop again or return from \<open>run_feed_loop\<close>.\<close>

datatype 'e turn = Again | Return "'e + unit"

definition store_latest ::
  "(feed_error + contributor_snapshot) \<Rightarrow> exchange_feed \<Rightarrow> exchange_feed" where
  "store_latest r fd =
     fd\<lparr>latest := Some r, watch_version := watch_version fd + 1\<rparr>"

subsection \<open>Handling a text\<close>

definition binance_on_text ::
  "'j serde_json \<Rightarrow> nat \<Rightarrow> string \<Rightarrow> int \<Rightarrow> exchange_feed \<Rightarrow> panic + (feed_error + exchange_feed)" where
  "binance_on_text S n txt clock fd =
     bindP (nanos_now clock) (\<lambda>arrival_time.
       tryP (binance_parse_orderbook_update S n txt arrival_time) (\<lambda>snapshot.
         okP (store_latest (Inr snapshot) fd)))"

definition bitstamp_on_text ::
  "'j serde_json \<Rightarrow> nat \<Rightarrow> string \<Rightarrow> string \<Rightarrow> int \<Rightarrow> exchange_feed \<Rightarrow>
    panic + (feed_error + exchange_feed)" where
  "bitstamp_on_text S n channel txt clock fd =
     bindP (nanos_now clock) (\<lambda>arrival_time.
       tryP (parse_bitstamp_update S n txt channel arrival_time) (\<lambda>parsed.
         case parsed of
           Some snapshot \<Rightarrow> okP (store_latest (Inr snapshot) fd)
         | None \<Rightarrow> okP fd))"

subsection \<open>The select loop\<close>

type_synonym on_text = "string \<Rightarrow> int \<Rightarrow> exchange_feed \<Rightarrow> panic + (feed_error + exchange_feed)"

fun feed_arms ::
  "on_text \<Rightarrow> exchange_feed \<Rightarrow> feed_event \<Rightarrow>
    (panic + (exchange_feed \<times> ws_frame list \<times> feed_error turn)) option" where
  "feed_arms on_text fd (ReadNext (Some (Inr (WsText txt))) clock) =
     Some (case on_text txt clock fd of
             Inl p \<Rightarrow> Inl p
           | Inr (Inl e) \<Rightarrow> Inr (fd, [], Return (Inl e))
           | Inr (Inr fd') \<Rightarrow> Inr (fd', [], Again))"
| "feed_arms on_text fd (ReadNext (Some (Inr WsPing)) clock) = Some (Inr (fd, [FramePong], Again))"
| "feed_arms on_text fd (ReadNext (Some (Inr WsOther)) clock) = Some (Inr (fd, [], Again))"
| "feed_arms on_text fd (ReadNext (Some (Inl e)) clock) =
     Some (Inr (fd, [], Return (Inl (WebSocketError e))))"
| "feed_arms on_text fd (ReadNext None clock) =
     Some (Inr (fd, [], Return (Inl WebSocketDisconnected)))"
| "feed_arms on_text fd (PingTick (Inr ())) = Some (Inr (fd, [FramePing], Again))"
| "feed_arms on_text fd (PingTick (Inl e)) =
     Some (Inr (fd, [], Return (Inl (WebSocketPingError e))))"
| "feed_arms on_text fd ShutdownRecv = Some (Inr (fd, [], Return (Inr ())))"
| "feed_arms on_text fd ev = None"

subsection \<open>The spawned task\<close>

text \<open>\<open>run_feed_loop\<close> returned: stop on \<open>Ok\<close>, else store the error, notify and back off.\<close>

fun loop_returns :: "feed_error + unit \<Rightarrow> feed_task \<Rightarrow> feed_task" where
  "loop_returns (Inr ()) task = task\<lparr>ft_phase := Stopped\<rparr>"
| "loop_returns (Inl e) task =
     task\<lparr>ft_phase := Sleeping, ft_feed := store_latest (Inl e) (ft_feed task)\<rparr>"

definition streaming_step :: "on_text \<Rightarrow> feed_task \<Rightarrow> feed_event \<Rightarrow> feed_task option" where
  "streaming_step on_text task ev =
     (case feed_arms on_text (ft_feed task) ev of
        None \<Rightarrow> None
      | Some (Inl p) \<Rightarrow> Some (task\<lparr>ft_phase := Died p\<rparr>)
      | Some (Inr (fd, frames, t)) \<Rightarrow>
          (let task' = task\<lparr>ft_feed := fd, ft_sent := ft_sent task @ frames\<rparr>
           in Some (case t of Again \<Rightarrow> task' | Return r \<Rightarrow> loop_returns r task')))"

text \<open>The back off: sleeping, or the shutdown signal, whichever comes first.\<close>

fun backoff_step :: "(feed_task \<Rightarrow> feed_task) \<Rightarrow> feed_task \<Rightarrow> feed_event \<Rightarrow> feed_task option" where
  "backoff_step enter task BackoffElapsed = Some (enter task)"
| "backoff_step enter task ShutdownRecv = Some (task\<lparr>ft_phase := Stopped\<rparr>)"
| "backoff_step enter task ev = None"

subsection \<open>Binance\<close>

definition binance_url :: "string \<Rightarrow> string" where
  "binance_url symbol = ''wss://stream.binance.com:9443/ws/'' @ symbol @ ''@depth20@100ms''"

definition binance_enter_loop :: "nat \<Rightarrow> feed_task \<Rightarrow> feed_task" where
  "binance_enter_loop n task =
     task\<lparr>ft_phase := (if n \<le> 20 then Connecting (binance_url (ft_key task)) else Died AssertFailed)\<rparr>"

definition feed_new :: exchange_feed where
  "feed_new = \<lparr>latest = None, watch_version = 0\<rparr>"

definition task_new :: "string \<Rightarrow> feed_task" where
  "task_new key = \<lparr>ft_key = key, ft_phase = Stopped, ft_address = '''', ft_feed = feed_new, ft_sent = []\<rparr>"

definition binance_subscribe ::
  "(string \<Rightarrow> string) \<Rightarrow> nat \<Rightarrow> string \<Rightarrow> panic + (feed_error + feed_task)" where
  "binance_subscribe ul n symbol = okP (binance_enter_loop n (task_new (to_lowercase ul symbol)))"

definition binance_step ::
  "'j serde_json \<Rightarrow> nat \<Rightarrow> feed_task \<Rightarrow> feed_event \<Rightarrow> feed_task option" where
  "binance_step S n task ev =
     (case ft_phase task of
        Connecting url \<Rightarrow>
          (case ev of
             ConnectDone (Inr _) \<Rightarrow> Some (task\<lparr>ft_phase := Streaming, ft_address := url\<rparr>)
           | ConnectDone (Inl e) \<Rightarrow> Some (loop_returns (Inl (ConnectError e)) task)
           | _ \<Rightarrow> None)
      | Streaming \<Rightarrow> streaming_step (binance_on_text S n) task ev
      | Sleeping \<Rightarrow> backoff_step (binance_enter_loop n) task ev
      | _ \<Rightarrow> None)"

subsection \<open>Bitstamp\<close>

definition bitstamp_channel :: "string \<Rightarrow> string" where
  "bitstamp_channel symbol = ''order_book_'' @ symbol"

definition bitstamp_enter_loop :: "feed_task \<Rightarrow> feed_task" where
  "bitstamp_enter_loop task = task\<lparr>ft_phase := Connecting ''wss://ws.bitstamp.net''\<rparr>"

text \<open>The assertion on the depth is in the caller of \<open>subscribe\<close>, not in the task.\<close>

definition bitstamp_subscribe ::
  "(string \<Rightarrow> string) \<Rightarrow> nat \<Rightarrow> string \<Rightarrow> panic + (feed_error + feed_task)" where
  "bitstamp_subscribe ul n symbol =
     (if n \<le> 10
      then okP (bitstamp_enter_loop (task_new (bitstamp_channel (to_lowercase ul symbol))))
      else Inl AssertFailed)"

text \<open>The text of the subscription is made by serde\_json from the channel: the argument \<open>sub_msg\<close>.\<close>

definition bitstamp_step ::
  "'j serde_json \<Rightarrow> (string \<Rightarrow> string) \<Rightarrow> nat \<Rightarrow> feed_task \<Rightarrow> feed_event \<Rightarrow> feed_task option" where
  "bitstamp_step S sub_msg n task ev =
     (case ft_phase task of
        Connecting url \<Rightarrow>
          (case ev of
             ConnectDone (Inr _) \<Rightarrow> Some (task\<lparr>ft_phase := Subscribing, ft_address := url\<rparr>)
           | ConnectDone (Inl e) \<Rightarrow> Some (loop_returns (Inl (ConnectError e)) task)
           | _ \<Rightarrow> None)
      | Subscribing \<Rightarrow>
          (case ev of
             SubscribeDone (Inr _) \<Rightarrow>
               Some (task\<lparr>ft_phase := Streaming,
                 ft_sent := ft_sent task @ [FrameText (sub_msg (ft_key task))]\<rparr>)
           | SubscribeDone (Inl e) \<Rightarrow> Some (loop_returns (Inl (SendError e)) task)
           | _ \<Rightarrow> None)
      | Streaming \<Rightarrow> streaming_step (bitstamp_on_text S n (ft_key task)) task ev
      | Sleeping \<Rightarrow> backoff_step bitstamp_enter_loop task ev
      | _ \<Rightarrow> None)"

subsection \<open>The contract of a feed task\<close>

text \<open>One step leaves the feed as it is, or stores the error the task backs off with, or stores the
  snapshot of a message that just arrived. This is what the reader of a feed relies on.\<close>

definition stores_error :: "feed_task \<Rightarrow> feed_task \<Rightarrow> bool" where
  "stores_error t t' \<longleftrightarrow> ft_phase t' = Sleeping \<and> (\<exists>e. ft_feed t' = store_latest (Inl e) (ft_feed t))"

definition stores_message ::
  "(nat \<Rightarrow> string \<Rightarrow> nano_time \<Rightarrow> panic + (feed_error + contributor_snapshot option)) \<Rightarrow> nat \<Rightarrow>
    feed_event \<Rightarrow> feed_task \<Rightarrow> feed_task \<Rightarrow> bool" where
  "stores_message parse n ev t t' \<longleftrightarrow> ft_phase t' = Streaming \<and>
     (\<exists>m clock s. ev = ReadNext (Some (Inr (WsText m))) clock \<and> 0 \<le> clock \<and>
        parse n m (word_of_int clock) = okP (Some s) \<and>
        ft_feed t' = store_latest (Inr s) (ft_feed t))"

locale feed_runner = exchange_parser parse src
  for parse :: "nat \<Rightarrow> string \<Rightarrow> nano_time \<Rightarrow> panic + (feed_error + contributor_snapshot option)"
    and src :: source_id +
  fixes n :: nat
    and step :: "feed_task \<Rightarrow> feed_event \<Rightarrow> feed_task option"
    and key :: string
  assumes step_key: "step t ev = Some t' \<Longrightarrow> ft_key t' = ft_key t"
    and step_feed: "step t ev = Some t' \<Longrightarrow> ft_key t = key \<Longrightarrow>
      ft_phase t' \<noteq> Sleeping \<and> ft_feed t' = ft_feed t \<or>
      stores_error t t' \<or> stores_message parse n ev t t'"
    and step_ended: "ft_phase t = Stopped \<or> ft_phase t = Died p \<Longrightarrow> step t ev = None"
    and step_shutdown: "ft_phase t = Streaming \<or> ft_phase t = Sleeping \<Longrightarrow>
      step t ShutdownRecv = Some (t\<lparr>ft_phase := Stopped\<rparr>)"
begin

definition started :: "feed_task \<Rightarrow> bool" where
  "started t0 \<longleftrightarrow> ft_key t0 = key \<and> ft_feed t0 = feed_new \<and> ft_phase t0 \<noteq> Sleeping"

lemma run_key:
  assumes "run_task step t0 evs = Some t" "started t0"
  shows "ft_key t = key"
  using assms(1)
proof (induction rule: run_task_induct)
  case start
  then show ?case using assms(2) by (simp add: started_def)
qed (simp add: step_key)

lemma run_latest:
  assumes "run_task step t0 evs = Some t" "started t0"
  shows "(case latest (ft_feed t) of
      None \<Rightarrow> watch_version (ft_feed t) = 0
    | Some (Inl e) \<Rightarrow> 0 < watch_version (ft_feed t)
    | Some (Inr s) \<Rightarrow> 0 < watch_version (ft_feed t) \<and>
        (\<exists>m clock. ReadNext (Some (Inr (WsText m))) clock \<in> set evs \<and> 0 \<le> clock \<and>
          parse n m (word_of_int clock) = okP (Some s)))"
  using assms(1)
proof (induction rule: run_task_induct)
  case start
  then show ?case using assms(2) by (simp add: started_def feed_new_def)
next
  case (step evs t ev t')
  from step_feed [OF step(2) run_key [OF step(1) assms(2)]] show ?case
  proof (elim disjE)
    assume "ft_phase t' \<noteq> Sleeping \<and> ft_feed t' = ft_feed t"
    then show ?thesis using step(3) by (auto split: option.splits sum.splits)
  next
    assume "stores_error t t'"
    then show ?thesis by (auto simp: stores_error_def store_latest_def)
  next
    assume "stores_message parse n ev t t'"
    then show ?thesis by (fastforce simp: stores_message_def store_latest_def)
  qed
qed

lemma run_accepted:
  assumes "run_task step t0 evs = Some t" "started t0" "latest (ft_feed t) = Some (Inr s)"
  shows "\<exists>m clock. ReadNext (Some (Inr (WsText m))) clock \<in> set evs \<and> 0 \<le> clock \<and>
    parse n m (word_of_int clock) = okP (Some s) \<and> accepted_snapshot n src (word_of_int clock) s"
  using run_latest [OF assms(1,2)] assms(3) by (auto intro: parse_accepted)

lemma run_sleeping:
  assumes "run_task step t0 evs = Some t" "started t0" "ft_phase t = Sleeping"
  shows "\<exists>e. latest (ft_feed t) = Some (Inl e)"
  using assms(1,3)
proof (induction rule: run_task_induct)
  case start
  then show ?case using assms(2) by (simp add: started_def)
next
  case (step evs t ev t')
  from step_feed [OF step(2) run_key [OF step(1) assms(2)]] step(4) show ?case
    by (auto simp: stores_error_def stores_message_def store_latest_def)
qed

lemma run_ended:
  assumes "ft_phase t = Stopped \<or> ft_phase t = Died p"
  shows "run_task step t evs = (if evs = [] then Some t else None)"
  by (rule run_task_stuck) (rule step_ended [OF assms])

end

subsection \<open>Both exchanges run feeds\<close>

lemma feed_arms_ReadNext_text:
  "feed_arms on_text fd ev = Some (Inr (fd', frames, t)) \<Longrightarrow>
    fd' = fd \<or> t = Again \<and> (\<exists>m clock. ev = ReadNext (Some (Inr (WsText m))) clock \<and>
      on_text m clock fd = okP fd')"
  by (induction on_text fd ev rule: feed_arms.induct) (auto split: sum.splits)

lemma streaming_step_feed:
  assumes "streaming_step on_text t ev = Some t'" "ft_phase t = Streaming"
    and "\<And>m clock fd fd'. on_text m clock fd = okP fd' \<Longrightarrow> fd' = fd \<or>
      (\<exists>s. 0 \<le> clock \<and> parse n m (word_of_int clock) = okP (Some s) \<and> fd' = store_latest (Inr s) fd)"
  shows "ft_key t' = ft_key t \<and>
    (ft_phase t' \<noteq> Sleeping \<and> ft_feed t' = ft_feed t \<or> stores_error t t' \<or>
     stores_message parse n ev t t')"
proof (cases "feed_arms on_text (ft_feed t) ev")
  case None
  then show ?thesis using assms(1) by (simp add: streaming_step_def)
next
  case (Some r)
  show ?thesis
  proof (cases r)
    case (Inl p)
    then show ?thesis using assms(1) Some by (auto simp: streaming_step_def)
  next
    case (Inr x)
    obtain fd frames tn where x: "x = (fd, frames, tn)" by (cases x) auto
    have arms: "feed_arms on_text (ft_feed t) ev = Some (Inr (fd, frames, tn))"
      using Some Inr x by simp
    note fd = feed_arms_ReadNext_text [OF arms]
    show ?thesis
    proof (cases tn)
      case Again
      then have t': "t' = t\<lparr>ft_feed := fd, ft_sent := ft_sent t @ frames\<rparr>"
        using assms(1) arms by (simp add: streaming_step_def)
      from fd consider "fd = ft_feed t" | m clock where
        "ev = ReadNext (Some (Inr (WsText m))) clock" "on_text m clock (ft_feed t) = okP fd"
        by blast
      then show ?thesis
      proof cases
        case 2
        then show ?thesis using assms(2) assms(3) [OF 2(2)] t'
          by (auto simp: stores_message_def)
      qed (use t' assms(2) in simp)
    next
      case (Return res)
      then have t': "t' = loop_returns res (t\<lparr>ft_feed := fd, ft_sent := ft_sent t @ frames\<rparr>)"
        using assms(1) arms by (simp add: streaming_step_def)
      then show ?thesis using fd Return
        by (cases res) (auto simp: stores_error_def)
    qed
  qed
qed

lemma backoff_step_cases:
  "backoff_step enter t ev = Some t' \<Longrightarrow> t' = enter t \<or> t' = t\<lparr>ft_phase := Stopped\<rparr>"
  by (induction enter t ev rule: backoff_step.induct) auto

lemma loop_returns_key [simp]: "ft_key (loop_returns r t) = ft_key t"
  by (cases r) auto

lemma stores_error_sleeping [simp]:
  "stores_error t (t\<lparr>ft_phase := Sleeping, ft_feed := store_latest (Inl e) (ft_feed t)\<rparr>)"
  by (auto simp: stores_error_def)

lemma binance_on_text_ok:
  "binance_on_text S n m clock fd = okP fd' \<Longrightarrow>
    \<exists>s. 0 \<le> clock \<and> binance_parser S n m (word_of_int clock) = okP (Some s) \<and>
      fd' = store_latest (Inr s) fd"
  by (auto simp: binance_on_text_def bindP_def binance_parser_def tryP_eq_ok split: sum.splits)

lemma bitstamp_on_text_ok:
  "bitstamp_on_text S n ch m clock fd = okP fd' \<Longrightarrow> fd' = fd \<or>
    (\<exists>s. 0 \<le> clock \<and> bitstamp_parser S ch n m (word_of_int clock) = okP (Some s) \<and>
      fd' = store_latest (Inr s) fd)"
  by (auto simp: bitstamp_on_text_def bindP_def bitstamp_parser_def tryP_eq_ok
      split: sum.splits option.splits)

lemma binance_step_feed:
  assumes "binance_step S n t ev = Some t'"
  shows "ft_key t' = ft_key t \<and>
    (ft_phase t' \<noteq> Sleeping \<and> ft_feed t' = ft_feed t \<or> stores_error t t' \<or>
     stores_message (binance_parser S) n ev t t')"
proof (cases "ft_phase t")
  case Streaming
  then have "streaming_step (binance_on_text S n) t ev = Some t'"
    using assms by (simp add: binance_step_def)
  then show ?thesis
    by (rule streaming_step_feed [OF _ Streaming]) (blast dest: binance_on_text_ok)
next
  case Sleeping
  then show ?thesis using assms
    by (auto simp: binance_step_def binance_enter_loop_def dest!: backoff_step_cases split: if_splits)
qed (use assms in \<open>auto simp: binance_step_def split: feed_event.splits sum.splits\<close>)

lemma bitstamp_step_feed:
  assumes "bitstamp_step S sub_msg n t ev = Some t'"
  shows "ft_key t' = ft_key t \<and>
    (ft_phase t' \<noteq> Sleeping \<and> ft_feed t' = ft_feed t \<or> stores_error t t' \<or>
     stores_message (bitstamp_parser S (ft_key t)) n ev t t')"
proof (cases "ft_phase t")
  case Streaming
  then have "streaming_step (bitstamp_on_text S n (ft_key t)) t ev = Some t'"
    using assms by (simp add: bitstamp_step_def)
  then show ?thesis
    by (rule streaming_step_feed [OF _ Streaming]) (blast dest: bitstamp_on_text_ok)
next
  case Sleeping
  then show ?thesis using assms
    by (auto simp: bitstamp_step_def bitstamp_enter_loop_def dest!: backoff_step_cases)
qed (use assms in \<open>auto simp: bitstamp_step_def split: feed_event.splits sum.splits\<close>)

interpretation binance_feed: feed_runner "binance_parser S" Binance n "binance_step S n" key
  for S :: "'j serde_json" and n key
proof
  fix t ev t' p
  show "binance_step S n t ev = Some t' \<Longrightarrow> ft_key t' = ft_key t"
    using binance_step_feed by blast
  show "binance_step S n t ev = Some t' \<Longrightarrow> ft_key t = key \<Longrightarrow>
      ft_phase t' \<noteq> Sleeping \<and> ft_feed t' = ft_feed t \<or> stores_error t t' \<or>
      stores_message (binance_parser S) n ev t t'"
    using binance_step_feed by blast
qed (auto simp: binance_step_def streaming_step_def)

interpretation bitstamp_feed:
  feed_runner "bitstamp_parser S key" Bitstamp n "bitstamp_step S sub_msg n" key
  for S :: "'j serde_json" and sub_msg n key
proof
  fix t ev t' p
  show "bitstamp_step S sub_msg n t ev = Some t' \<Longrightarrow> ft_key t' = ft_key t"
    using bitstamp_step_feed by blast
  show "bitstamp_step S sub_msg n t ev = Some t' \<Longrightarrow> ft_key t = key \<Longrightarrow>
      ft_phase t' \<noteq> Sleeping \<and> ft_feed t' = ft_feed t \<or> stores_error t t' \<or>
      stores_message (bitstamp_parser S key) n ev t t'"
    using bitstamp_step_feed by blast
qed (auto simp: bitstamp_step_def streaming_step_def)

interpretation binance_cell: watched "binance_step S n" "\<lambda>t. latest (ft_feed t)"
    "\<lambda>t. watch_version (ft_feed t)" for S :: "'j serde_json" and n
proof
  fix t ev t'
  assume "binance_step S n t ev = Some t'"
  from binance_step_feed [OF this]
  show "watch_version (ft_feed t') = watch_version (ft_feed t) \<and>
      latest (ft_feed t') = latest (ft_feed t) \<or>
      watch_version (ft_feed t) < watch_version (ft_feed t')"
    by (auto simp: stores_error_def stores_message_def store_latest_def)
qed

interpretation bitstamp_cell: watched "bitstamp_step S sub_msg n" "\<lambda>t. latest (ft_feed t)"
    "\<lambda>t. watch_version (ft_feed t)" for S :: "'j serde_json" and sub_msg n
proof
  fix t ev t'
  assume "bitstamp_step S sub_msg n t ev = Some t'"
  from bitstamp_step_feed [OF this]
  show "watch_version (ft_feed t') = watch_version (ft_feed t) \<and>
      latest (ft_feed t') = latest (ft_feed t) \<or>
      watch_version (ft_feed t) < watch_version (ft_feed t')"
    by (auto simp: stores_error_def stores_message_def store_latest_def)
qed

end
