(* ===== verification/Instruments.thy ===== *)
theory Instruments
  imports Sources
begin

section \<open>Trading instruments (aggcommon/src/instrument.rs)\<close>

text \<open>
  A \<open>HashMap\<close> or \<open>DashMap\<close> is the finite map of its entries; \<open>collect\<close> and repeated
  \<open>insert\<close> let a later entry replace an earlier one with the same key. The iteration order of
  a \<open>HashMap\<close> is not specified, so code that iterates takes the order as an argument.
\<close>

record source_symbol =
  ss_source :: source_id
  ss_symbol :: string

record instrument =
  in_symbol :: string
  in_source_mapping :: "source_id \<rightharpoonup> string"

definition instrument_new :: "string \<Rightarrow> source_symbol list \<Rightarrow> instrument" where
  "instrument_new symbol source_symbols =
     \<lparr>in_symbol = symbol,
      in_source_mapping =
        fold (\<lambda>ss m. m(ss_source ss \<mapsto> ss_symbol ss)) source_symbols Map.empty\<rparr>"

definition instrument_eq :: "instrument \<Rightarrow> instrument \<Rightarrow> bool" where
  "instrument_eq a b \<longleftrightarrow> in_symbol a = in_symbol b"

definition instrument_fmt :: "instrument \<Rightarrow> string" where
  "instrument_fmt i = in_symbol i"

type_synonym instrument_map = "string \<rightharpoonup> instrument"

definition instrument_map_new :: "instrument list \<Rightarrow> instrument_map" where
  "instrument_map_new instruments =
     fold (\<lambda>i m. m(in_symbol i \<mapsto> i)) instruments Map.empty"

definition instrument_map_get :: "instrument_map \<Rightarrow> string \<Rightarrow> instrument option" where
  "instrument_map_get m symbol = m symbol"

text \<open>The entries of a source mapping in the iteration order \<open>ord\<close> of its hash map.\<close>

definition source_mapping_iter :: "source_id list \<Rightarrow> instrument \<Rightarrow> (source_id \<times> string) list" where
  "source_mapping_iter ord i =
     List.map_filter (\<lambda>s. map_option (Pair s) (in_source_mapping i s)) ord"

definition iteration_order :: "source_id list \<Rightarrow> bool" where
  "iteration_order ord \<longleftrightarrow> distinct ord \<and> set ord = UNIV"

subsection \<open>Lookup after construction\<close>

lemma fold_insert_lookup:
  "fold (\<lambda>x m. m(key x \<mapsto> val x)) xs m k =
    (case find (\<lambda>x. key x = k) (rev xs) of Some x \<Rightarrow> Some (val x) | None \<Rightarrow> m k)"
proof (induction xs rule: rev_induct)
  case Nil
  then show ?case by simp
next
  case (snoc x xs)
  then show ?case by simp
qed

lemma instrument_new_mapping:
  "in_source_mapping (instrument_new symbol ss) s =
    map_option ss_symbol (find (\<lambda>x. ss_source x = s) (rev ss))"
  by (simp add: instrument_new_def fold_insert_lookup split: option.split)

lemma instrument_map_new_get:
  "instrument_map_get (instrument_map_new is) s = find (\<lambda>i. in_symbol i = s) (rev is)"
  by (simp add: instrument_map_get_def instrument_map_new_def fold_insert_lookup split: option.split)

text \<open>The manager relies on this: the key of an instrument is its own symbol.\<close>

definition symbols_match :: "instrument_map \<Rightarrow> bool" where
  "symbols_match m \<longleftrightarrow> (\<forall>s i. instrument_map_get m s = Some i \<longrightarrow> in_symbol i = s)"

lemma symbols_match_new: "symbols_match (instrument_map_new is)"
  by (auto simp: symbols_match_def instrument_map_new_get find_Some_iff)

lemma source_mapping_iter_set:
  "iteration_order ord \<Longrightarrow> set (source_mapping_iter ord i) = {(s, y). in_source_mapping i s = Some y}"
  by (force simp: source_mapping_iter_def iteration_order_def List.map_filter_def image_iff)

subsection \<open>Properties\<close>

text \<open>A lookup in the map built from a list of instruments returns the last instrument of the
  list with that symbol, and an instrument built from source symbols maps each source to the last
  symbol given for it.\<close>

theorem instrument_lookup:
  "instrument_map_get (instrument_map_new is) s = find (\<lambda>i. in_symbol i = s) (rev is) \<and>
   in_source_mapping (instrument_new nm ss) src =
     map_option ss_symbol (find (\<lambda>x. ss_source x = src) (rev ss)) \<and>
   in_symbol (instrument_new nm ss) = nm"
  by (simp add: instrument_map_new_get instrument_new_mapping) (simp add: instrument_new_def)

end
