(* ===== verification/Source_Factories.thy ===== *)
theory Source_Factories
  imports Exchange_Feeds Instruments
begin

section \<open>Factories of summary sources (service/model.rs, sources/factories.rs)\<close>

text \<open>
  A summary source is an exchange feed behind the trait \<open>OrderBookSummarySource\<close>: its source id and
  the task that feeds it. An \<open>anyhow\<close> error is the text its \<open>Display\<close> prints, which is the outermost
  context. A factory may panic, as \<open>BitstampFeed::subscribe\<close> does on a large depth. The hash maps
  are finite maps; the order in which a mapping is iterated is the argument \<open>ord\<close>.
\<close>

record summary_source =
  src_id :: source_id
  src_task :: feed_task

type_synonym 'src source_factory = "string \<Rightarrow> panic + (feed_error + 'src)"

type_synonym 'src factory_map = "source_id \<rightharpoonup> 'src source_factory"

definition factory_map_from_vec :: "(source_id \<times> 'src source_factory) list \<Rightarrow> 'src factory_map" where
  "factory_map_from_vec pairs = fold (\<lambda>p m. m(fst p \<mapsto> snd p)) pairs Map.empty"

definition missing_factory :: "source_id \<Rightarrow> string" where
  "missing_factory s = ''Missing factory for source '' @ source_id_fmt s"

definition factory_failed :: "source_id \<Rightarrow> string \<Rightarrow> string" where
  "factory_failed s symbol =
     ''Factory failed for source '' @ source_id_fmt s @ '' ('' @ symbol @ '')''"

definition with_context :: "panic + ('e + 'a) \<Rightarrow> string \<Rightarrow> panic + (string + 'a)" where
  "with_context r msg =
     (case r of Inl p \<Rightarrow> Inl p | Inr (Inl e) \<Rightarrow> errP msg | Inr (Inr a) \<Rightarrow> okP a)"

definition create_summary_sources ::
  "source_id list \<Rightarrow> 'src factory_map \<Rightarrow> instrument \<Rightarrow> panic + (string + 'src list)" where
  "create_summary_sources ord fm instrument =
     tryfold (\<lambda>feeds (source_id, source_symbol).
       tryP (case fm source_id of None \<Rightarrow> errP (missing_factory source_id) | Some f \<Rightarrow> okP f)
         (\<lambda>factory.
       tryP (with_context (factory source_symbol) (factory_failed source_id source_symbol))
         (\<lambda>feed. okP (feeds @ [feed]))))
       [] (source_mapping_iter ord instrument)"

definition binance_factory ::
  "(string \<Rightarrow> string) \<Rightarrow> nat \<Rightarrow> string \<Rightarrow> panic + (feed_error + summary_source)" where
  "binance_factory ul n symbol =
     tryP (binance_subscribe ul n symbol) (\<lambda>t. okP \<lparr>src_id = Binance, src_task = t\<rparr>)"

definition bitstamp_factory ::
  "(string \<Rightarrow> string) \<Rightarrow> nat \<Rightarrow> string \<Rightarrow> panic + (feed_error + summary_source)" where
  "bitstamp_factory ul n symbol =
     tryP (bitstamp_subscribe ul n symbol) (\<lambda>t. okP \<lparr>src_id = Bitstamp, src_task = t\<rparr>)"

definition new_factory_map :: "(string \<Rightarrow> string) \<Rightarrow> nat \<Rightarrow> summary_source factory_map" where
  "new_factory_map ul n =
     factory_map_from_vec [(Binance, binance_factory ul n), (Bitstamp, bitstamp_factory ul n)]"

subsection \<open>Laws\<close>

text \<open>The outcome for one entry of a mapping.\<close>

definition entry_source :: "'src factory_map \<Rightarrow> source_id \<times> string \<Rightarrow> panic + (string + 'src)" where
  "entry_source fm e =
     (case fm (fst e) of
        None \<Rightarrow> errP (missing_factory (fst e))
      | Some f \<Rightarrow> with_context (f (snd e)) (factory_failed (fst e) (snd e)))"

fun collect_sources :: "(panic + (string + 'src)) list \<Rightarrow> panic + (string + 'src list)" where
  "collect_sources [] = okP []"
| "collect_sources (r # rs) = tryP r (\<lambda>a. tryP (collect_sources rs) (\<lambda>as. okP (a # as)))"

lemma tryP_assoc: "tryP (tryP m f) g = tryP m (\<lambda>a. tryP (f a) g)"
  by (auto simp: tryP_def split: sum.split)

lemma create_summary_sources_collect:
  "create_summary_sources ord fm i =
    collect_sources (map (entry_source fm) (source_mapping_iter ord i))"
proof -
  have "tryfold (\<lambda>feeds (source_id, source_symbol).
       tryP (case fm source_id of None \<Rightarrow> errP (missing_factory source_id) | Some f \<Rightarrow> okP f)
         (\<lambda>factory.
       tryP (with_context (factory source_symbol) (factory_failed source_id source_symbol))
         (\<lambda>feed. okP (feeds @ [feed])))) acc es =
    tryP (collect_sources (map (entry_source fm) es)) (\<lambda>as. okP (acc @ as))" for acc es
    by (induction es arbitrary: acc)
      (auto simp: entry_source_def tryP_assoc split: option.split intro!: arg_cong2 [where f = tryP] ext)
  from this [of "[]"] show ?thesis
    by (simp add: create_summary_sources_def) (auto simp: tryP_def split: sum.split)
qed

lemma collect_sources_ok:
  "collect_sources rs = okP as \<longleftrightarrow> rs = map okP as"
proof (induction rs arbitrary: as)
  case (Cons r rs)
  show ?case by (cases as) (auto simp: tryP_eq_ok Cons)
qed auto

lemma collect_sources_err:
  "collect_sources rs = errP e \<longleftrightarrow> (\<exists>as rest. rs = map okP as @ errP e # rest)"
proof (induction rs)
  case (Cons r rs)
  show ?case
  proof
    assume "collect_sources (r # rs) = errP e"
    then consider "r = errP e" | a where "r = okP a" "collect_sources rs = errP e"
      by (auto simp: tryP_eq_err)
    then show "\<exists>as rest. r # rs = map okP as @ errP e # rest"
    proof cases
      case 1
      then show ?thesis by (simp add: exI [of _ "[]"])
    next
      case 2
      then obtain as rest where "rs = map okP as @ errP e # rest" using Cons by blast
      then have "r # rs = map okP (a # as) @ errP e # rest" using 2 by simp
      then show ?thesis by blast
    qed
  next
    assume "\<exists>as rest. r # rs = map okP as @ errP e # rest"
    then obtain as rest where "r # rs = map okP as @ errP e # rest" by blast
    then show "collect_sources (r # rs) = errP e"
      using Cons by (cases as) auto
  qed
qed auto

lemma new_factory_map_simps [simp]:
  "new_factory_map ul n Binance = Some (binance_factory ul n)"
  "new_factory_map ul n Bitstamp = Some (bitstamp_factory ul n)"
  by (simp_all add: new_factory_map_def factory_map_from_vec_def)

definition shipped_task :: "(string \<Rightarrow> string) \<Rightarrow> source_id \<Rightarrow> string \<Rightarrow> feed_task" where
  "shipped_task ul s symbol =
     (case s of
        Binance \<Rightarrow> (task_new (to_lowercase ul symbol))
          \<lparr>ft_phase := Connecting (binance_url (to_lowercase ul symbol))\<rparr>
      | Bitstamp \<Rightarrow> (task_new (bitstamp_channel (to_lowercase ul symbol)))
          \<lparr>ft_phase := Connecting ''wss://ws.bitstamp.net''\<rparr>)"

lemma shipped_factories_ok:
  assumes "n \<le> 10"
  shows "create_summary_sources ord (new_factory_map ul n) i =
    okP (map (\<lambda>(s, symbol). \<lparr>src_id = s, src_task = shipped_task ul s symbol\<rparr>)
      (source_mapping_iter ord i))"
proof -
  have "entry_source (new_factory_map ul n) (s, symbol) =
    okP \<lparr>src_id = s, src_task = shipped_task ul s symbol\<rparr>" for s symbol
    using assms
    by (cases s) (simp_all add: entry_source_def with_context_def binance_factory_def
        bitstamp_factory_def binance_subscribe_def bitstamp_subscribe_def binance_enter_loop_def
        bitstamp_enter_loop_def shipped_task_def task_new_def)
  then show ?thesis
    by (auto simp: create_summary_sources_collect collect_sources_ok)
qed

subsection \<open>Properties\<close>

text \<open>The sources of an instrument are created in the order of its mapping, one for each entry;
  the first entry without a factory, or whose factory fails, makes the whole call fail with the
  message for that entry.\<close>

theorem create_summary_sources_outcome:
  "(create_summary_sources ord fm i = okP feeds) =
     (map (entry_source fm) (source_mapping_iter ord i) = map okP feeds) \<and>
   (create_summary_sources ord fm i = errP e) =
     (\<exists>made rest. map (entry_source fm) (source_mapping_iter ord i) = map okP made @ errP e # rest)"
  by (simp add: create_summary_sources_collect collect_sources_ok collect_sources_err)

text \<open>With the shipped factories and a depth of at most ten, which the server's depth is, the
  sources of every instrument can be created: each entry gives the feed of its exchange, connecting
  for the lower case symbol.\<close>

theorem shipped_factories_succeed:
  assumes "n \<le> 10"
  shows "create_summary_sources ord (new_factory_map ul n) i =
    okP (map (\<lambda>(s, symbol). \<lparr>src_id = s, src_task = shipped_task ul s symbol\<rparr>)
      (source_mapping_iter ord i))"
  by (rule shipped_factories_ok [OF assms])

theorem shipped_factories_succeed_witness:
  "create_summary_sources [Bitstamp, Binance] (new_factory_map id 10)
     (instrument_new ''ETH-BTC'' [\<lparr>ss_source = Binance, ss_symbol = ''ethbtc''\<rparr>]) =
   okP [\<lparr>src_id = Binance, src_task = shipped_task id Binance ''ethbtc''\<rparr>]"
  using shipped_factories_succeed [of 10 "[Bitstamp, Binance]" id
      "instrument_new ''ETH-BTC'' [\<lparr>ss_source = Binance, ss_symbol = ''ethbtc''\<rparr>]"]
  by (simp add: source_mapping_iter_def instrument_new_def List.map_filter_def)

end
