(* ===== verification/Feed_Properties.thy ===== *)
theory Feed_Properties
  imports Exchange_Feeds
begin

section \<open>What the readers of a feed rely on\<close>

text \<open>
  The properties of the two feed tasks: what a reader finds in a feed, that it is told of every
  change, and when a task ends. A script of events starts with the state \<open>subscribe\<close> returns.
\<close>

lemma binance_started:
  "binance_subscribe ul n symbol = okP t0 \<Longrightarrow> binance_feed.started (to_lowercase ul symbol) t0"
  by (auto simp: binance_subscribe_def binance_enter_loop_def task_new_def binance_feed.started_def
      split: if_splits)

lemma bitstamp_started:
  "bitstamp_subscribe ul n symbol = okP t0 \<Longrightarrow>
    bitstamp_feed.started (bitstamp_channel (to_lowercase ul symbol)) t0"
  by (auto simp: bitstamp_subscribe_def bitstamp_enter_loop_def task_new_def
      bitstamp_feed.started_def split: if_splits)

subsection \<open>Panics\<close>

lemma bitstamp_on_text_no_panic:
  "0 \<le> clock \<Longrightarrow> bitstamp_on_text S n ch m clock fd \<noteq> Inl p"
  by (auto simp: bitstamp_on_text_def bindP_def tryP_eq_Inl bitstamp_parse_alt load_both_stops
      load_levels_no_panic bitstamp_entry_no_panic nanos_now_def split: if_splits option.splits)

text \<open>The clock is read when a message arrives.\<close>

fun clock_after_epoch :: "feed_event \<Rightarrow> bool" where
  "clock_after_epoch (ReadNext m clock) = (0 \<le> clock)"
| "clock_after_epoch _ = True"

lemma feed_arms_panic:
  "feed_arms on_text fd ev = Some (Inl p) \<Longrightarrow>
    \<exists>m clock. ev = ReadNext (Some (Inr (WsText m))) clock \<and> on_text m clock fd = Inl p"
  by (induction on_text fd ev rule: feed_arms.induct) (auto split: sum.splits)

lemma loop_returns_phase:
  "ft_phase (loop_returns r t) = (case r of Inr _ \<Rightarrow> Stopped | Inl _ \<Rightarrow> Sleeping)"
  by (cases r) auto

lemma streaming_step_alive:
  assumes "streaming_step on_text t ev = Some t'" "clock_after_epoch ev" "ft_phase t = Streaming"
    and "\<And>m clock fd p. 0 \<le> clock \<Longrightarrow> on_text m clock fd \<noteq> Inl p"
  shows "ft_phase t' \<noteq> Died p"
proof (cases "feed_arms on_text (ft_feed t) ev")
  case (Some r)
  show ?thesis
  proof (cases r)
    case (Inl q)
    then show ?thesis using feed_arms_panic [of on_text "ft_feed t" ev q] Some assms(2,4) by auto
  next
    case (Inr x)
    obtain fd frames tn where "x = (fd, frames, tn)" by (cases x) auto
    then have "t' = (case tn of Again \<Rightarrow> t\<lparr>ft_feed := fd, ft_sent := ft_sent t @ frames\<rparr>
      | Return r \<Rightarrow> loop_returns r (t\<lparr>ft_feed := fd, ft_sent := ft_sent t @ frames\<rparr>))"
      using assms(1) Some Inr by (simp add: streaming_step_def Let_def)
    then show ?thesis using assms(3)
      by (auto simp: loop_returns_phase split: turn.splits sum.splits)
  qed
qed (use assms(1) in \<open>simp add: streaming_step_def\<close>)

lemma bitstamp_step_alive:
  assumes "bitstamp_step S sub_msg n t ev = Some t'" "clock_after_epoch ev"
  shows "ft_phase t' \<noteq> Died p"
proof (cases "ft_phase t")
  case Streaming
  then have "streaming_step (bitstamp_on_text S n (ft_key t)) t ev = Some t'"
    using assms(1) by (simp add: bitstamp_step_def)
  then show ?thesis
    by (rule streaming_step_alive [OF _ assms(2) Streaming]) (rule bitstamp_on_text_no_panic)
next
  case Sleeping
  then show ?thesis using assms(1)
    by (auto simp: bitstamp_step_def bitstamp_enter_loop_def dest!: backoff_step_cases)
qed (use assms(1) in \<open>auto simp: bitstamp_step_def split: feed_event.splits sum.splits\<close>)

subsection \<open>Properties\<close>

definition example_task :: feed_task where
  "example_task = \<lparr>ft_key = ''ethbtc'', ft_phase = Streaming, ft_address = binance_url ''ethbtc'', ft_feed = feed_new, ft_sent = []\<rparr>"

lemma example_lowercase: "to_lowercase id ''ETHBTC'' = ''ethbtc''"
  by code_simp

lemma example_subscribe:
  "binance_subscribe id 3 ''ETHBTC'' =
    okP \<lparr>ft_key = ''ethbtc'', ft_phase = Connecting (binance_url ''ethbtc''), ft_address = '''', ft_feed = feed_new, ft_sent = []\<rparr>"
  "bitstamp_subscribe id 3 ''ETHBTC'' =
    okP \<lparr>ft_key = ''order_book_ethbtc'', ft_phase = Connecting ''wss://ws.bitstamp.net'',
      ft_address = '''', ft_feed = feed_new, ft_sent = []\<rparr>"
  by (simp_all add: binance_subscribe_def bitstamp_subscribe_def binance_enter_loop_def
      bitstamp_enter_loop_def task_new_def bitstamp_channel_def example_lowercase)

definition example_binance_snapshot :: contributor_snapshot where
  "example_binance_snapshot = push_bid 3 (push_bid 3 (snapshot_new 3 Binance 7)
     0x4059000000000000 0x3FF0000000000000) 0x4058C00000000000 0x3FF0000000000000"

definition example_bitstamp_snapshot :: contributor_snapshot where
  "example_bitstamp_snapshot = push_bid 3 (push_bid 3 (snapshot_new 3 Bitstamp 7)
     0x4059000000000000 0x3FF0000000000000) 0x4058C00000000000 0x3FF0000000000000"

definition binance_script :: "feed_event list" where
  "binance_script = [ConnectDone (Inr ()), PingTick (Inr ()), ReadNext (Some (Inr (WsText ''book''))) 7]"

definition bitstamp_script :: "feed_event list" where
  "bitstamp_script = [ConnectDone (Inr ()), SubscribeDone (Inr ()),
     ReadNext (Some (Inr (WsText ''subscribed''))) 6, ReadNext (Some (Inr (WsText ''data''))) 7]"

lemma example_binance_run:
  "run_task (binance_step example_json 3) \<lparr>ft_key = ''ethbtc'',
      ft_phase = Connecting (binance_url ''ethbtc''), ft_address = '''', ft_feed = feed_new, ft_sent = []\<rparr> binance_script =
    Some \<lparr>ft_key = ''ethbtc'', ft_phase = Streaming,
      ft_address = binance_url ''ethbtc'', ft_feed = \<lparr>latest = Some (Inr example_binance_snapshot), watch_version = 1\<rparr>, ft_sent = [FramePing]\<rparr>"
  by (simp add: binance_script_def binance_step_def streaming_step_def binance_on_text_def
      nanos_now_def example_binance_parse store_latest_def feed_new_def example_binance_snapshot_def)

lemma example_ignored:
  "parse_bitstamp_update example_json 3 ''subscribed'' ch t = okP None"
  by (simp add: bitstamp_parse_alt js_parse_def bitstamp_relevant_def unwrap_or_def)

lemma example_bitstamp_run:
  "run_task (bitstamp_step example_json id 3) \<lparr>ft_key = ''order_book_ethbtc'',
      ft_phase = Connecting ''wss://ws.bitstamp.net'', ft_address = '''', ft_feed = feed_new, ft_sent = []\<rparr> bitstamp_script =
    Some \<lparr>ft_key = ''order_book_ethbtc'', ft_phase = Streaming,
      ft_address = ''wss://ws.bitstamp.net'', ft_feed = \<lparr>latest = Some (Inr example_bitstamp_snapshot), watch_version = 1\<rparr>,
      ft_sent = [FrameText ''order_book_ethbtc'']\<rparr>"
  by (simp add: bitstamp_script_def bitstamp_step_def streaming_step_def bitstamp_on_text_def
      nanos_now_def example_ignored example_bitstamp_parse store_latest_def feed_new_def
      example_bitstamp_snapshot_def)

text \<open>A snapshot that a reader finds in a Binance feed was parsed from a text message of this
  connection history, carries the clock of its arrival, and is well formed for the Binance slot with
  positive amounts only.\<close>

theorem binance_feed_latest:
  assumes "binance_subscribe ul n symbol = okP t0"
    and "run_task (binance_step S n) t0 evs = Some t"
    and "latest (ft_feed t) = Some (Inr s)"
  shows "\<exists>m clock. ReadNext (Some (Inr (WsText m))) clock \<in> set evs \<and> 0 \<le> clock \<and>
    binance_parse_orderbook_update S n m (word_of_int clock) = okP s \<and>
    accepted_snapshot n Binance (word_of_int clock) s"
  using binance_feed.run_accepted [OF assms(2) binance_started [OF assms(1)] assms(3)]
  by (auto simp: binance_parser_def tryP_eq_ok)

theorem binance_feed_latest_witness:
  "\<exists>m clock. ReadNext (Some (Inr (WsText m))) clock \<in> set binance_script \<and> 0 \<le> clock \<and>
    binance_parse_orderbook_update example_json 3 m (word_of_int clock) = okP example_binance_snapshot \<and>
    accepted_snapshot 3 Binance (word_of_int clock) example_binance_snapshot"
  using binance_feed_latest [OF example_subscribe(1) example_binance_run] by simp

text \<open>The same for Bitstamp: the snapshot comes from a message that is a \<open>data\<close> event on the
  channel of the lower case symbol.\<close>

theorem bitstamp_feed_latest:
  assumes "bitstamp_subscribe ul n symbol = okP t0"
    and "run_task (bitstamp_step S sub_msg n) t0 evs = Some t"
    and "latest (ft_feed t) = Some (Inr s)"
  shows "n \<le> 10 \<and> (\<exists>m clock json. ReadNext (Some (Inr (WsText m))) clock \<in> set evs \<and> 0 \<le> clock \<and>
    js_from_str S m = Inr json \<and>
    bitstamp_relevant S (''order_book_'' @ to_lowercase ul symbol) json \<and>
    accepted_snapshot n Bitstamp (word_of_int clock) s)"
proof -
  have "n \<le> 10" using assms(1) by (auto simp: bitstamp_subscribe_def split: if_splits)
  then show ?thesis
    using bitstamp_feed.run_accepted [OF assms(2) bitstamp_started [OF assms(1)] assms(3)]
    by (fastforce simp: bitstamp_parser_def bitstamp_channel_def dest: bitstamp_parse_ok)
qed

theorem bitstamp_feed_latest_witness:
  "\<exists>m clock json. ReadNext (Some (Inr (WsText m))) clock \<in> set bitstamp_script \<and> 0 \<le> clock \<and>
    js_from_str example_json m = Inr json \<and>
    bitstamp_relevant example_json (''order_book_'' @ to_lowercase id ''ETHBTC'') json \<and>
    accepted_snapshot 3 Bitstamp (word_of_int clock) example_bitstamp_snapshot"
  using bitstamp_feed_latest [OF example_subscribe(2) example_bitstamp_run] by simp

text \<open>While a Binance or Bitstamp task backs off after a failure its feed shows the error, not
  the snapshot it had before.\<close>

theorem backing_off_shows_error:
  assumes "binance_subscribe ul n symbol = okP b0" "run_task (binance_step S n) b0 evs = Some b"
    and "bitstamp_subscribe ul n symbol = okP c0" "run_task (bitstamp_step S sub_msg n) c0 evs' = Some c"
  shows "(ft_phase b = Sleeping \<longrightarrow> (\<exists>e. latest (ft_feed b) = Some (Inl e))) \<and>
    (ft_phase c = Sleeping \<longrightarrow> (\<exists>e. latest (ft_feed c) = Some (Inl e)))"
  using binance_feed.run_sleeping [OF assms(2) binance_started [OF assms(1)]]
    bitstamp_feed.run_sleeping [OF assms(4) bitstamp_started [OF assms(3)]]
  by blast

lemma example_failed_runs:
  "run_task (binance_step example_json 3) \<lparr>ft_key = ''ethbtc'',
      ft_phase = Connecting (binance_url ''ethbtc''), ft_address = '''', ft_feed = feed_new, ft_sent = []\<rparr>
      [ConnectDone (Inr ()), ReadNext None 1] =
    Some \<lparr>ft_key = ''ethbtc'', ft_phase = Sleeping,
      ft_address = binance_url ''ethbtc'', ft_feed = \<lparr>latest = Some (Inl WebSocketDisconnected), watch_version = 1\<rparr>, ft_sent = []\<rparr>"
  "run_task (bitstamp_step example_json id 3) \<lparr>ft_key = ''order_book_ethbtc'',
      ft_phase = Connecting ''wss://ws.bitstamp.net'', ft_address = '''', ft_feed = feed_new, ft_sent = []\<rparr>
      [ConnectDone (Inl ''refused'')] =
    Some \<lparr>ft_key = ''order_book_ethbtc'', ft_phase = Sleeping,
      ft_address = '''', ft_feed = \<lparr>latest = Some (Inl (ConnectError ''refused'')), watch_version = 1\<rparr>, ft_sent = []\<rparr>"
  by (simp_all add: binance_step_def bitstamp_step_def streaming_step_def store_latest_def feed_new_def)

theorem backing_off_shows_error_witness:
  "\<exists>b c. run_task (binance_step example_json 3) \<lparr>ft_key = ''ethbtc'',
      ft_phase = Connecting (binance_url ''ethbtc''), ft_address = '''', ft_feed = feed_new, ft_sent = []\<rparr>
      [ConnectDone (Inr ()), ReadNext None 1] = Some b \<and> ft_phase b = Sleeping \<and>
    run_task (bitstamp_step example_json id 3) \<lparr>ft_key = ''order_book_ethbtc'',
      ft_phase = Connecting ''wss://ws.bitstamp.net'', ft_address = '''', ft_feed = feed_new, ft_sent = []\<rparr>
      [ConnectDone (Inl ''refused'')] = Some c \<and> ft_phase c = Sleeping \<and>
    (\<exists>e. latest (ft_feed b) = Some (Inl e)) \<and> (\<exists>e. latest (ft_feed c) = Some (Inl e))"
  using backing_off_shows_error [OF example_subscribe(1) example_failed_runs(1)
      example_subscribe(2) example_failed_runs(2)] example_failed_runs
  by simp

text \<open>No change of a feed goes unnoticed: a run of the task only raises the version of its watch
  channel, and a reader that finds the version it has already seen finds the same feed.\<close>

theorem feed_changes_are_notified:
  assumes "run_task (binance_step S n) b evs = Some b'"
    and "run_task (bitstamp_step S sub_msg n) c evs' = Some c'"
  shows "watch_version (ft_feed b) \<le> watch_version (ft_feed b') \<and>
    watch_version (ft_feed c) \<le> watch_version (ft_feed c') \<and>
    (watch_version (ft_feed b') = watch_version (ft_feed b) \<longrightarrow> latest (ft_feed b') = latest (ft_feed b)) \<and>
    (watch_version (ft_feed c') = watch_version (ft_feed c) \<longrightarrow> latest (ft_feed c') = latest (ft_feed c))"
  using binance_cell.run_version [OF assms(1)] bitstamp_cell.run_version [OF assms(2)]
  by blast

theorem feed_changes_are_notified_witness:
  "\<exists>b c. run_task (binance_step example_json 3) \<lparr>ft_key = ''ethbtc'',
      ft_phase = Connecting (binance_url ''ethbtc''), ft_address = '''', ft_feed = feed_new, ft_sent = []\<rparr> binance_script = Some b \<and>
    run_task (bitstamp_step example_json id 3) \<lparr>ft_key = ''order_book_ethbtc'',
      ft_phase = Connecting ''wss://ws.bitstamp.net'', ft_address = '''', ft_feed = feed_new, ft_sent = []\<rparr> bitstamp_script = Some c \<and>
    0 \<le> watch_version (ft_feed b) \<and> watch_version (ft_feed c) = 1"
  using feed_changes_are_notified [OF example_binance_run example_bitstamp_run]
    example_binance_run example_bitstamp_run
  by simp

text \<open>A message on which the parser panics kills the Binance task: the feed keeps its old
  snapshot without an error or a notification, and no later event, the shutdown signal included, is
  handled.\<close>

theorem binance_task_dies_silently:
  assumes "ft_phase t = Streaming" "0 \<le> clock"
    and "binance_parse_orderbook_update S n m (word_of_int clock) = Inl p"
  shows "binance_step S n t (ReadNext (Some (Inr (WsText m))) clock) = Some (t\<lparr>ft_phase := Died p\<rparr>) \<and>
    run_task (binance_step S n) (t\<lparr>ft_phase := Died p\<rparr>) (ev # evs) = None"
  using assms binance_feed.step_ended [of "t\<lparr>ft_phase := Died p\<rparr>" p S n ev]
  by (simp add: binance_step_def streaming_step_def binance_on_text_def nanos_now_def)

lemma example_bad_entry:
  "binance_parse_orderbook_update example_json 3 ''bad entry'' (word_of_int 7) = Inl UnwrapNone"
  by (simp add: binance_parse_alt js_parse_def json_side_def load_levels_def binance_entry_def)

theorem binance_task_dies_silently_witness:
  "binance_step example_json 3 example_task (ReadNext (Some (Inr (WsText ''bad entry''))) 7) =
     Some (example_task\<lparr>ft_phase := Died UnwrapNone\<rparr>) \<and>
   run_task (binance_step example_json 3) (example_task\<lparr>ft_phase := Died UnwrapNone\<rparr>)
     [BackoffElapsed, ShutdownRecv] = None"
  using binance_task_dies_silently [OF _ _ example_bad_entry, of example_task BackoffElapsed "[ShutdownRecv]"]
  by (simp add: example_task_def)

text \<open>C24: the Bitstamp task never panics, whatever the exchange sends and however the connection
  behaves, as long as the clock is past the epoch.\<close>

theorem bitstamp_task_never_panics:
  assumes "bitstamp_subscribe ul n symbol = okP t0" "list_all clock_after_epoch evs"
    and "run_task (bitstamp_step S sub_msg n) t0 evs = Some t"
  shows "ft_phase t \<noteq> Died p"
  using assms(3,2)
proof (induction rule: run_task_induct)
  case start
  then show ?case using assms(1)
    by (auto simp: bitstamp_subscribe_def bitstamp_enter_loop_def split: if_splits)
next
  case (step evs t ev t')
  then show ?case using bitstamp_step_alive [OF step(2)] by auto
qed

theorem bitstamp_task_never_panics_witness:
  "\<exists>t. run_task (bitstamp_step example_json id 3) \<lparr>ft_key = ''order_book_ethbtc'',
      ft_phase = Connecting ''wss://ws.bitstamp.net'', ft_address = '''', ft_feed = feed_new, ft_sent = []\<rparr> bitstamp_script =
    Some t \<and> ft_phase t \<noteq> Died UnwrapNone"
  using bitstamp_task_never_panics [OF example_subscribe(2) _ example_bitstamp_run] example_bitstamp_run
  by (simp add: bitstamp_script_def)

subsection \<open>Failures\<close>

text \<open>What can fail between two awaits of the Binance task, and the error it leaves: connecting, reading,
  sending a ping, and parsing a message.\<close>

fun binance_failure ::
  "'j serde_json \<Rightarrow> nat \<Rightarrow> phase \<Rightarrow> feed_event \<Rightarrow> feed_error option" where
  "binance_failure S n (Connecting url) (ConnectDone (Inl e)) = Some (ConnectError e)"
| "binance_failure S n Streaming (ReadNext None clock) = Some WebSocketDisconnected"
| "binance_failure S n Streaming (ReadNext (Some (Inl e)) clock) = Some (WebSocketError e)"
| "binance_failure S n Streaming (PingTick (Inl e)) = Some (WebSocketPingError e)"
| "binance_failure S n Streaming (ReadNext (Some (Inr (WsText m))) clock) =
     (if clock < 0 then None
      else case binance_parse_orderbook_update S n m (word_of_int clock) of
        Inr (Inl e) \<Rightarrow> Some e
      | _ \<Rightarrow> None)"
| "binance_failure S n ph ev = None"

lemma binance_failure_step:
  assumes "binance_failure S n ph ev = Some e" "ft_phase t = ph"
  shows "binance_step S n t ev = Some (t\<lparr>ft_phase := Sleeping, ft_feed := store_latest (Inl e) (ft_feed t)\<rparr>)"
  using assms
  by (induction S n ph ev rule: binance_failure.induct)
    (auto simp: binance_step_def streaming_step_def binance_on_text_def nanos_now_def
      split: if_splits sum.splits)

lemma streaming_stops:
  assumes "streaming_step on_text t ev = Some t'" "ft_phase t = Streaming" "ft_phase t' = Stopped"
  shows "ev = ShutdownRecv"
  using assms
  by (cases "(on_text, ft_feed t, ev)" rule: feed_arms.cases)
    (auto simp: streaming_step_def split: sum.splits)

lemma binance_stops:
  assumes "binance_step S n t ev = Some t'" "ft_phase t' = Stopped"
  shows "ev = ShutdownRecv"
proof (cases "ft_phase t")
  case Streaming
  then have "streaming_step (binance_on_text S n) t ev = Some t'" using assms(1) by (simp add: binance_step_def)
  then show ?thesis by (rule streaming_stops [OF _ Streaming assms(2)])
next
  case Sleeping
  then show ?thesis using assms
    by (cases ev) (auto simp: binance_step_def binance_enter_loop_def split: if_splits)
qed (use assms in \<open>auto simp: binance_step_def split: feed_event.splits sum.splits\<close>)

text \<open>C23: every failure of Binance leads to the back off: when connecting, reading, sending a ping or
  parsing a message fails, the task stores the error in its feed with a notification and sleeps; when the
  back off has elapsed it connects again to the address of its symbol. Nothing but the shutdown signal
  ever stops the task; the signal ends it from the back off and from the stream, but is not awaited
  while it connects.\<close>

theorem binance_reconnects_or_stops:
  assumes "n \<le> 20" "binance_failure S n (ft_phase t) ev = Some e"
  shows "(\<exists>t'. binance_step S n t ev = Some t' \<and> ft_phase t' = Sleeping \<and>
      ft_feed t' = \<lparr>latest = Some (Inl e), watch_version = watch_version (ft_feed t) + 1\<rparr> \<and>
      binance_step S n t' BackoffElapsed = Some (t'\<lparr>ft_phase :=
        Connecting (''wss://stream.binance.com:9443/ws/'' @ ft_key t @ ''@depth20@100ms'')\<rparr>) \<and>
      binance_step S n t' ShutdownRecv = Some (t'\<lparr>ft_phase := Stopped\<rparr>)) \<and>
    (binance_step S n u ev' = Some u' \<longrightarrow> ft_phase u' = Stopped \<longrightarrow> ev' = ShutdownRecv) \<and>
    (ft_phase u = Streaming \<longrightarrow> binance_step S n u ShutdownRecv = Some (u\<lparr>ft_phase := Stopped\<rparr>)) \<and>
    binance_step S n (u\<lparr>ft_phase := Connecting url\<rparr>) ShutdownRecv = None"
proof -
  let ?t = "t\<lparr>ft_phase := Sleeping, ft_feed := store_latest (Inl e) (ft_feed t)\<rparr>"
  have "binance_step S n ?t BackoffElapsed = Some (?t\<lparr>ft_phase := Connecting (binance_url (ft_key t))\<rparr>)"
    using assms(1) by (simp add: binance_step_def binance_enter_loop_def)
  then have "\<exists>t'. binance_step S n t ev = Some t' \<and> ft_phase t' = Sleeping \<and>
      ft_feed t' = \<lparr>latest = Some (Inl e), watch_version = watch_version (ft_feed t) + 1\<rparr> \<and>
      binance_step S n t' BackoffElapsed = Some (t'\<lparr>ft_phase :=
        Connecting (''wss://stream.binance.com:9443/ws/'' @ ft_key t @ ''@depth20@100ms'')\<rparr>) \<and>
      binance_step S n t' ShutdownRecv = Some (t'\<lparr>ft_phase := Stopped\<rparr>)"
    using binance_failure_step [OF assms(2) refl]
    by (intro exI [of _ ?t]) (simp add: binance_url_def store_latest_def binance_step_def)
  moreover have "ft_phase u = Streaming \<longrightarrow> binance_step S n u ShutdownRecv = Some (u\<lparr>ft_phase := Stopped\<rparr>)"
    by (simp add: binance_step_def streaming_step_def)
  moreover have "binance_step S n (u\<lparr>ft_phase := Connecting url\<rparr>) ShutdownRecv = None"
    by (simp add: binance_step_def)
  ultimately show ?thesis using binance_stops by blast
qed

theorem binance_reconnects_or_stops_witness:
  "\<exists>t'. binance_step example_json 3 (task_new ''ethbtc''\<lparr>ft_phase := Connecting (binance_url ''ethbtc'')\<rparr>)
      (ConnectDone (Inl ''refused'')) = Some t' \<and>
    ft_phase t' = Sleeping \<and> latest (ft_feed t') = Some (Inl (ConnectError ''refused'')) \<and>
    binance_step example_json 3 t' BackoffElapsed =
      Some (t'\<lparr>ft_phase := Connecting ''wss://stream.binance.com:9443/ws/ethbtc@depth20@100ms''\<rparr>)"
proof -
  let ?t = "task_new ''ethbtc''\<lparr>ft_phase := Connecting (binance_url ''ethbtc'')\<rparr>"
  have "binance_failure example_json 3 (ft_phase ?t) (ConnectDone (Inl ''refused'')) =
      Some (ConnectError ''refused'')"
    by simp
  from conjunct1 [OF binance_reconnects_or_stops [OF _ this]] show ?thesis
    by (auto simp: task_new_def)
qed

end
