(* ===== verification/Publishers.thy ===== *)
theory Publishers
  imports Combined_Properties Watch_Channels
begin

section \<open>The publisher of a feed (aggserver/src/service/publisher.rs)\<close>

text \<open>
  A publisher owns a bounded channel of snapshots, the latest result, its watch channel and one
  task. The state holds what the task captured (\<open>pb_phase\<close> carries the combined summary of
  \<open>local_run\<close>) and what it shares. \<open>tokio\<close> gives the channels: an mpsc channel is the list of the
  messages in it, sending to it waits while it is full and fails once its receiver is closed; a
  broadcast channel of capacity one that has one receiver is a flag; a watch channel is the number
  of sends, since its values are units.

  \<open>publisher_step\<close> is one turn of the \<open>select!\<close> of \<open>local_run\<close>, and what follows the loop when it
  is left. When both branches are ready either may be taken. The publisher keeps a sender of its
  own channel, so \<open>recv\<close> never yields \<open>None\<close>.
\<close>

definition BACKLOG_SIZE :: nat where "BACKLOG_SIZE = 100"

datatype summary_error = SummaryShutdown

type_synonym summary_result = "summary_error + summary option"

datatype publisher_phase =
    Running combined_summary
  | Finished                \<comment> \<open>\<open>local_run\<close> has returned and the receiver is closed\<close>
  | Panicked panic

record publisher =
  pb_latest :: summary_result
  pb_version :: nat
  pb_queue :: "contributor_snapshot list"
  pb_shutdown :: bool         \<comment> \<open>a shutdown message is pending\<close>
  pb_phase :: publisher_phase
  pb_handle :: bool           \<comment> \<open>the guard task has stored the join handle\<close>

definition publisher_start :: "nat \<Rightarrow> publisher" where
  "publisher_start n =
     \<lparr>pb_latest = Inr None, pb_version = 0, pb_queue = [], pb_shutdown = False,
      pb_phase = Running (combined_new n), pb_handle = False\<rparr>"

definition latest_summary :: "publisher \<Rightarrow> summary_result" where
  "latest_summary pb = pb_latest pb"

definition publish_result :: "summary_result \<Rightarrow> publisher \<Rightarrow> publisher" where
  "publish_result r pb = pb\<lparr>pb_latest := r, pb_version := pb_version pb + 1\<rparr>"

datatype publisher_event = RecvSnapshot | RecvShutdown

fun publisher_step :: "av_push \<Rightarrow> nat \<Rightarrow> publisher \<Rightarrow> publisher_event \<Rightarrow> publisher option" where
  "publisher_step av_push n pb RecvSnapshot =
     (case (pb_phase pb, pb_queue pb) of
        (Running combined, snapshot # rest) \<Rightarrow>
          (let pb' = pb\<lparr>pb_queue := rest\<rparr>
           in Some (case bindP (update_snapshot combined snapshot) (\<lambda>combined'.
                      bindP (to_proto av_push n combined') (\<lambda>summary. Inr (combined', summary))) of
                Inl p \<Rightarrow> pb'\<lparr>pb_phase := Panicked p, pb_queue := []\<rparr>
              | Inr (combined', summary) \<Rightarrow>
                  publish_result (Inr (Some summary)) (pb'\<lparr>pb_phase := Running combined'\<rparr>)))
      | _ \<Rightarrow> None)"
| "publisher_step av_push n pb RecvShutdown =
     (case pb_phase pb of
        Running combined \<Rightarrow>
          if pb_shutdown pb
          then Some (publish_result (Inl SummaryShutdown)
            (pb\<lparr>pb_shutdown := False, pb_phase := Finished, pb_queue := []\<rparr>))
          else None
      | _ \<Rightarrow> None)"

text \<open>Sending on a clone of \<open>source_tx\<close>: \<open>None\<close> while the channel is full.\<close>

definition receiver_open :: "publisher \<Rightarrow> bool" where
  "receiver_open pb = (case pb_phase pb of Running _ \<Rightarrow> True | _ \<Rightarrow> False)"

definition source_send ::
  "publisher \<Rightarrow> contributor_snapshot \<Rightarrow> (contributor_snapshot + publisher) option" where
  "source_send pb s =
     (if \<not> receiver_open pb then Some (Inl s)
      else if length (pb_queue pb) < BACKLOG_SIZE
      then Some (Inr (pb\<lparr>pb_queue := pb_queue pb @ [s]\<rparr>))
      else None)"

definition publisher_close :: "publisher \<Rightarrow> publisher" where
  "publisher_close pb = (if receiver_open pb then pb\<lparr>pb_shutdown := True\<rparr> else pb)"

definition store_handle :: "publisher \<Rightarrow> publisher" where
  "store_handle pb = pb\<lparr>pb_handle := True\<rparr>"

text \<open>\<open>wait_complete\<close>: \<open>None\<close> while it waits; it takes the handle, and it waits only for a handle
  that the guard task has stored already.\<close>

definition wait_complete :: "publisher \<Rightarrow> ((panic + unit) \<times> publisher) option" where
  "wait_complete pb =
     (if pb_handle pb
      then case pb_phase pb of
             Running _ \<Rightarrow> None
           | Finished \<Rightarrow> Some (Inr (), pb\<lparr>pb_handle := False\<rparr>)
           | Panicked p \<Rightarrow> Some (Inl p, pb\<lparr>pb_handle := False\<rparr>)
      else Some (Inr (), pb))"

subsection \<open>Runs\<close>

text \<open>What can happen to a publisher, as a relation that also tells which snapshots were sent.\<close>

inductive publisher_run ::
  "av_push \<Rightarrow> nat \<Rightarrow> contributor_snapshot list \<Rightarrow> contributor_snapshot list \<Rightarrow> publisher \<Rightarrow> bool"
  for av_push :: av_push and n :: nat where
  start: "publisher_run av_push n [] [] (publisher_start n)"
| send: "publisher_run av_push n sent got pb \<Longrightarrow> source_send pb s = Some (Inr pb') \<Longrightarrow>
    publisher_run av_push n (sent @ [s]) got pb'"
| recv: "publisher_run av_push n sent got pb \<Longrightarrow> pb_queue pb = s # q \<Longrightarrow>
    publisher_step av_push n pb RecvSnapshot = Some pb' \<Longrightarrow>
    publisher_run av_push n sent (got @ [s]) pb'"
| shutdown: "publisher_run av_push n sent got pb \<Longrightarrow>
    publisher_step av_push n pb RecvShutdown = Some pb' \<Longrightarrow> publisher_run av_push n sent got pb'"
| close: "publisher_run av_push n sent got pb \<Longrightarrow> publisher_run av_push n sent got (publisher_close pb)"
| guard: "publisher_run av_push n sent got pb \<Longrightarrow> publisher_run av_push n sent got (store_handle pb)"
| wait: "publisher_run av_push n sent got pb \<Longrightarrow> wait_complete pb = Some (r, pb') \<Longrightarrow>
    publisher_run av_push n sent got pb'"

subsection \<open>The book a publisher stands for\<close>

text \<open>The abstract specification: the last snapshot of each source, the default one before the first.\<close>

definition last_of :: "nat \<Rightarrow> contributor_snapshot list \<Rightarrow> source_id \<Rightarrow> contributor_snapshot" where
  "last_of n got src =
     (case find (\<lambda>s. cs_source_id s = src) (rev got) of None \<Rightarrow> snapshot_default n | Some s \<Rightarrow> s)"

definition book_of :: "nat \<Rightarrow> contributor_snapshot list \<Rightarrow> combined_summary" where
  "book_of n got = \<lparr>co_sources = [last_of n got Bitstamp, last_of n got Binance]\<rparr>"

lemma last_of_simps [simp]:
  "last_of n [] src = snapshot_default n"
  "last_of n (got @ [s]) src = (if cs_source_id s = src then s else last_of n got src)"
  by (simp_all add: last_of_def)

lemma slot_book_of [simp]: "slot (book_of n got) src = last_of n got src"
  by (cases src) (simp_all add: slot_def book_of_def)

lemma last_of_in: "last_of n got src \<in> insert (snapshot_default n) (set got)"
  by (auto simp: last_of_def find_Some_iff split: option.splits) (metis nth_mem length_rev set_rev)

lemma book_of_sources:
  "s \<in> set (co_sources (book_of n got)) \<Longrightarrow> s \<in> insert (snapshot_default n) (set got)"
  using last_of_in by (auto simp: book_of_def)

lemma book_of_wf:
  assumes "\<forall>s \<in> set got. snapshot_wf n s"
  shows "combined_wf n (book_of n got)"
  using assms last_of_in [of n got Bitstamp] last_of_in [of n got Binance]
  by (auto simp: combined_wf_def book_of_def NUM_SOURCES_def)

lemma update_book_of: "update_snapshot (book_of n got) s = Inr (book_of n (got @ [s]))"
  by (cases "cs_source_id s") (simp_all add: update_snapshot_def book_of_def)

lemma combined_new_book_of: "combined_new n = book_of n []"
  by (simp add: combined_new_def book_of_def NUM_SOURCES_def numeral_2_eq_2)

subsection \<open>The publisher implements its specification\<close>

text \<open>What the latest result is when the snapshots \<open>got\<close> have been merged.\<close>

definition result_of :: "av_push \<Rightarrow> nat \<Rightarrow> contributor_snapshot list \<Rightarrow> summary_result \<Rightarrow> bool" where
  "result_of av_push n got r \<longleftrightarrow>
     (if got = [] then r = Inr None
      else \<exists>sm. r = Inr (Some sm) \<and> to_proto av_push n (book_of n got) = Inr sm)"

definition publisher_implements ::
  "av_push \<Rightarrow> nat \<Rightarrow> contributor_snapshot list \<Rightarrow> contributor_snapshot list \<Rightarrow> publisher \<Rightarrow> bool" where
  "publisher_implements av_push n sent got pb \<longleftrightarrow>
     (case pb_phase pb of
        Running c \<Rightarrow> c = book_of n got \<and> sent = got @ pb_queue pb \<and>
          result_of av_push n got (pb_latest pb)
      | Finished \<Rightarrow> pb_latest pb = Inl SummaryShutdown \<and> pb_queue pb = []
      | Panicked p \<Rightarrow> pb_queue pb = [] \<and>
          (\<exists>before s. got = before @ [s] \<and> result_of av_push n before (pb_latest pb) \<and>
            to_proto av_push n (book_of n got) = Inl p)) \<and>
     (\<exists>rest. sent = got @ rest)"

lemma implements_recv:
  assumes "publisher_implements av_push n sent got pb" "pb_queue pb = s # q"
    and "publisher_step av_push n pb RecvSnapshot = Some pb'"
  shows "publisher_implements av_push n sent (got @ [s]) pb'"
proof -
  obtain c where c: "pb_phase pb = Running c"
    using assms(3) by (auto split: publisher_phase.splits list.splits)
  then have inv: "c = book_of n got" "sent = got @ s # q" "result_of av_push n got (pb_latest pb)"
    using assms(1,2) by (simp_all add: publisher_implements_def)
  show ?thesis
  proof (cases "to_proto av_push n (book_of n (got @ [s]))")
    case (Inl p)
    then have "pb' = pb\<lparr>pb_phase := Panicked p, pb_queue := []\<rparr>"
      using assms(2,3) c inv(1) by (auto simp: update_book_of)
    then show ?thesis using inv Inl by (auto simp: publisher_implements_def)
  next
    case (Inr sm)
    then have "pb' = publish_result (Inr (Some sm))
        (pb\<lparr>pb_queue := q, pb_phase := Running (book_of n (got @ [s]))\<rparr>)"
      using assms(2,3) c inv(1) by (simp add: update_book_of)
    then show ?thesis using inv Inr
      by (auto simp: publisher_implements_def publish_result_def result_of_def)
  qed
qed

lemma publisher_run_implements:
  assumes "publisher_run av_push n sent got pb"
  shows "publisher_implements av_push n sent got pb"
  using assms
proof (induction rule: publisher_run.induct)
  case start
  then show ?case
    by (simp add: publisher_implements_def publisher_start_def result_of_def combined_new_book_of)
next
  case (send sent got pb s pb')
  then show ?case
    by (auto simp: publisher_implements_def source_send_def receiver_open_def
        split: if_splits publisher_phase.splits)
next
  case (recv sent got pb s q pb')
  then show ?case by (intro implements_recv)
next
  case (shutdown sent got pb pb')
  then show ?case
    by (auto simp: publisher_implements_def publish_result_def split: if_splits publisher_phase.splits)
next
  case (close sent got pb)
  then show ?case
    by (simp add: publisher_implements_def publisher_close_def split: publisher_phase.splits)
next
  case (guard sent got pb)
  then show ?case by (simp add: publisher_implements_def store_handle_def split: publisher_phase.splits)
next
  case (wait sent got pb r pb')
  then show ?case
    by (auto simp: publisher_implements_def wait_complete_def split: if_splits publisher_phase.splits)
qed

interpretation publisher_cell: watched "publisher_step av_push n" pb_latest pb_version
  for av_push n
proof
  fix pb ev pb'
  assume "publisher_step av_push n pb ev = Some pb'"
  then show "pb_version pb' = pb_version pb \<and> pb_latest pb' = pb_latest pb \<or>
      pb_version pb < pb_version pb'"
    by (cases ev) (auto simp: publish_result_def Let_def split: publisher_phase.splits list.splits
        sum.splits if_splits)
qed

lemma publisher_ended:
  "\<not> receiver_open pb \<Longrightarrow> publisher_step av_push n pb ev = None"
  by (cases ev) (auto simp: receiver_open_def split: publisher_phase.splits)

text \<open>Snapshots as the parsers make them never make a comparison of amounts panic.\<close>

lemma book_of_numbers:
  assumes "\<forall>s \<in> set got. amounts_are_numbers s"
  shows "\<not> nan_in_group n (book_of n got)"
proof (rule numbers_no_nan_group)
  have "amounts_are_numbers (snapshot_default n)" by (simp add: amounts_are_numbers_def)
  then show "\<forall>s \<in> set (co_sources (book_of n got)). amounts_are_numbers s"
    using assms book_of_sources by blast
qed

lemma run_panic_cause:
  assumes "publisher_run av_push n sent got pb" "pb_phase pb = Panicked p"
    and "arrayvec_push_spec av_push" "\<forall>s \<in> set got. snapshot_wf n s \<and> amounts_are_numbers s"
  shows "p = CapacityExceeded \<and> too_many_levels n (book_of n got) \<and>
    latest_summary pb \<noteq> Inl SummaryShutdown"
proof -
  have wf: "combined_wf n (book_of n got)" using assms(4) by (intro book_of_wf) simp
  have nan: "\<not> nan_in_group n (book_of n got)" using assms(4) by (intro book_of_numbers) simp
  have "to_proto av_push n (book_of n got) = Inl p" "latest_summary pb \<noteq> Inl SummaryShutdown"
    using publisher_run_implements [OF assms(1)] assms(2)
    by (auto simp: publisher_implements_def result_of_def latest_summary_def split: if_splits)
  then show ?thesis using to_proto_panic_iff [OF wf assms(3)] nan by simp
qed

lemma run_published:
  assumes "publisher_run av_push n sent got pb" "latest_summary pb = Inr (Some sm)"
  shows "\<exists>merged rest. sent = merged @ rest \<and> merged \<noteq> [] \<and> to_proto av_push n (book_of n merged) = Inr sm"
proof -
  have inv: "publisher_implements av_push n sent got pb"
    by (rule publisher_run_implements [OF assms(1)])
  then obtain rest where rest: "sent = got @ rest" by (auto simp: publisher_implements_def)
  show ?thesis
  proof (cases "pb_phase pb")
    case (Running c)
    then have "got \<noteq> [] \<and> to_proto av_push n (book_of n got) = Inr sm"
      using inv assms(2)
      by (auto simp: publisher_implements_def result_of_def latest_summary_def split: if_splits)
    then show ?thesis using rest by blast
  next
    case (Panicked p)
    then obtain before s where "got = before @ [s]"
      "before \<noteq> [] \<and> to_proto av_push n (book_of n before) = Inr sm"
      using inv assms(2)
      by (auto simp: publisher_implements_def result_of_def latest_summary_def split: if_splits)
    then show ?thesis using rest by (metis append_assoc)
  next
    case Finished
    then show ?thesis using inv assms(2) by (simp add: publisher_implements_def latest_summary_def)
  qed
qed

lemma run_got_sent:
  "publisher_run av_push n sent got pb \<Longrightarrow> set got \<subseteq> set sent"
  by (drule publisher_run_implements) (auto simp: publisher_implements_def)

subsection \<open>Properties\<close>

lemma run_sends:
  assumes "publisher_run av_push n sent got pb" "receiver_open pb"
    and "length (pb_queue pb) + length ss \<le> BACKLOG_SIZE"
  shows "publisher_run av_push n (sent @ ss) got (pb\<lparr>pb_queue := pb_queue pb @ ss\<rparr>)"
  using assms(3)
proof (induction ss rule: rev_induct)
  case (snoc s ss)
  let ?pb = "pb\<lparr>pb_queue := pb_queue pb @ ss\<rparr>"
  have "source_send ?pb s = Some (Inr (pb\<lparr>pb_queue := pb_queue pb @ ss @ [s]\<rparr>))"
    using assms(2) snoc.prems by (simp add: source_send_def receiver_open_def)
  then show ?case
    using publisher_run.send [of av_push n "sent @ ss" got ?pb s] snoc by simp
qed (use assms(1) in simp)

lemma run_receives:
  assumes "publisher_run av_push n sent got pb" "receiver_open pb" "pb_queue pb = s # q"
  shows "\<exists>pb'. publisher_run av_push n sent (got @ [s]) pb' \<and>
    (case to_proto av_push n (book_of n (got @ [s])) of
       Inl p \<Rightarrow> pb_phase pb' = Panicked p
     | Inr sm \<Rightarrow> receiver_open pb' \<and> pb_queue pb' = q \<and> latest_summary pb' = Inr (Some sm))"
proof -
  have c: "pb_phase pb = Running (book_of n got)"
    using publisher_run_implements [OF assms(1)] assms(2)
    by (auto simp: publisher_implements_def receiver_open_def split: publisher_phase.splits)
  then obtain pb' where pb': "publisher_step av_push n pb RecvSnapshot = Some pb'"
    using assms(3) by (simp add: Let_def)
  have "case to_proto av_push n (book_of n (got @ [s])) of
       Inl p \<Rightarrow> pb_phase pb' = Panicked p
     | Inr sm \<Rightarrow> receiver_open pb' \<and> pb_queue pb' = q \<and> latest_summary pb' = Inr (Some sm)"
    using pb' c assms(3)
    by (auto simp: update_book_of receiver_open_def latest_summary_def publish_result_def
        split: sum.splits)
  then show ?thesis using publisher_run.recv [OF assms(1,3) pb'] by blast
qed

text \<open>Two snapshots sent to a new publisher, of which the first can be merged.\<close>

lemma run_two:
  assumes "to_proto av_push n (book_of n [s]) = Inr sm"
  shows "\<exists>pb. publisher_run av_push n [s, s'] [s, s'] pb \<and>
    (case to_proto av_push n (book_of n [s, s']) of
       Inl p \<Rightarrow> pb_phase pb = Panicked p
     | Inr sm \<Rightarrow> receiver_open pb \<and> latest_summary pb = Inr (Some sm))"
proof -
  have "publisher_run av_push n [s, s'] [] ((publisher_start n)\<lparr>pb_queue := [s, s']\<rparr>)"
    using run_sends [OF publisher_run.start [of av_push n], of "[s, s']"]
    by (simp add: publisher_start_def receiver_open_def BACKLOG_SIZE_def)
  from run_receives [OF this, of s "[s']"] assms
  obtain pb1 where pb1: "publisher_run av_push n [s, s'] [s] pb1" "receiver_open pb1"
    "pb_queue pb1 = [s']"
    by (auto simp: publisher_start_def receiver_open_def)
  from run_receives [OF this] show ?thesis by (auto split: sum.splits)
qed

lemma book_of_pair:
  assumes "cs_source_id a = Bitstamp" "cs_source_id b = Binance"
  shows "book_of n [a, b] = \<lparr>co_sources = [a, b]\<rparr>"
  using assms by (simp add: book_of_def last_of_def)

definition example_a :: contributor_snapshot where
  "example_a = co_sources (example_book 2) ! 0"

definition example_b :: contributor_snapshot where
  "example_b = co_sources (example_book 2) ! 1"

definition equal_a :: contributor_snapshot where
  "equal_a = co_sources equal_bids_book ! 0"

definition equal_b :: contributor_snapshot where
  "equal_b = co_sources equal_bids_book ! 1"

lemma example_pair:
  "book_of 2 [example_a, example_b] = example_book 2" "book_of 1 [equal_a, equal_b] = equal_bids_book"
  by code_simp+

lemma example_wf:
  "snapshot_wf 2 example_a" "snapshot_wf 2 example_b" "snapshot_wf 1 equal_a" "snapshot_wf 1 equal_b"
  "amounts_are_numbers equal_a" "amounts_are_numbers equal_b"
  by code_simp+

lemma example_first_merge:
  "\<exists>sm. to_proto list_push 2 (book_of 2 [example_a]) = Inr sm"
  "\<exists>sm. to_proto list_push 1 (book_of 1 [equal_a]) = Inr sm"
proof -
  have *: "\<not> too_many_levels 2 (book_of 2 [example_a])" "\<not> too_many_levels 1 (book_of 1 [equal_a])"
    by code_simp+
  have **: "\<forall>s \<in> set (co_sources (book_of 2 [example_a])). amounts_are_numbers s"
    "\<forall>s \<in> set (co_sources (book_of 1 [equal_a])). amounts_are_numbers s"
    by code_simp+
  show "\<exists>sm. to_proto list_push 2 (book_of 2 [example_a]) = Inr sm"
    using to_proto_outcome [OF book_of_wf list_push_spec, of "[example_a]" 2]
      * numbers_no_nan_group [OF **(1)] example_wf by auto
  show "\<exists>sm. to_proto list_push 1 (book_of 1 [equal_a]) = Inr sm"
    using to_proto_outcome [OF book_of_wf list_push_spec, of "[equal_a]" 1]
      * numbers_no_nan_group [OF **(2)] example_wf by auto
qed

lemma example_publisher_run:
  "\<exists>pb. publisher_run list_push 2 [example_a, example_b] [example_a, example_b] pb \<and>
    receiver_open pb \<and> latest_summary pb = Inr (Some example_summary)"
  using example_first_merge(1) run_two [of list_push 2 example_a _ example_b]
  by (auto simp: example_pair example_to_proto)

lemma equal_bids_run:
  "\<exists>pb. publisher_run list_push 1 [equal_a, equal_b] [equal_a, equal_b] pb \<and>
    pb_phase pb = Panicked CapacityExceeded"
proof -
  have "too_many_levels 1 equal_bids_book" "combined_wf 1 equal_bids_book" by code_simp+
  then have "to_proto list_push 1 equal_bids_book = Inl CapacityExceeded"
    using to_proto_outcome [OF _ list_push_spec] by simp
  then show ?thesis
    using example_first_merge(2) run_two [of list_push 1 equal_a _ equal_b]
    unfolding example_pair by (auto simp del: One_nat_def)
qed

text \<open>C5: while a publisher runs, its task has merged exactly the snapshots that were sent, less those
  still in the channel, in order; its latest result is \<open>None\<close> before the first, then the merge of the
  last snapshot of each source. Once it has finished the result is the shutdown error for good.\<close>

theorem publisher_refines_book:
  assumes "publisher_run av_push n sent got pb"
  shows "case pb_phase pb of
      Running c \<Rightarrow> c = book_of n got \<and> sent = got @ pb_queue pb \<and>
        (if got = [] then latest_summary pb = Inr None
         else \<exists>sm. latest_summary pb = Inr (Some sm) \<and> to_proto av_push n (book_of n got) = Inr sm)
    | Finished \<Rightarrow> latest_summary pb = Inl SummaryShutdown \<and> publisher_step av_push n pb ev = None
    | Panicked p \<Rightarrow> to_proto av_push n (book_of n got) = Inl p"
  using publisher_run_implements [OF assms] publisher_ended [of pb av_push n ev]
  by (auto simp: publisher_implements_def result_of_def latest_summary_def receiver_open_def
      split: publisher_phase.splits if_splits)

theorem publisher_refines_book_witness:
  "\<exists>pb. publisher_run list_push 2 [example_a, example_b] [example_a, example_b] pb \<and>
    pb_phase pb = Running (book_of 2 [example_a, example_b]) \<and> pb_queue pb = [] \<and>
    latest_summary pb = Inr (Some example_summary)"
proof -
  obtain pb where pb: "publisher_run list_push 2 [example_a, example_b] [example_a, example_b] pb"
    "receiver_open pb" "latest_summary pb = Inr (Some example_summary)"
    using example_publisher_run by blast
  then show ?thesis
    using publisher_refines_book [OF pb(1)]
    by (auto simp: receiver_open_def split: publisher_phase.splits)
qed

text \<open>The merge of accepted snapshots only ever panics when more than \<open>n\<close> levels share a price;
  this stops the publisher for good: its last result stays, no shutdown error replaces it, and
  every later send fails.\<close>

theorem publisher_panics:
  assumes "publisher_run av_push n sent got pb" "pb_phase pb = Panicked p"
    and "arrayvec_push_spec av_push" "\<forall>s \<in> set got. snapshot_wf n s \<and> amounts_are_numbers s"
  shows "p = CapacityExceeded \<and> too_many_levels n (book_of n got) \<and>
    latest_summary pb \<noteq> Inl SummaryShutdown \<and>
    publisher_step av_push n pb ev = None \<and> source_send pb s = Some (Inl s) \<and>
    publisher_close pb = pb"
  using run_panic_cause [OF assms] assms(2) publisher_ended [of pb av_push n ev]
  by (simp add: receiver_open_def source_send_def publisher_close_def)

theorem publisher_panics_witness:
  "\<exists>pb. publisher_run list_push 1 [equal_a, equal_b] [equal_a, equal_b] pb \<and>
    pb_phase pb = Panicked CapacityExceeded \<and> latest_summary pb \<noteq> Inl SummaryShutdown \<and>
    source_send pb equal_a = Some (Inl equal_a)"
proof -
  obtain pb where pb: "publisher_run list_push 1 [equal_a, equal_b] [equal_a, equal_b] pb"
    "pb_phase pb = Panicked CapacityExceeded"
    using equal_bids_run by blast
  then show ?thesis
    using publisher_panics [OF pb list_push_spec] example_wf by auto
qed

text \<open>Closing reaches the task: once the shutdown message is pending the task can take it,
  whatever is in the channel; it then publishes the shutdown error, bumps the version and refuses
  every further snapshot.\<close>

theorem publisher_close_effective:
  assumes "receiver_open pb"
  shows "\<exists>pb'. publisher_step av_push n (publisher_close pb) RecvShutdown = Some pb' \<and>
    latest_summary pb' = Inl SummaryShutdown \<and> pb_version pb' = pb_version pb + 1 \<and>
    pb_phase pb' = Finished \<and> source_send pb' s = Some (Inl s) \<and>
    run_task (publisher_step av_push n) pb' evs = (if evs = [] then Some pb' else None)"
proof -
  obtain c where c: "pb_phase pb = Running c"
    using assms by (auto simp: receiver_open_def split: publisher_phase.splits)
  define pb' where "pb' = publish_result (Inl SummaryShutdown)
    ((publisher_close pb)\<lparr>pb_shutdown := False, pb_phase := Finished, pb_queue := []\<rparr>)"
  have closed: "\<not> receiver_open pb'"
    by (simp add: pb'_def publish_result_def receiver_open_def)
  have "publisher_step av_push n (publisher_close pb) RecvShutdown = Some pb'"
    using c assms by (simp add: publisher_close_def pb'_def)
  then show ?thesis
    using closed run_task_stuck [of "publisher_step av_push n" pb' evs] publisher_ended [OF closed]
    by (auto simp: source_send_def latest_summary_def pb'_def publish_result_def publisher_close_def)
qed

theorem publisher_close_effective_witness:
  "\<exists>pb'. publisher_step list_push 2 (publisher_close (publisher_start 2)) RecvShutdown = Some pb' \<and>
    pb_version pb' = 1"
proof -
  have start: "receiver_open (publisher_start 2)" "pb_version (publisher_start 2) = 0"
    by (simp_all add: publisher_start_def receiver_open_def)
  from publisher_close_effective [OF start(1), of list_push 2] start(2) show ?thesis
    unfolding One_nat_def [symmetric] by (metis add_0)
qed

text \<open>Waiting for a publisher does not always wait: before the guard task has stored the join
  handle, \<open>wait_complete\<close> returns at once although the task is still running; afterwards it returns
  only when the task has ended.\<close>

theorem wait_complete_may_not_wait:
  "wait_complete (publisher_close (publisher_start n)) = Some (Inr (), publisher_close (publisher_start n)) \<and>
   receiver_open (publisher_close (publisher_start n)) \<and>
   (wait_complete (store_handle pb) = None) = receiver_open pb"
  by (simp add: wait_complete_def publisher_close_def publisher_start_def receiver_open_def
      store_handle_def split: publisher_phase.split)

end
