(* ===== verification/Source_Tasks.thy ===== *)
theory Source_Tasks
  imports Source_Factories Feed_Properties Publishers
begin

section \<open>Source tasks and the pipeline of a feed (service/manager.rs)\<close>

text \<open>
  \<open>start_summary_sources\<close> spawns one task for each source, which sends the source's latest snapshot
  to the publisher and waits for the next change. The task is modelled by its awaits as the feed
  tasks are: \<open>source_task_step\<close> is its loop body from one await to the next, given what the cell of
  the source holds. \<open>pipeline_reach\<close> interleaves the exchange tasks, the source tasks and the
  publisher of one feed in any order; the shutdown signals may arrive at any await on them.
\<close>

subsection \<open>Sending with shutdown\<close>

text \<open>The \<open>select!\<close> of \<open>send_with_shutdown\<close>: the send completes, or the shutdown signal comes.\<close>

datatype send_event = SendCompleted "string + unit" | SendShutdown

fun send_with_shutdown :: "send_event \<Rightarrow> string + bool" where
  "send_with_shutdown (SendCompleted (Inr ())) = Inr True"
| "send_with_shutdown (SendCompleted (Inl e)) = Inl e"
| "send_with_shutdown SendShutdown = Inr False"

definition unwrap_or_false :: "string + bool \<Rightarrow> bool" where
  \<comment> \<open>\<open>unwrap_or_else\<close> with the closure that logs the error\<close>
  "unwrap_or_false r = (case r of Inl e \<Rightarrow> False | Inr b \<Rightarrow> b)"

lemma unwrap_or_false_simps [simp]:
  "unwrap_or_false (Inr b) = b" "unwrap_or_false (Inl e) = False"
  by (simp_all add: unwrap_or_false_def)

lemma unwrap_or_false_send [simp]:
  "unwrap_or_false (send_with_shutdown ev) \<longleftrightarrow> ev = SendCompleted (Inr ())"
  by (induction ev rule: send_with_shutdown.induct) simp_all

subsection \<open>The task of a source\<close>

datatype source_task_phase =
    StChecking                             \<comment> \<open>at the top of the loop\<close>
  | StSending contributor_snapshot
  | StWaiting                              \<comment> \<open>\<open>rx.changed().await\<close>\<close>
  | StEnded

record source_task =
  st_seen :: nat
  st_phase :: source_task_phase

datatype source_task_event = StPoll | StSend send_event | StChanged

definition source_task_new :: "exchange_feed \<Rightarrow> source_task" where
  "source_task_new fd = \<lparr>st_seen = watch_version fd, st_phase = StChecking\<rparr>"

fun source_task_step ::
  "exchange_feed \<Rightarrow> source_task \<Rightarrow> source_task_event \<Rightarrow> source_task option" where
  "source_task_step fd st StPoll =
     (if st_phase st = StChecking
      then Some (st\<lparr>st_phase := (case latest fd of
                Some (Inr snapshot) \<Rightarrow> StSending snapshot
              | Some (Inl e) \<Rightarrow> StWaiting
              | None \<Rightarrow> StWaiting)\<rparr>)
      else None)"
| "source_task_step fd st (StSend ev) =
     (case st_phase st of
        StSending snapshot \<Rightarrow>
          Some (st\<lparr>st_phase := (if unwrap_or_false (send_with_shutdown ev) then StWaiting else StEnded)\<rparr>)
      | _ \<Rightarrow> None)"
| "source_task_step fd st StChanged =
     (if st_phase st = StWaiting \<and> st_seen st \<noteq> watch_version fd
      then Some \<lparr>st_seen = watch_version fd, st_phase = StChecking\<rparr>
      else None)"

subsection \<open>The pipeline\<close>

definition exchange_step ::
  "'j serde_json \<Rightarrow> (string \<Rightarrow> string) \<Rightarrow> nat \<Rightarrow> source_id \<Rightarrow> feed_task \<Rightarrow> feed_event \<Rightarrow> feed_task option" where
  "exchange_step S sub_msg n src =
     (case src of Binance \<Rightarrow> binance_step S n | Bitstamp \<Rightarrow> bitstamp_step S sub_msg n)"

text \<open>
  What goes over the wire to the exchanges: \<open>wr_subscribe\<close> is the text of the subscription to a channel,
  made by serde\_json, and \<open>wr_sends\<close> says which texts the server at an address may send. A task only
  reads a text that the server it is connected to sends.
\<close>

record wire =
  wr_subscribe :: "string \<Rightarrow> string"
  wr_sends :: "string \<Rightarrow> string \<Rightarrow> bool"

fun arrives :: "wire \<Rightarrow> feed_task \<Rightarrow> feed_event \<Rightarrow> bool" where
  "arrives net t (ReadNext (Some (Inr (WsText m))) clock) = wr_sends net (ft_address t) m"
| "arrives net t ev = True"

definition wired_step ::
  "'j serde_json \<Rightarrow> wire \<Rightarrow> nat \<Rightarrow> source_id \<Rightarrow> feed_task \<Rightarrow> feed_event \<Rightarrow> feed_task option" where
  "wired_step S net n src t ev =
     (if arrives net t ev then exchange_step S (wr_subscribe net) n src t ev else None)"

lemma wired_stepD:
  "wired_step S net n src t ev = Some t' \<Longrightarrow>
    arrives net t ev \<and> exchange_step S (wr_subscribe net) n src t ev = Some t'"
  by (simp add: wired_step_def split: if_splits)

record pipeline =
  pl_sources :: "source_id \<rightharpoonup> feed_task \<times> source_task option"
  pl_publisher :: publisher

definition pipeline_new :: "nat \<Rightarrow> pipeline" where
  "pipeline_new n = \<lparr>pl_sources = Map.empty, pl_publisher = publisher_start n\<rparr>"

abbreviation set_source :: "pipeline \<Rightarrow> source_id \<Rightarrow> feed_task \<Rightarrow> source_task option \<Rightarrow> pipeline" where
  "set_source p src t st \<equiv> p\<lparr>pl_sources := (pl_sources p)(src \<mapsto> (t, st))\<rparr>"

text \<open>
  One step of the tasks of a feed: \<open>exchange\<close> is a step of the task of an exchange, \<open>source\<close>, \<open>sent\<close>
  and \<open>closed\<close> steps of a source task, \<open>merge\<close> a step of the publisher; a send succeeds, fails or
  waits as \<open>source_send\<close> says. \<open>control\<close> is what \<open>Feed::shutdown\<close> and the guard task do to the publisher.
\<close>

definition publisher_control :: "publisher \<Rightarrow> publisher \<Rightarrow> bool" where
  "publisher_control pb pb' \<longleftrightarrow>
     pb' = publisher_close pb \<or> pb' = store_handle pb \<or> (\<exists>r. wait_complete pb = Some (r, pb'))"

inductive pipeline_move ::
  "'j serde_json \<Rightarrow> wire \<Rightarrow> av_push \<Rightarrow> nat \<Rightarrow> pipeline \<Rightarrow> pipeline \<Rightarrow> bool"
  for S :: "'j serde_json" and net :: wire and av :: av_push and n :: nat where
  exchange: "pl_sources p src = Some (t, st) \<Longrightarrow> wired_step S net n src t ev = Some t' \<Longrightarrow>
    pipeline_move S net av n p (set_source p src t' st)"
| source: "pl_sources p src = Some (t, Some st) \<Longrightarrow>
    ev = StPoll \<or> ev = StChanged \<or> ev = StSend SendShutdown \<Longrightarrow>
    source_task_step (ft_feed t) st ev = Some st' \<Longrightarrow>
    pipeline_move S net av n p (set_source p src t (Some st'))"
| sent: "pl_sources p src = Some (t, Some st) \<Longrightarrow>
    st_phase st = StSending s \<Longrightarrow> source_send (pl_publisher p) s = Some (Inr pb) \<Longrightarrow>
    source_task_step (ft_feed t) st (StSend (SendCompleted (Inr ()))) = Some st' \<Longrightarrow>
    pipeline_move S net av n p ((set_source p src t (Some st'))\<lparr>pl_publisher := pb\<rparr>)"
| closed: "pl_sources p src = Some (t, Some st) \<Longrightarrow>
    st_phase st = StSending s \<Longrightarrow> source_send (pl_publisher p) s = Some (Inl s) \<Longrightarrow>
    source_task_step (ft_feed t) st (StSend (SendCompleted (Inl e))) = Some st' \<Longrightarrow>
    pipeline_move S net av n p (set_source p src t (Some st'))"
| merge: "publisher_step av n (pl_publisher p) ev = Some pb \<Longrightarrow>
    pipeline_move S net av n p (p\<lparr>pl_publisher := pb\<rparr>)"
| control: "publisher_control (pl_publisher p) pb \<Longrightarrow>
    pipeline_move S net av n p (p\<lparr>pl_publisher := pb\<rparr>)"

text \<open>
  The reachable pipelines of an instrument: \<open>create\<close> is a factory call of \<open>create_summary_sources\<close>,
  \<open>spawn\<close> the subscription to the changes and the spawning of the source task.
\<close>

inductive pipeline_reach ::
  "(string \<Rightarrow> string) \<Rightarrow> 'j serde_json \<Rightarrow> wire \<Rightarrow> av_push \<Rightarrow> nat \<Rightarrow> instrument \<Rightarrow> pipeline \<Rightarrow> bool"
  for ul :: "string \<Rightarrow> string" and S :: "'j serde_json" and net :: wire
    and av :: av_push and n :: nat and i :: instrument where
  start: "pipeline_reach ul S net av n i (pipeline_new n)"
| create: "pipeline_reach ul S net av n i p \<Longrightarrow> pl_sources p src = None \<Longrightarrow>
    in_source_mapping i src = Some symbol \<Longrightarrow>
    entry_source (new_factory_map ul n) (src, symbol) = okP s \<Longrightarrow>
    pipeline_reach ul S net av n i (set_source p (src_id s) (src_task s) None)"
| spawn: "pipeline_reach ul S net av n i p \<Longrightarrow> pl_sources p src = Some (t, None) \<Longrightarrow>
    pipeline_reach ul S net av n i (set_source p src t (Some (source_task_new (ft_feed t))))"
| move: "pipeline_reach ul S net av n i p \<Longrightarrow> pipeline_move S net av n p p' \<Longrightarrow>
    pipeline_reach ul S net av n i p'"

subsection \<open>The invariant of the pipeline\<close>

text \<open>A snapshot parsed from a message that the exchange sends for the symbol of the instrument: Binance
  serves each symbol at an address of its own, Bitstamp names the channel of the symbol in the message.\<close>

definition exchange_parser_of ::
  "'j serde_json \<Rightarrow> source_id \<Rightarrow> string \<Rightarrow> nat \<Rightarrow> string \<Rightarrow> nano_time \<Rightarrow>
    panic + (feed_error + contributor_snapshot option)" where
  "exchange_parser_of S src key = (case src of Binance \<Rightarrow> binance_parser S | Bitstamp \<Rightarrow> bitstamp_parser S key)"

definition feed_key :: "(string \<Rightarrow> string) \<Rightarrow> source_id \<Rightarrow> string \<Rightarrow> string" where
  "feed_key ul src symbol =
     (case src of
        Binance \<Rightarrow> to_lowercase ul symbol
      | Bitstamp \<Rightarrow> ''order_book_'' @ to_lowercase ul symbol)"

definition exchange_address :: "source_id \<Rightarrow> string \<Rightarrow> string" where
  "exchange_address src key =
     (case src of
        Binance \<Rightarrow> ''wss://stream.binance.com:9443/ws/'' @ key @ ''@depth20@100ms''
      | Bitstamp \<Rightarrow> ''wss://ws.bitstamp.net'')"

definition delivered ::
  "(string \<Rightarrow> string) \<Rightarrow> 'j serde_json \<Rightarrow> wire \<Rightarrow> nat \<Rightarrow> instrument \<Rightarrow> source_id \<Rightarrow> contributor_snapshot \<Rightarrow> bool" where
  "delivered ul S net n i src s \<longleftrightarrow>
     (\<exists>symbol m clock. in_source_mapping i src = Some symbol \<and> 0 \<le> clock \<and>
        wr_sends net (exchange_address src (feed_key ul src symbol)) m \<and>
        exchange_parser_of S src (feed_key ul src symbol) n m (word_of_int clock) = okP (Some s))"

lemma exchange_parser_accepted:
  "exchange_parser_of S src key n m c = okP (Some s) \<Longrightarrow> accepted_snapshot n src c s"
  using binance.parse_accepted bitstamp.parse_accepted
  by (cases src) (fastforce simp: exchange_parser_of_def)+

lemma exchange_step_feed:
  assumes "exchange_step S sub_msg n src t ev = Some t'"
  shows "ft_key t' = ft_key t \<and> (ft_feed t' = ft_feed t \<or> stores_error t t' \<or>
    stores_message (exchange_parser_of S src (ft_key t)) n ev t t')"
  using assms binance_step_feed [of S n t ev t'] bitstamp_step_feed [of S sub_msg n t ev t']
  by (cases src) (auto simp: exchange_step_def exchange_parser_of_def)

lemma deliveredD:
  assumes "delivered ul S net n i src s"
  shows "cs_source_id s = src" "snapshot_wf n s" "amounts_are_numbers s"
    and "\<forall>l \<in> set (snapshot_bids s @ snapshot_asks s). f64_gt (pl_amount l) f64_zero"
  using assms by (auto simp: delivered_def accepted_snapshot_def amounts_are_numbers_def f64_gt_iff
      dest!: exchange_parser_accepted)

text \<open>A task only ever connects to the address of its symbol.\<close>

definition addressed :: "source_id \<Rightarrow> feed_task \<Rightarrow> bool" where
  "addressed src t \<longleftrightarrow>
     (case ft_phase t of
        Connecting url \<Rightarrow> url = exchange_address src (ft_key t)
      | Subscribing \<Rightarrow> ft_address t = exchange_address src (ft_key t)
      | Streaming \<Rightarrow> ft_address t = exchange_address src (ft_key t)
      | _ \<Rightarrow> True)"

lemma streaming_step_address:
  assumes "streaming_step on_text t ev = Some t'" "ft_phase t = Streaming"
  shows "ft_address t' = ft_address t \<and> ft_phase t' \<in> {Streaming, Sleeping, Stopped} \<union> range Died"
proof -
  have address: "ft_address (loop_returns r u) = ft_address u" for r u by (cases r) simp_all
  show ?thesis using assms
    by (auto simp: streaming_step_def Let_def address loop_returns_phase
        split: option.splits sum.splits turn.splits)
qed

lemma binance_step_addressed:
  assumes "binance_step S n t ev = Some t'" "addressed Binance t"
  shows "addressed Binance t'"
proof (cases "ft_phase t")
  case Streaming
  then have "streaming_step (binance_on_text S n) t ev = Some t'" using assms(1) by (simp add: binance_step_def)
  from streaming_step_address [OF this Streaming] binance_step_feed [OF assms(1)] assms(2) Streaming
  show ?thesis by (auto simp: addressed_def)
next
  case Sleeping
  then show ?thesis using assms
    by (cases ev) (auto simp: binance_step_def binance_enter_loop_def addressed_def binance_url_def exchange_address_def)
qed (use assms in \<open>auto simp: binance_step_def addressed_def split: feed_event.splits sum.splits\<close>)

lemma bitstamp_step_addressed:
  assumes "bitstamp_step S sub_msg n t ev = Some t'" "addressed Bitstamp t"
  shows "addressed Bitstamp t'"
proof (cases "ft_phase t")
  case Streaming
  then have "streaming_step (bitstamp_on_text S n (ft_key t)) t ev = Some t'" using assms(1) by (simp add: bitstamp_step_def)
  from streaming_step_address [OF this Streaming] assms(2) Streaming
  show ?thesis by (auto simp: addressed_def exchange_address_def)
next
  case Sleeping
  then show ?thesis using assms
    by (cases ev) (auto simp: bitstamp_step_def bitstamp_enter_loop_def addressed_def exchange_address_def)
qed (use assms in \<open>auto simp: bitstamp_step_def addressed_def exchange_address_def split: feed_event.splits sum.splits\<close>)

lemma exchange_step_addressed:
  "exchange_step S sub_msg n src t ev = Some t' \<Longrightarrow> addressed src t \<Longrightarrow> addressed src t'"
  using binance_step_addressed bitstamp_step_addressed
  by (cases src) (auto simp: exchange_step_def)

definition good_feed_task ::
  "(string \<Rightarrow> string) \<Rightarrow> 'j serde_json \<Rightarrow> wire \<Rightarrow> nat \<Rightarrow> instrument \<Rightarrow> source_id \<Rightarrow> feed_task \<Rightarrow> bool" where
  "good_feed_task ul S net n i src t \<longleftrightarrow>
     (\<exists>symbol. in_source_mapping i src = Some symbol \<and> ft_key t = feed_key ul src symbol) \<and>
     addressed src t \<and> (\<forall>s. latest (ft_feed t) = Some (Inr s) \<longrightarrow> delivered ul S net n i src s)"

definition good_source_task ::
  "(string \<Rightarrow> string) \<Rightarrow> 'j serde_json \<Rightarrow> wire \<Rightarrow> nat \<Rightarrow> instrument \<Rightarrow> source_id \<Rightarrow> source_task \<Rightarrow> bool" where
  "good_source_task ul S net n i src st \<longleftrightarrow> (\<forall>s. st_phase st = StSending s \<longrightarrow> delivered ul S net n i src s)"

lemma good_wired_step:
  assumes "wired_step S net n src t ev = Some t'" "good_feed_task ul S net n i src t"
  shows "good_feed_task ul S net n i src t'"
proof -
  note step = wired_stepD [OF assms(1)]
  obtain symbol where symbol: "in_source_mapping i src = Some symbol" "ft_key t = feed_key ul src symbol"
    and addressed: "addressed src t" and old: "\<And>s. latest (ft_feed t) = Some (Inr s) \<Longrightarrow> delivered ul S net n i src s"
    using assms(2) by (auto simp: good_feed_task_def)
  have "delivered ul S net n i src s" if "latest (ft_feed t') = Some (Inr s)" for s
  proof (cases "\<exists>m clock. ev = ReadNext (Some (Inr (WsText m))) clock \<and> 0 \<le> clock \<and>
      exchange_parser_of S src (ft_key t) n m (word_of_int clock) = okP (Some s)")
    case True
    then obtain m clock where m: "ev = ReadNext (Some (Inr (WsText m))) clock" "0 \<le> clock"
      "exchange_parser_of S src (ft_key t) n m (word_of_int clock) = okP (Some s)" by blast
    have "ft_phase t = Streaming"
      using step m(1) by (cases src; cases "ft_phase t")
        (auto simp: exchange_step_def binance_step_def bitstamp_step_def)
    then have "wr_sends net (exchange_address src (ft_key t)) m"
      using addressed step m(1) by (simp add: addressed_def)
    then show ?thesis using m symbol unfolding delivered_def by auto
  next
    case False
    then show ?thesis
      using exchange_step_feed [OF conjunct2 [OF step]] old that
      by (auto simp: stores_error_def stores_message_def store_latest_def)
  qed
  then show ?thesis
    using symbol exchange_step_addressed [OF conjunct2 [OF step] addressed] exchange_step_feed [OF conjunct2 [OF step]]
    by (auto simp: good_feed_task_def)
qed

lemma good_source_task_step:
  assumes "source_task_step (ft_feed t) st ev = Some st'" "good_feed_task ul S net n i src t"
  shows "good_source_task ul S net n i src st'"
  using assms
  by (cases ev) (auto simp: good_source_task_def good_feed_task_def
      split: if_splits source_task_phase.splits option.splits sum.splits)

lemma shipped_entry_source:
  assumes "entry_source (new_factory_map ul n) (src, symbol) = okP s"
  shows "src_id s = src" "ft_feed (src_task s) = feed_new" "ft_key (src_task s) = feed_key ul src symbol"
    "addressed src (src_task s)"
  using assms
  by (cases src; auto simp: feed_key_def addressed_def exchange_address_def binance_url_def bitstamp_channel_def entry_source_def with_context_def binance_factory_def bitstamp_factory_def
      binance_subscribe_def bitstamp_subscribe_def binance_enter_loop_def bitstamp_enter_loop_def
      task_new_def split: if_splits)+

definition sources_ok ::
  "(string \<Rightarrow> string) \<Rightarrow> 'j serde_json \<Rightarrow> wire \<Rightarrow> nat \<Rightarrow> instrument \<Rightarrow> pipeline \<Rightarrow> bool" where
  "sources_ok ul S net n i p \<longleftrightarrow>
     (\<forall>src t st. pl_sources p src = Some (t, st) \<longrightarrow>
        good_feed_task ul S net n i src t \<and> (\<forall>u. st = Some u \<longrightarrow> good_source_task ul S net n i src u))"

definition publisher_ok ::
  "(string \<Rightarrow> string) \<Rightarrow> 'j serde_json \<Rightarrow> wire \<Rightarrow> av_push \<Rightarrow> nat \<Rightarrow> instrument \<Rightarrow> publisher \<Rightarrow> bool" where
  "publisher_ok ul S net av n i pb \<longleftrightarrow>
     (\<exists>sent got. publisher_run av n sent got pb \<and> (\<forall>s \<in> set sent. delivered ul S net n i (cs_source_id s) s))"

definition pipeline_ok ::
  "(string \<Rightarrow> string) \<Rightarrow> 'j serde_json \<Rightarrow> wire \<Rightarrow> av_push \<Rightarrow> nat \<Rightarrow> instrument \<Rightarrow> pipeline \<Rightarrow> bool" where
  "pipeline_ok ul S net av n i p \<longleftrightarrow> sources_ok ul S net n i p \<and> publisher_ok ul S net av n i (pl_publisher p)"

lemma set_source_ok:
  assumes "pipeline_ok ul S net av n i p" "good_feed_task ul S net n i src t"
    and "\<And>u. st = Some u \<Longrightarrow> good_source_task ul S net n i src u"
  shows "pipeline_ok ul S net av n i (set_source p src t st)"
  using assms unfolding pipeline_ok_def sources_ok_def by auto

lemma set_publisher_ok:
  assumes "pipeline_ok ul S net av n i p" "publisher_ok ul S net av n i pb"
  shows "pipeline_ok ul S net av n i (p\<lparr>pl_publisher := pb\<rparr>)"
  using assms unfolding pipeline_ok_def sources_ok_def by auto

lemma source_of_ok:
  assumes "pipeline_ok ul S net av n i p" "pl_sources p src = Some (t, st)"
  shows "good_feed_task ul S net n i src t" "st = Some u \<Longrightarrow> good_source_task ul S net n i src u"
  using assms unfolding pipeline_ok_def sources_ok_def by auto

lemma publisher_ok_step:
  assumes "publisher_ok ul S net av n i pb" "publisher_step av n pb ev = Some pb'"
  shows "publisher_ok ul S net av n i pb'"
proof (cases ev)
  case RecvSnapshot
  then obtain s q where "pb_queue pb = s # q"
    using assms(2) by (auto split: publisher_phase.splits list.splits)
  then show ?thesis using assms RecvSnapshot publisher_run.recv unfolding publisher_ok_def by blast
next
  case RecvShutdown
  then show ?thesis using assms publisher_run.shutdown unfolding publisher_ok_def by blast
qed

lemma publisher_ok_send:
  assumes "publisher_ok ul S net av n i pb" "source_send pb s = Some (Inr pb')" "delivered ul S net n i src s"
  shows "publisher_ok ul S net av n i pb'"
proof -
  obtain se got where run: "publisher_run av n se got pb" "\<forall>s \<in> set se. delivered ul S net n i (cs_source_id s) s"
    using assms(1) unfolding publisher_ok_def by blast
  have "\<forall>x \<in> set (se @ [s]). delivered ul S net n i (cs_source_id x) x"
    using run(2) assms(3) deliveredD(1) [OF assms(3)] by simp
  then show ?thesis
    using publisher_run.send [OF run(1) assms(2)] unfolding publisher_ok_def by blast
qed

lemma publisher_ok_control:
  "publisher_ok ul S net av n i pb \<Longrightarrow> publisher_control pb pb' \<Longrightarrow> publisher_ok ul S net av n i pb'"
  using publisher_run.close publisher_run.guard publisher_run.wait
  unfolding publisher_ok_def publisher_control_def by blast

lemma pipeline_move_ok:
  assumes "pipeline_move S net av n p p'" "pipeline_ok ul S net av n i p"
  shows "pipeline_ok ul S net av n i p'"
  using assms
proof (induction rule: pipeline_move.induct)
  case (exchange p src t st ev t')
  then show ?case
    using source_of_ok [OF exchange.prems exchange(1)] good_wired_step [OF exchange(2)]
    by (intro set_source_ok) auto
next
  case (source p src t st ev st')
  then show ?case
    using source_of_ok [OF source.prems source(1)] good_source_task_step [OF source(3)]
    by (intro set_source_ok) auto
next
  case (sent p src t st s pb st')
  have good: "delivered ul S net n i src s"
    using source_of_ok(2) [OF sent.prems sent(1) refl] sent(2) by (simp add: good_source_task_def)
  have "publisher_ok ul S net av n i pb"
    using publisher_ok_send [OF _ sent(3) good] sent.prems by (simp add: pipeline_ok_def)
  moreover have "pipeline_ok ul S net av n i (set_source p src t (Some st'))"
    using source_of_ok [OF sent.prems sent(1)] good_source_task_step [OF sent(4)] sent.prems
    by (intro set_source_ok) auto
  ultimately show ?case by (intro set_publisher_ok)
next
  case (closed p src t st s e st')
  then show ?case
    using source_of_ok [OF closed.prems closed(1)] good_source_task_step [OF closed(4)]
    by (intro set_source_ok) auto
next
  case (merge p ev pb)
  then show ?case
    using publisher_ok_step by (intro set_publisher_ok) (auto simp: pipeline_ok_def)
next
  case (control p pb)
  then show ?case
    using publisher_ok_control by (intro set_publisher_ok) (auto simp: pipeline_ok_def)
qed

lemma pipeline_reach_ok:
  assumes "pipeline_reach ul S net av n i p"
  shows "pipeline_ok ul S net av n i p"
  using assms
proof (induction rule: pipeline_reach.induct)
  case start
  have "publisher_ok ul S net av n i (publisher_start n)"
    unfolding publisher_ok_def using publisher_run.start by (intro exI [of _ "[]"]) simp
  then show ?case by (simp add: pipeline_ok_def sources_ok_def pipeline_new_def)
next
  case (create p src symbol s)
  then show ?case
    using shipped_entry_source [OF create(4)] create(3)
    by (intro set_source_ok) (auto simp: good_feed_task_def feed_new_def)
next
  case (spawn p src t)
  then show ?case
    by (intro set_source_ok source_of_ok(1)) (auto simp: good_source_task_def source_task_new_def)
next
  case (move p p')
  then show ?case using pipeline_move_ok by blast
qed

subsection \<open>From the exchanges to the summary\<close>

text \<open>What a book is made of: accepted snapshots, or the empty one for a source that has sent none.\<close>

definition contributed ::
  "(string \<Rightarrow> string) \<Rightarrow> 'j serde_json \<Rightarrow> wire \<Rightarrow> nat \<Rightarrow> instrument \<Rightarrow> source_id \<Rightarrow> contributor_snapshot \<Rightarrow> bool" where
  "contributed ul S net n i src s \<longleftrightarrow> s = snapshot_default n \<or> delivered ul S net n i src s"

lemma contributed_book:
  assumes "\<forall>s \<in> set got. delivered ul S net n i (cs_source_id s) s"
  shows "contributed ul S net n i src (last_of n got src)"
  using assms by (auto simp: contributed_def last_of_def find_Some_iff split: option.split)
    (metis length_rev nth_mem set_rev)

lemma contributed_positive:
  assumes "contributed ul S net n i src s" "l \<in> set (snapshot_bids s @ snapshot_asks s)"
  shows "f64_gt (pl_amount l) f64_zero"
  using assms deliveredD(4) [of ul S net n i src s] by (auto simp: contributed_def)

lemma contributed_source:
  assumes "contributed ul S net n i src s" "l \<in> set (snapshot_bids s @ snapshot_asks s)"
  shows "cs_source_id s = src \<and> src \<in> dom (in_source_mapping i)"
  using assms deliveredD(1) [of ul S net n i src s] by (auto simp: contributed_def) (auto simp: delivered_def)

lemma summary_levels:
  assumes "combined_wf n c" "arrayvec_push_spec av" "to_proto av n c = Inr sm"
    and "l \<in> set (sm_bids sm @ sm_asks sm)"
  shows "\<exists>s \<in> set (co_sources c). \<exists>x \<in> set (snapshot_bids s @ snapshot_asks s).
    l = level_proto (cs_source_id s) x"
proof -
  have "summary_spec n c sm" by (rule to_proto_ok [OF assms(1-3)])
  then have "set (sm_bids sm) \<subseteq> set (all_bids c)" "set (sm_asks sm) \<subseteq> set (all_asks c)"
    using side_spec_set [of bid_order n "all_bids c" "sm_bids sm"]
      side_spec_set [of ask_order n "all_asks c" "sm_asks sm"]
    by (auto simp: summary_spec_def)
  then show ?thesis using assms(4)
    by (fastforce simp: all_bids_def all_asks_def side_levels_def)
qed

definition sound_summary ::
  "(string \<Rightarrow> string) \<Rightarrow> 'j serde_json \<Rightarrow> wire \<Rightarrow> av_push \<Rightarrow> nat \<Rightarrow> instrument \<Rightarrow> summary \<Rightarrow> bool" where
  "sound_summary ul S net av n i sm \<longleftrightarrow>
     (\<exists>a b. contributed ul S net n i Bitstamp a \<and> contributed ul S net n i Binance b \<and>
        to_proto av n \<lparr>co_sources = [a, b]\<rparr> = Inr sm) \<and>
     (\<forall>l \<in> set (sm_bids sm @ sm_asks sm). f64_gt (lv_amount l) f64_zero \<and>
        (\<exists>src \<in> dom (in_source_mapping i). lv_exchange l = source_id_fmt src))"

lemma publisher_ok_summary:
  assumes "publisher_ok ul S net av n i pb" "arrayvec_push_spec av" "latest_summary pb = Inr (Some sm)"
  shows "sound_summary ul S net av n i sm"
proof -
  obtain sent got0 where run: "publisher_run av n sent got0 pb"
    "\<forall>s \<in> set sent. delivered ul S net n i (cs_source_id s) s"
    using assms(1) unfolding publisher_ok_def by blast
  obtain got rest where got: "sent = got @ rest" "to_proto av n (book_of n got) = Inr sm"
    using run_published [OF run(1) assms(3)] by blast
  have good: "\<forall>s \<in> set got. delivered ul S net n i (cs_source_id s) s" using run(2) got(1) by simp
  have wf: "combined_wf n (book_of n got)"
    using good deliveredD(2) by (intro book_of_wf) blast
  have "f64_gt (lv_amount l) f64_zero \<and> (\<exists>src \<in> dom (in_source_mapping i). lv_exchange l = source_id_fmt src)"
    if l: "l \<in> set (sm_bids sm @ sm_asks sm)" for l
  proof -
    obtain s x where s: "s \<in> set (co_sources (book_of n got))"
      "x \<in> set (snapshot_bids s @ snapshot_asks s)" "l = level_proto (cs_source_id s) x"
      using summary_levels [OF wf assms(2) got(2) l] by blast
    obtain src where "contributed ul S net n i src s"
      using contributed_book [OF good] s(1) by (auto simp: book_of_def)
    from contributed_positive [OF this s(2)] contributed_source [OF this s(2)] show ?thesis
      by (auto simp: s(3) level_proto_def)
  qed
  then show ?thesis
    using contributed_book [OF good] got(2) unfolding book_of_def sound_summary_def by blast
qed

subsection \<open>A run of the pipeline\<close>

lemma reach_exchange_run:
  assumes "run_task (wired_step S net n src) t evs = Some t'"
    and "pipeline_reach ul S net av n i (set_source p src t st)"
  shows "pipeline_reach ul S net av n i (set_source p src t' st)"
  using assms(1)
proof (induction rule: run_task_induct)
  case (step evs u ev u')
  have "pl_sources (set_source p src u st) src = Some (u, st)" by simp
  from pipeline_reach.move [OF step(3) pipeline_move.exchange [OF this step(2)]] show ?case
    by (simp del: fun_upd_apply)
qed (rule assms(2))

definition example_instrument :: instrument where
  "example_instrument = instrument_new ''ETH-BTC'' [\<lparr>ss_source = Binance, ss_symbol = ''ETHBTC''\<rparr>]"

text \<open>Binance sends one book at the address of the symbol.\<close>

definition example_net :: wire where
  "example_net = \<lparr>wr_subscribe = id,
     wr_sends = (\<lambda>address text. address = binance_url ''ethbtc'' \<and> text = ''book'')\<rparr>"

definition example_streaming :: feed_task where
  "example_streaming = \<lparr>ft_key = ''ethbtc'', ft_phase = Streaming,
     ft_address = binance_url ''ethbtc'', ft_feed = \<lparr>latest = Some (Inr example_binance_snapshot), watch_version = 1\<rparr>, ft_sent = [FramePing]\<rparr>"

lemma example_merge:
  "\<exists>sm. to_proto list_push 3 (book_of 3 [example_binance_snapshot]) = Inr sm \<and> sm_bids sm \<noteq> []"
proof -
  have wf: "\<forall>s \<in> set [example_binance_snapshot]. snapshot_wf 3 s"
    by code_simp
  have num: "\<forall>s \<in> set [example_binance_snapshot]. amounts_are_numbers s"
    by code_simp
  have few: "\<not> too_many_levels 3 (book_of 3 [example_binance_snapshot])"
    by code_simp
  obtain sm where sm: "to_proto list_push 3 (book_of 3 [example_binance_snapshot]) = Inr sm"
    "summary_spec 3 (book_of 3 [example_binance_snapshot]) sm"
    using to_proto_outcome [OF book_of_wf [OF wf] list_push_spec] few book_of_numbers [OF num, of 3]
    by auto
  have bids: "all_bids (book_of 3 [example_binance_snapshot]) \<noteq> []"
    by code_simp
  have "sm_bids sm \<noteq> []"
    using side_spec_first [of bid_order 3 "all_bids (book_of 3 [example_binance_snapshot])" "sm_bids sm"]
      sm(2) bids by (auto simp: summary_spec_def)
  then show ?thesis using sm(1) by blast
qed

lemma example_wired_run:
  "run_task (wired_step example_json example_net 3 Binance) \<lparr>ft_key = ''ethbtc'',
      ft_phase = Connecting (binance_url ''ethbtc''), ft_address = '''', ft_feed = feed_new, ft_sent = []\<rparr>
      binance_script = Some example_streaming"
  by (simp add: binance_script_def wired_step_def exchange_step_def binance_step_def streaming_step_def
      binance_on_text_def nanos_now_def example_binance_parse store_latest_def feed_new_def
      example_binance_snapshot_def example_net_def example_streaming_def)

lemma example_settled:
  "\<exists>p sm. pipeline_reach id example_json example_net list_push 3 example_instrument p \<and>
    pl_sources p = [Binance \<mapsto> (example_streaming, Some \<lparr>st_seen = 1, st_phase = StWaiting\<rparr>)] \<and>
    pb_queue (pl_publisher p) = [] \<and>
    pb_phase (pl_publisher p) = Running (book_of 3 [example_binance_snapshot]) \<and>
    latest_summary (pl_publisher p) = Inr (Some sm) \<and> sm_bids sm \<noteq> []"
proof -
  let ?R = "pipeline_reach id example_json example_net list_push 3 example_instrument"
  let ?p0 = "pipeline_new 3"
  let ?t0 = "\<lparr>ft_key = ''ethbtc'', ft_phase = Connecting (binance_url ''ethbtc''),
      ft_address = '''', ft_feed = feed_new, ft_sent = []\<rparr>"
  have "?R (set_source ?p0 (src_id \<lparr>src_id = Binance, src_task = ?t0\<rparr>)
      (src_task \<lparr>src_id = Binance, src_task = ?t0\<rparr>) None)"
    by (rule pipeline_reach.create [OF pipeline_reach.start, where src = Binance and symbol = "''ETHBTC''"])
      (simp_all add: pipeline_new_def example_instrument_def instrument_new_def entry_source_def
        with_context_def binance_factory_def example_subscribe)
  then have "?R (set_source ?p0 Binance ?t0 None)" by simp
  moreover have "run_task (wired_step example_json example_net 3 Binance) ?t0 binance_script = Some example_streaming"
    by (rule example_wired_run)
  ultimately have "?R (set_source ?p0 Binance example_streaming None)"
    by (rule reach_exchange_run [rotated])
  from pipeline_reach.spawn [OF this, of Binance example_streaming]
  have "?R (set_source ?p0 Binance example_streaming (Some \<lparr>st_seen = 1, st_phase = StChecking\<rparr>))"
    by (simp add: source_task_new_def example_streaming_def)
  from pipeline_reach.move [OF this pipeline_move.source, of Binance example_streaming _ StPoll]
  have sending: "?R (set_source ?p0 Binance example_streaming
      (Some \<lparr>st_seen = 1, st_phase = StSending example_binance_snapshot\<rparr>))"
    by (simp add: example_streaming_def)
  let ?pb = "(publisher_start 3)\<lparr>pb_queue := [example_binance_snapshot]\<rparr>"
  have "source_send (publisher_start 3) example_binance_snapshot = Some (Inr ?pb)"
    by (simp add: source_send_def receiver_open_def publisher_start_def BACKLOG_SIZE_def)
  from pipeline_reach.move [OF sending pipeline_move.sent, of Binance example_streaming _ example_binance_snapshot] this
  have sent: "?R ((set_source ?p0 Binance example_streaming (Some \<lparr>st_seen = 1, st_phase = StWaiting\<rparr>))
      \<lparr>pl_publisher := ?pb\<rparr>)"
    by (simp add: pipeline_new_def)
  obtain sm where sm: "to_proto list_push 3 (book_of 3 [example_binance_snapshot]) = Inr sm"
    "sm_bids sm \<noteq> []"
    using example_merge by blast
  have "update_snapshot (combined_new 3) example_binance_snapshot =
      Inr (book_of 3 [example_binance_snapshot])"
    using update_book_of [of 3 "[]"] by (simp add: combined_new_book_of)
  then have "publisher_step list_push 3 ?pb RecvSnapshot = Some (publish_result (Inr (Some sm))
      (?pb\<lparr>pb_queue := [], pb_phase := Running (book_of 3 [example_binance_snapshot])\<rparr>))"
    using sm(1) by (simp add: publisher_start_def)
  from pipeline_reach.move [OF sent pipeline_move.merge, simplified, OF this] show ?thesis
    using sm(2) by (fastforce simp: latest_summary_def publish_result_def pipeline_new_def)
qed

lemma example_pipeline:
  "\<exists>p sm. pipeline_reach id example_json example_net list_push 3 example_instrument p \<and>
    latest_summary (pl_publisher p) = Inr (Some sm) \<and> sm_bids sm \<noteq> []"
  using example_settled by blast

subsection \<open>Properties\<close>

text \<open>Every summary a publisher shows is the merge of one accepted snapshot of each exchange of its
  instrument (or none yet), whatever the exchanges send and in whatever order the tasks run.\<close>

theorem published_summary_sound:
  assumes "pipeline_reach ul S net av n i p" "arrayvec_push_spec av"
    and "latest_summary (pl_publisher p) = Inr (Some sm)"
  shows "\<exists>a b. contributed ul S net n i Bitstamp a \<and> contributed ul S net n i Binance b \<and>
    to_proto av n \<lparr>co_sources = [a, b]\<rparr> = Inr sm \<and>
    (\<forall>l \<in> set (sm_bids sm @ sm_asks sm). f64_gt (lv_amount l) f64_zero)"
proof -
  have "publisher_ok ul S net av n i (pl_publisher p)"
    using pipeline_reach_ok [OF assms(1)] by (simp add: pipeline_ok_def)
  from publisher_ok_summary [OF this assms(2,3)] show ?thesis
    unfolding sound_summary_def by blast
qed

theorem published_summary_sound_witness:
  "\<exists>p sm a b. pipeline_reach id example_json example_net list_push 3 example_instrument p \<and>
    latest_summary (pl_publisher p) = Inr (Some sm) \<and> sm_bids sm \<noteq> [] \<and>
    to_proto list_push 3 \<lparr>co_sources = [a, b]\<rparr> = Inr sm"
  using example_pipeline published_summary_sound [OF _ list_push_spec] by metis

text \<open>C25: the publisher of the running server is in one of three conditions: it runs on a well formed
  book; it has finished and shows the shutdown error; or it has panicked on a full vector, the only
  panic it can have, and never shows the shutdown error.\<close>

theorem running_publisher_panics:
  assumes "pipeline_reach ul S net av n i p" "arrayvec_push_spec av"
  shows "case pb_phase (pl_publisher p) of
      Running c \<Rightarrow> combined_wf n c
    | Finished \<Rightarrow> latest_summary (pl_publisher p) = Inl SummaryShutdown
    | Panicked q \<Rightarrow> q = CapacityExceeded \<and> latest_summary (pl_publisher p) \<noteq> Inl SummaryShutdown"
proof -
  obtain sent got where run: "publisher_run av n sent got (pl_publisher p)"
    "\<forall>s \<in> set sent. delivered ul S net n i (cs_source_id s) s"
    using pipeline_reach_ok [OF assms(1)] unfolding pipeline_ok_def publisher_ok_def by blast
  then have got: "\<forall>s \<in> set got. snapshot_wf n s \<and> amounts_are_numbers s"
    using run_got_sent [OF run(1)] by (fastforce dest: deliveredD(2,3))
  show ?thesis
    using publisher_run_implements [OF run(1)] run_panic_cause [OF run(1) _ assms(2) got]
      book_of_wf [of got n] got
    by (auto simp: publisher_implements_def latest_summary_def split: publisher_phase.splits)
qed

theorem running_publisher_panics_witness:
  "\<exists>p sm. pipeline_reach id example_json example_net list_push 3 example_instrument p \<and>
    latest_summary (pl_publisher p) = Inr (Some sm) \<and>
    (case pb_phase (pl_publisher p) of
       Running c \<Rightarrow> combined_wf 3 c | Finished \<Rightarrow> False | Panicked q \<Rightarrow> q = CapacityExceeded)"
proof -
  obtain p sm where p: "pipeline_reach id example_json example_net list_push 3 example_instrument p"
    "latest_summary (pl_publisher p) = Inr (Some sm)"
    using example_pipeline by blast
  from running_publisher_panics [OF p(1) list_push_spec] p(2)
  have "case pb_phase (pl_publisher p) of
       Running c \<Rightarrow> combined_wf 3 c | Finished \<Rightarrow> False | Panicked q \<Rightarrow> q = CapacityExceeded"
    by (auto split: publisher_phase.splits)
  with p show ?thesis by blast
qed

text \<open>C28: shutting down does not end the task of a source that waits for a change: the shutdown
  signal stops the task of the exchange without a notification, and from then on neither task has
  a step, so waiting for the task of the source never ends.\<close>

theorem shutdown_strands_source_task:
  assumes "ft_phase t = Streaming \<or> ft_phase t = Sleeping"
    and "st_phase st = StWaiting" "st_seen st = watch_version (ft_feed t)"
  shows "\<exists>t'. exchange_step S sub_msg n src t ShutdownRecv = Some t' \<and> ft_phase t' = Stopped \<and>
    exchange_step S sub_msg n src t' ev = None \<and> source_task_step (ft_feed t') st ev' = None"
proof -
  let ?t = "t\<lparr>ft_phase := Stopped\<rparr>"
  have "exchange_step S sub_msg n src t ShutdownRecv = Some ?t"
    using binance_feed.step_shutdown [OF assms(1), of S n]
      bitstamp_feed.step_shutdown [OF assms(1), of S sub_msg n]
    by (cases src) (simp_all add: exchange_step_def)
  moreover have "exchange_step S sub_msg n src ?t ev = None"
    using binance_feed.step_ended [of ?t _ S n ev] bitstamp_feed.step_ended [of ?t _ S sub_msg n ev]
    by (cases src) (simp_all add: exchange_step_def)
  moreover have "source_task_step (ft_feed ?t) st ev' = None"
    using assms(2,3) by (cases ev') simp_all
  ultimately show ?thesis by (intro exI [of _ ?t]) simp
qed

theorem shutdown_strands_source_task_witness:
  "\<exists>t'. exchange_step example_json id 3 Binance example_streaming ShutdownRecv = Some t' \<and>
    ft_phase t' = Stopped \<and>
    source_task_step (ft_feed t') \<lparr>st_seen = 1, st_phase = StWaiting\<rparr> StChanged = None"
proof -
  have "ft_phase example_streaming = Streaming" "watch_version (ft_feed example_streaming) = 1"
    by (simp_all add: example_streaming_def)
  then show ?thesis
    using shutdown_strands_source_task
      [of example_streaming "\<lparr>st_seen = 1, st_phase = StWaiting\<rparr>" example_json id 3 Binance ShutdownRecv StChanged]
    by (metis source_task.select_convs)
qed

end
