(* ===== verification/Subscribers.thy ===== *)
theory Subscribers
  imports Source_Tasks
begin

section \<open>Streaming a feed to a client (Feed::publish in service/manager.rs, stream.rs)\<close>

text \<open>
  \<open>publish\<close> runs in a task of its own for each client. The task is modelled between the points where
  other tasks can run; what it reads of its feed is a \<open>feed_view\<close>: the latest result of the
  publisher, the version of its watch channel and the number of shutdown messages sent on the
  feed's broadcast channel. A receiver only gets the messages sent after it subscribed.
\<close>

record feed_view =
  vw_latest :: summary_result
  vw_version :: nat
  vw_shutdowns :: nat

datatype subscriber_phase =
    SbStart                  \<comment> \<open>spawned; \<open>on_subscribe\<close> comes next\<close>
  | SbSubscribed             \<comment> \<open>subscribing to the shutdown signal comes next\<close>
  | SbReading                \<comment> \<open>the initial \<open>latest_summary\<close> comes next\<close>
  | SbInitial summary        \<comment> \<open>sending the initial summary\<close>
  | SbWatching               \<comment> \<open>\<open>watch_latest\<close> comes next\<close>
  | SbWaiting                \<comment> \<open>the \<open>select!\<close> of the loop\<close>
  | SbChecking               \<comment> \<open>\<open>changed\<close> has completed; \<open>latest_summary\<close> comes next\<close>
  | SbSending summary
  | SbEnding                 \<comment> \<open>\<open>on_unsubscribe\<close> comes next\<close>
  | SbDone                   \<comment> \<open>the sender is dropped\<close>

record subscriber =
  sb_phase :: subscriber_phase
  sb_shutdown_from :: nat
  sb_seen :: nat
  sb_sent :: "summary list"

datatype subscriber_event = SbNext | SbSend send_event | SbChanged | SbShutdown

definition subscriber_new :: subscriber where
  "subscriber_new = \<lparr>sb_phase = SbStart, sb_shutdown_from = 0, sb_seen = 0, sb_sent = []\<rparr>"

definition shutdown_pending :: "feed_view \<Rightarrow> subscriber \<Rightarrow> bool" where
  "shutdown_pending v sb \<longleftrightarrow> sb_shutdown_from sb < vw_shutdowns v"

text \<open>The outcome of sending \<open>s\<close> and the phase that follows when it was sent.\<close>

definition send_summary ::
  "feed_view \<Rightarrow> subscriber \<Rightarrow> summary \<Rightarrow> subscriber_phase \<Rightarrow> send_event \<Rightarrow> subscriber option" where
  "send_summary v sb s continue ev =
     (if ev = SendShutdown \<and> \<not> shutdown_pending v sb then None
      else if unwrap_or_false (send_with_shutdown ev)
      then Some (sb\<lparr>sb_phase := continue, sb_sent := sb_sent sb @ [s]\<rparr>)
      else Some (sb\<lparr>sb_phase := SbEnding\<rparr>))"

definition publish_step :: "feed_view \<Rightarrow> subscriber \<Rightarrow> subscriber_event \<Rightarrow> subscriber option" where
  "publish_step v sb ev =
     (case (sb_phase sb, ev) of
        (SbStart, SbNext) \<Rightarrow> Some (sb\<lparr>sb_phase := SbSubscribed\<rparr>)
      | (SbSubscribed, SbNext) \<Rightarrow> Some (sb\<lparr>sb_phase := SbReading, sb_shutdown_from := vw_shutdowns v\<rparr>)
      | (SbReading, SbNext) \<Rightarrow>
          Some (sb\<lparr>sb_phase := (case vw_latest v of
              Inr (Some summary) \<Rightarrow> SbInitial summary
            | _ \<Rightarrow> SbWatching)\<rparr>)
      | (SbInitial summary, SbSend r) \<Rightarrow> send_summary v sb summary SbWatching r
      | (SbWatching, SbNext) \<Rightarrow> Some (sb\<lparr>sb_phase := SbWaiting, sb_seen := vw_version v\<rparr>)
      | (SbWaiting, SbChanged) \<Rightarrow>
          if sb_seen sb \<noteq> vw_version v
          then Some (sb\<lparr>sb_phase := SbChecking, sb_seen := vw_version v\<rparr>)
          else None
      | (SbWaiting, SbShutdown) \<Rightarrow>
          if shutdown_pending v sb then Some (sb\<lparr>sb_phase := SbEnding\<rparr>) else None
      | (SbChecking, SbNext) \<Rightarrow>
          Some (sb\<lparr>sb_phase := (case vw_latest v of
              Inr (Some summary) \<Rightarrow> SbSending summary
            | Inr None \<Rightarrow> SbWaiting
            | Inl SummaryShutdown \<Rightarrow> SbEnding)\<rparr>)
      | (SbSending summary, SbSend r) \<Rightarrow> send_summary v sb summary SbWaiting r
      | (SbEnding, SbNext) \<Rightarrow> Some (sb\<lparr>sb_phase := SbDone\<rparr>)
      | _ \<Rightarrow> None)"

text \<open>A client's task while its feed goes through the views \<open>vs\<close>.\<close>

inductive publish_run :: "feed_view list \<Rightarrow> subscriber \<Rightarrow> bool" where
  start: "publish_run [v] subscriber_new"
| feed: "publish_run vs sb \<Longrightarrow> publish_run (vs @ [v]) sb"
| step: "publish_run vs sb \<Longrightarrow> publish_step (last vs) sb ev = Some sb' \<Longrightarrow> publish_run vs sb'"

text \<open>\<open>into_grpc_stream\<close>: what the client's stream yields once every sender of the channel is dropped.\<close>

datatype 'a stream_item = Item 'a | StatusUnavailable string

definition into_grpc_stream :: "'a list \<Rightarrow> 'a stream_item list" where
  "into_grpc_stream received = map Item received @ [StatusUnavailable ''stream ended'']"

subsection \<open>What is sent\<close>

definition shown :: "feed_view list \<Rightarrow> summary set" where
  "shown vs = {s. \<exists>v \<in> set vs. vw_latest v = Inr (Some s)}"

lemma shown_append [simp]: "shown (vs @ ws) = shown vs \<union> shown ws"
  by (auto simp: shown_def)

definition holds_shown :: "feed_view list \<Rightarrow> subscriber \<Rightarrow> bool" where
  "holds_shown vs sb \<longleftrightarrow> vs \<noteq> [] \<and> set (sb_sent sb) \<subseteq> shown vs \<and>
     (\<forall>s. sb_phase sb = SbInitial s \<or> sb_phase sb = SbSending s \<longrightarrow> s \<in> shown vs)"

lemma send_summary_cases:
  assumes "send_summary v sb s c ev = Some sb'"
  shows "sb' = sb\<lparr>sb_phase := c, sb_sent := sb_sent sb @ [s]\<rparr> \<or> sb' = sb\<lparr>sb_phase := SbEnding\<rparr>"
  using assms by (auto simp: send_summary_def split: if_splits)

lemma last_shown:
  assumes "vs \<noteq> []" "vw_latest (last vs) = Inr (Some s)"
  shows "s \<in> shown vs"
  using assms last_in_set [of vs] unfolding shown_def by blast

lemma publish_step_shown:
  assumes "holds_shown vs sb" "publish_step (last vs) sb ev = Some sb'"
  shows "holds_shown vs sb'"
  using assms last_shown [of vs]
  unfolding publish_step_def holds_shown_def
  by (cases "sb_phase sb"; cases ev)
    (auto dest!: send_summary_cases split: if_splits sum.splits option.splits summary_error.splits)

lemma publish_run_shown: "publish_run vs sb \<Longrightarrow> holds_shown vs sb"
proof (induction rule: publish_run.induct)
  case (feed vs sb v)
  then show ?case by (auto simp: holds_shown_def)
next
  case (step vs sb ev sb')
  then show ?case using publish_step_shown by blast
qed (simp add: holds_shown_def subscriber_new_def)

subsection \<open>Properties\<close>

text \<open>A client is only ever sent summaries that its feed's publisher had published, never an
  error; its stream yields exactly those, in order, and then ends with an error status.\<close>

theorem client_receives_published:
  assumes "publish_run vs sb"
  shows "set (sb_sent sb) \<subseteq> {s. \<exists>v \<in> set vs. vw_latest v = Inr (Some s)} \<and>
    into_grpc_stream (sb_sent sb) = map Item (sb_sent sb) @ [StatusUnavailable ''stream ended'']"
  using publish_run_shown [OF assms] by (simp add: holds_shown_def shown_def into_grpc_stream_def)

definition example_view :: feed_view where
  "example_view = \<lparr>vw_latest = Inr (Some example_summary), vw_version = 3, vw_shutdowns = 0\<rparr>"

lemma example_publish_run:
  "publish_run [example_view] \<lparr>sb_phase = SbWatching, sb_shutdown_from = 0, sb_seen = 0,
     sb_sent = [example_summary]\<rparr>"
proof -
  have 1: "publish_run [example_view] subscriber_new" by (rule publish_run.start)
  have 2: "publish_run [example_view] (subscriber_new\<lparr>sb_phase := SbSubscribed\<rparr>)"
    by (rule publish_run.step [OF 1, of SbNext]) (simp add: publish_step_def subscriber_new_def)
  have 3: "publish_run [example_view] (subscriber_new\<lparr>sb_phase := SbReading\<rparr>)"
    by (rule publish_run.step [OF 2, of SbNext])
      (simp add: publish_step_def subscriber_new_def example_view_def)
  have 4: "publish_run [example_view] (subscriber_new\<lparr>sb_phase := SbInitial example_summary\<rparr>)"
    by (rule publish_run.step [OF 3, of SbNext])
      (simp add: publish_step_def subscriber_new_def example_view_def)
  show ?thesis
    by (rule publish_run.step [OF 4, of "SbSend (SendCompleted (Inr ()))"])
      (simp add: publish_step_def subscriber_new_def send_summary_def)
qed

theorem client_receives_published_witness:
  "set (sb_sent \<lparr>sb_phase = SbWatching, sb_shutdown_from = 0, sb_seen = 0, sb_sent = [example_summary]\<rparr>) \<subseteq>
     {s. \<exists>v \<in> set [example_view]. vw_latest v = Inr (Some s)} \<and>
   into_grpc_stream [example_summary] = [Item example_summary, StatusUnavailable ''stream ended'']"
  using client_receives_published [OF example_publish_run] by (simp add: into_grpc_stream_def)

text \<open>A client whose task starts after its feed has been shut down and the publisher has finished
  is stranded: it gets nothing, and once it waits no event can reach it, neither a change nor the
  shutdown signal, so its stream never ends.\<close>

theorem late_subscriber_is_stranded:
  assumes "vw_latest v = Inl SummaryShutdown"
  shows "\<exists>sb. run_task (publish_step v) subscriber_new [SbNext, SbNext, SbNext, SbNext] = Some sb \<and>
    sb_phase sb = SbWaiting \<and> sb_sent sb = [] \<and>
    (\<forall>ev. publish_step v sb ev = None)"
proof -
  let ?sb = "\<lparr>sb_phase = SbWaiting, sb_shutdown_from = vw_shutdowns v, sb_seen = vw_version v, sb_sent = []\<rparr>"
  have "run_task (publish_step v) subscriber_new [SbNext, SbNext, SbNext, SbNext] = Some ?sb"
    using assms by (simp add: publish_step_def subscriber_new_def)
  moreover have "publish_step v ?sb ev = None" for ev
    by (cases ev) (simp_all add: publish_step_def shutdown_pending_def)
  ultimately show ?thesis by simp
qed

theorem late_subscriber_is_stranded_witness:
  "\<exists>sb. run_task (publish_step \<lparr>vw_latest = Inl SummaryShutdown, vw_version = 1, vw_shutdowns = 1\<rparr>)
     subscriber_new [SbNext, SbNext, SbNext, SbNext] = Some sb \<and> sb_phase sb = SbWaiting \<and> sb_sent sb = []"
  using late_subscriber_is_stranded
    [of "\<lparr>vw_latest = Inl SummaryShutdown, vw_version = 1, vw_shutdowns = 1\<rparr>"] by auto

end
