(* ===== verification/Client_Streams.thy ===== *)
theory Client_Streams
  imports Subscribers
begin

section \<open>The stream of a client (service.rs, stream.rs)\<close>

text \<open>
  \<open>open_summary_stream\<close> connects the publishing task of a client and the stream it reads by a bounded
  channel. The state here holds the task, the messages in the channel and what the client has read;
  the task of the client and the client itself interleave with the changes of the feed. A send
  completes while there is room, fails when the receiver is dropped, and waits otherwise.
\<close>

definition CLIENT_BACKLOG_SIZE :: nat where "CLIENT_BACKLOG_SIZE = 1"

datatype stream_phase = StreamOpen | StreamEnding | StreamDropped
  \<comment> \<open>in the \<open>while let\<close>, after the final status, and dropped by a client that disconnects\<close>

record client_stream =
  cl_task :: subscriber
  cl_buffer :: "summary list"
  cl_phase :: stream_phase
  cl_read :: "summary stream_item list"

definition client_stream_new :: client_stream where
  "client_stream_new =
     \<lparr>cl_task = subscriber_new, cl_buffer = [], cl_phase = StreamOpen, cl_read = []\<rparr>"

definition receiver_alive :: "client_stream \<Rightarrow> bool" where
  "receiver_alive c \<longleftrightarrow> cl_phase c \<noteq> StreamDropped"

text \<open>The task steps: a completed send puts its summary into the channel.\<close>

definition client_task_step ::
  "feed_view \<Rightarrow> client_stream \<Rightarrow> subscriber_event \<Rightarrow> client_stream option" where
  "client_task_step v c ev =
     (case publish_step v (cl_task c) ev of
        None \<Rightarrow> None
      | Some sb \<Rightarrow>
          (case ev of
             SbSend (SendCompleted (Inr u)) \<Rightarrow>
               if receiver_alive c \<and> length (cl_buffer c) < CLIENT_BACKLOG_SIZE
               then Some (c\<lparr>cl_task := sb, cl_buffer := cl_buffer c @ [last (sb_sent sb)]\<rparr>)
               else None
           | SbSend (SendCompleted (Inl e)) \<Rightarrow>
               if receiver_alive c then None else Some (c\<lparr>cl_task := sb\<rparr>)
           | _ \<Rightarrow> Some (c\<lparr>cl_task := sb\<rparr>)))"

text \<open>
  The client polls the stream of \<open>into_grpc_stream\<close>: the next message; when the channel is empty and
  its sender dropped, the final status; and then the end of the stream, which changes nothing.
\<close>

definition grpc_poll :: "client_stream \<Rightarrow> (summary stream_item option \<times> client_stream) option" where
  "grpc_poll c =
     (case cl_phase c of
        StreamOpen \<Rightarrow>
          (case cl_buffer c of
             s # rest \<Rightarrow>
               Some (Some (Item s), c\<lparr>cl_buffer := rest, cl_read := cl_read c @ [Item s]\<rparr>)
           | [] \<Rightarrow>
               if sb_phase (cl_task c) = SbDone
               then (let e = StatusUnavailable ''stream ended''
                     in Some (Some e, c\<lparr>cl_phase := StreamEnding, cl_read := cl_read c @ [e]\<rparr>))
               else None)
      | StreamEnding \<Rightarrow> Some (None, c)
      | StreamDropped \<Rightarrow> None)"

definition client_disconnect :: "client_stream \<Rightarrow> client_stream" where
  "client_disconnect c = c\<lparr>cl_phase := StreamDropped, cl_buffer := []\<rparr>"

inductive client_stream_run :: "feed_view list \<Rightarrow> client_stream \<Rightarrow> bool" where
  start: "client_stream_run [v] client_stream_new"
| feed: "client_stream_run vs c \<Longrightarrow> client_stream_run (vs @ [v]) c"
| task: "client_stream_run vs c \<Longrightarrow> client_task_step (last vs) c ev = Some c' \<Longrightarrow> client_stream_run vs c'"
| poll: "client_stream_run vs c \<Longrightarrow> grpc_poll c = Some (r, c') \<Longrightarrow> client_stream_run vs c'"
| disconnect: "client_stream_run vs c \<Longrightarrow> client_stream_run vs (client_disconnect c)"

subsection \<open>The order of what is sent\<close>

text \<open>The summaries a task has sent or holds are read from views of its feed that never go back.\<close>

fun held :: "subscriber_phase \<Rightarrow> summary list" where
  "held (SbInitial s) = [s]"
| "held (SbSending s) = [s]"
| "held _ = []"

definition read_in_order :: "feed_view list \<Rightarrow> summary list \<Rightarrow> bool" where
  "read_in_order vs ss \<longleftrightarrow>
     (\<exists>is. sorted is \<and> (\<forall>i \<in> set is. i < length vs) \<and> map (\<lambda>i. vw_latest (vs ! i)) is = map (Inr \<circ> Some) ss)"

lemma read_in_order_Nil [simp]: "read_in_order vs []"
  by (simp add: read_in_order_def)

lemma read_in_order_prefix:
  assumes "read_in_order vs (ss @ ts)"
  shows "read_in_order vs ss"
proof -
  obtain js where js: "sorted js" "\<forall>i \<in> set js. i < length vs"
    "map (\<lambda>i. vw_latest (vs ! i)) js = map (Inr \<circ> Some) (ss @ ts)"
    using assms unfolding read_in_order_def by blast
  have "map (\<lambda>i. vw_latest (vs ! i)) (take (length ss) js) = map (Inr \<circ> Some) ss"
    using arg_cong [OF js(3), of "take (length ss)"] by (simp add: take_map)
  then show ?thesis
    using js(1,2) unfolding read_in_order_def
    by (intro exI [of _ "take (length ss) js"]) (auto simp: sorted_wrt_take dest: in_set_takeD)
qed

lemma read_in_order_more:
  assumes "read_in_order vs ss"
  shows "read_in_order (vs @ [v]) ss"
proof -
  obtain js where js: "sorted js" "\<forall>i \<in> set js. i < length vs"
    "map (\<lambda>i. vw_latest (vs ! i)) js = map (Inr \<circ> Some) ss"
    using assms unfolding read_in_order_def by blast
  moreover have "map (\<lambda>i. vw_latest ((vs @ [v]) ! i)) js = map (\<lambda>i. vw_latest (vs ! i)) js"
    using js(2) by (simp add: nth_append)
  ultimately show ?thesis unfolding read_in_order_def by (intro exI [of _ js]) auto
qed

lemma read_in_order_last:
  assumes "read_in_order vs ss" "vs \<noteq> []" "vw_latest (last vs) = Inr (Some s)"
  shows "read_in_order vs (ss @ [s])"
proof -
  obtain js where js: "sorted js" "\<forall>i \<in> set js. i < length vs"
    "map (\<lambda>i. vw_latest (vs ! i)) js = map (Inr \<circ> Some) ss"
    using assms(1) unfolding read_in_order_def by blast
  then show ?thesis
    using assms(2,3) unfolding read_in_order_def
    by (intro exI [of _ "js @ [length vs - 1]"])
      (fastforce simp: sorted_append last_conv_nth)
qed

definition task_in_order :: "feed_view list \<Rightarrow> subscriber \<Rightarrow> bool" where
  "task_in_order vs sb \<longleftrightarrow> vs \<noteq> [] \<and> read_in_order vs (sb_sent sb @ held (sb_phase sb))"

lemma publish_step_in_order:
  assumes "task_in_order vs sb" "publish_step (last vs) sb ev = Some sb'"
  shows "task_in_order vs sb'"
  using assms read_in_order_last [of vs "sb_sent sb"] read_in_order_prefix [of vs "sb_sent sb"]
  unfolding publish_step_def task_in_order_def
  by (cases "sb_phase sb"; cases ev)
    (auto dest!: send_summary_cases split: if_splits sum.splits option.splits summary_error.splits)

subsection \<open>The invariant of the stream\<close>

text \<open>A task sends at most one summary in a step, and only on a completed send.\<close>

lemma publish_step_sent:
  assumes "publish_step v sb ev = Some sb'"
  shows "if ev = SbSend (SendCompleted (Inr ())) then \<exists>s. sb_sent sb' = sb_sent sb @ [s]
    else sb_sent sb' = sb_sent sb"
  using assms unfolding publish_step_def
  by (cases "sb_phase sb"; cases ev)
    (auto simp: send_summary_def split: if_splits sum.splits option.splits summary_error.splits)

definition stream_ok :: "feed_view list \<Rightarrow> client_stream \<Rightarrow> bool" where
  "stream_ok vs c \<longleftrightarrow>
     task_in_order vs (cl_task c) \<and> length (cl_buffer c) \<le> CLIENT_BACKLOG_SIZE \<and>
     (case cl_phase c of
        StreamOpen \<Rightarrow> \<exists>ss. cl_read c = map Item ss \<and> sb_sent (cl_task c) = ss @ cl_buffer c
      | StreamEnding \<Rightarrow>
          cl_read c = into_grpc_stream (sb_sent (cl_task c)) \<and> cl_buffer c = [] \<and> sb_phase (cl_task c) = SbDone
      | StreamDropped \<Rightarrow>
          \<exists>ss rest. cl_read c \<in> {map Item ss, into_grpc_stream ss} \<and> sb_sent (cl_task c) = ss @ rest)"

lemma publish_step_done: "publish_step v sb ev = Some sb' \<Longrightarrow> sb_phase sb \<noteq> SbDone"
  by (auto simp: publish_step_def)

lemma client_task_step_ok:
  assumes "stream_ok vs c" "client_task_step (last vs) c ev = Some c'"
  shows "stream_ok vs c'"
proof -
  obtain sb where sb: "publish_step (last vs) (cl_task c) ev = Some sb"
    using assms(2) by (auto simp: client_task_step_def split: option.splits)
  have order: "task_in_order vs sb"
    using publish_step_in_order [OF _ sb] assms(1) by (simp add: stream_ok_def)
  note sent = publish_step_sent [OF sb]
  have open_or_dropped: "cl_phase c \<noteq> StreamEnding"
    using publish_step_done [OF sb] assms(1) by (auto simp: stream_ok_def)
  show ?thesis
  proof (cases "ev = SbSend (SendCompleted (Inr ()))")
    case True
    then obtain s where s: "sb_sent sb = sb_sent (cl_task c) @ [s]" using sent by auto
    have c': "c' = c\<lparr>cl_task := sb, cl_buffer := cl_buffer c @ [s]\<rparr>" "receiver_alive c"
      "length (cl_buffer c) < CLIENT_BACKLOG_SIZE"
      using assms(2) sb unfolding True client_task_step_def by (simp_all add: s split: if_splits)
    then show ?thesis
      using assms(1) order s open_or_dropped
      by (cases "cl_phase c") (auto simp: stream_ok_def receiver_alive_def)
  next
    case False
    then have "c' = c\<lparr>cl_task := sb\<rparr>" "sb_sent sb = sb_sent (cl_task c)"
      using assms(2) sb sent
      by (auto simp: client_task_step_def
          split: subscriber_event.splits send_event.splits sum.splits if_splits)
    then show ?thesis
      using assms(1) order open_or_dropped
      by (cases "cl_phase c") (auto simp: stream_ok_def)
  qed
qed

lemma grpc_poll_ok:
  assumes "stream_ok vs c" "grpc_poll c = Some (r, c')"
  shows "stream_ok vs c'"
proof (cases "cl_phase c")
  case StreamOpen
  then obtain ss where ss: "cl_read c = map Item ss" "sb_sent (cl_task c) = ss @ cl_buffer c"
    using assms(1) by (auto simp: stream_ok_def)
  show ?thesis
  proof (cases "cl_buffer c")
    case Nil
    then show ?thesis
      using assms StreamOpen ss
      by (auto simp: grpc_poll_def stream_ok_def into_grpc_stream_def Let_def split: if_splits)
  next
    case (Cons s rest)
    then have "c' = c\<lparr>cl_buffer := rest, cl_read := map Item (ss @ [s])\<rparr>"
      using assms(2) StreamOpen ss by (simp add: grpc_poll_def)
    then show ?thesis
      using assms(1) StreamOpen ss Cons
      by (auto simp: stream_ok_def simp del: map_append intro!: exI [of _ "ss @ [s]"])
  qed
qed (use assms in \<open>auto simp: grpc_poll_def\<close>)

lemma client_disconnect_ok:
  assumes "stream_ok vs c"
  shows "stream_ok vs (client_disconnect c)"
  using assms
  by (cases "cl_phase c") (auto simp: stream_ok_def client_disconnect_def)

lemma client_stream_run_ok: "client_stream_run vs c \<Longrightarrow> stream_ok vs c"
proof (induction rule: client_stream_run.induct)
  case (start v)
  show ?case
    by (simp add: stream_ok_def client_stream_new_def task_in_order_def subscriber_new_def)
next
  case (feed vs c v)
  then show ?case
    using read_in_order_more by (auto simp: stream_ok_def task_in_order_def split: stream_phase.splits)
next
  case (task vs c ev c')
  then show ?case by (blast intro: client_task_step_ok)
next
  case (poll vs c r c')
  then show ?case by (blast intro: grpc_poll_ok)
next
  case (disconnect vs c)
  show ?case by (rule client_disconnect_ok [OF disconnect.IH])
qed

subsection \<open>Properties\<close>

text \<open>C17: what a client reads are summaries its feed showed, in an order that never goes back, with at
  most one more sent and not yet read; nothing is lost or reordered in between; and a stream that
  has ended gave every summary that was sent and then the error status.\<close>

theorem client_reads_in_order:
  assumes "client_stream_run vs c"
  shows "\<exists>ss rest. cl_read c \<in> {map Item ss, into_grpc_stream ss} \<and>
    sb_sent (cl_task c) = ss @ rest \<and> read_in_order vs ss \<and>
    (cl_phase c = StreamOpen \<longrightarrow> cl_read c = map Item ss \<and> rest = cl_buffer c \<and> length rest \<le> 1) \<and>
    (cl_phase c = StreamEnding \<longrightarrow> cl_read c = into_grpc_stream ss \<and> rest = [])"
proof -
  have ok: "stream_ok vs c" by (rule client_stream_run_ok [OF assms])
  then have order: "read_in_order vs ss" if "sb_sent (cl_task c) = ss @ rest" for ss rest
    using that read_in_order_prefix unfolding stream_ok_def task_in_order_def by (metis append.assoc)
  show ?thesis
    using ok order
    by (cases "cl_phase c") (fastforce simp: stream_ok_def CLIENT_BACKLOG_SIZE_def)+
qed

text \<open>A client that reads the one summary its feed shows, while its task waits for the next.\<close>

lemma client_stream_task_run:
  assumes "run_task (client_task_step (last vs)) c evs = Some c'" "client_stream_run vs c"
  shows "client_stream_run vs c'"
  using assms(1) by (induction rule: run_task_induct) (auto intro: client_stream_run.task assms(2))

definition example_stream :: client_stream where
  "example_stream =
     \<lparr>cl_task = \<lparr>sb_phase = SbWaiting, sb_shutdown_from = 0, sb_seen = 3, sb_sent = [example_summary]\<rparr>,
      cl_buffer = [], cl_phase = StreamOpen, cl_read = [Item example_summary]\<rparr>"

lemma example_stream_run: "client_stream_run [example_view] example_stream"
proof -
  let ?sent = "example_stream\<lparr>cl_buffer := [example_summary], cl_read := []\<rparr>"
  have "run_task (client_task_step (last [example_view])) client_stream_new
      [SbNext, SbNext, SbNext, SbSend (SendCompleted (Inr ())), SbNext] = Some ?sent"
    by (simp add: client_task_step_def client_stream_new_def subscriber_new_def publish_step_def
        example_view_def send_summary_def receiver_alive_def CLIENT_BACKLOG_SIZE_def example_stream_def)
  then have "client_stream_run [example_view] ?sent"
    by (rule client_stream_task_run) (rule client_stream_run.start)
  moreover have "grpc_poll ?sent = Some (Some (Item example_summary), example_stream)"
    by (simp add: grpc_poll_def example_stream_def)
  ultimately show ?thesis by (rule client_stream_run.poll)
qed

theorem client_reads_in_order_witness:
  "read_in_order [example_view] [example_summary] \<and> cl_read example_stream = [Item example_summary]"
  using client_reads_in_order [OF example_stream_run]
  by (auto simp: example_stream_def)

end
