(* ===== verification/Client.thy ===== *)
theory Client
  imports Decimal_Text Entry_Points Client_Streams
begin

section \<open>The command line client (aggclient/src/format.rs, aggclient/src/main.rs)\<close>

text \<open>
  \<open>DisplaySummary\<close> prints a summary; the argument \<open>overflow_checks\<close> tells whether the build checks
  the subtraction of the two time stamps, as a debug build does. The main loop is a function of the
  completions of its \<open>select!\<close>, with the clock at each; \<open>main\<close> runs it once the stream is open.
\<close>

definition latency :: "bool \<Rightarrow> nano_time \<Rightarrow> nano_time \<Rightarrow> panic + nano_time" where
  "latency overflow_checks now arrival_time =
     (if overflow_checks \<and> now < arrival_time then Inl ArithOverflow else Inr (now - arrival_time))"

definition newline :: string where
  "newline = [CHR 0x0A]"

definition level_line :: "level \<Rightarrow> string" where
  "level_line l =
     ''  '' @ pad_left 10 (f64_fmt 8 (lv_price l)) @ '' : '' @ pad_left 10 (f64_fmt 4 (lv_amount l)) @
     '' ['' @ lv_exchange l @ '']'' @ newline"

definition display_summary :: "bool \<Rightarrow> (nat \<Rightarrow> string) \<Rightarrow> int \<Rightarrow> summary \<Rightarrow> panic + string" where
  "display_summary overflow_checks format_duration clock summary =
     bindP (nanos_now clock) (\<lambda>now.
     bindP (latency overflow_checks now (sm_arrival_time summary)) (\<lambda>age.
       Inr (''Latency to now '' @ nanos_pretty format_duration age @ '':'' @ newline @
            ''Spread: '' @ f64_fmt 8 (sm_spread summary) @ newline @
            ''Bids:'' @ newline @ concat (map level_line (sm_bids summary)) @
            ''Asks:'' @ newline @ concat (map level_line (sm_asks summary)))))"

subsection \<open>The main loop\<close>

datatype client_event = StreamNext "summary stream_item option" int | ClientShutdown

datatype client_outcome = ClientOk | ClientError string | ClientPanic panic | ClientRunning

fun client_loop ::
  "bool \<Rightarrow> (nat \<Rightarrow> string) \<Rightarrow> client_event list \<Rightarrow> string list \<Rightarrow> string list \<times> client_outcome" where
  "client_loop chk fmt [] out = (out, ClientRunning)"
| "client_loop chk fmt (StreamNext (Some (Item summary)) clock # evs) out =
     (case display_summary chk fmt clock summary of
        Inl p \<Rightarrow> (out, ClientPanic p)
      | Inr txt \<Rightarrow> client_loop chk fmt evs (out @ [txt @ newline]))"
| "client_loop chk fmt (StreamNext (Some (StatusUnavailable e)) clock # evs) out = (out, ClientError e)"
| "client_loop chk fmt (StreamNext None clock # evs) out = (out, ClientOk)"
| "client_loop chk fmt (ClientShutdown # evs) out = (out, ClientOk)"

text \<open>\<open>main\<close> of the client: \<open>connect\<close> and \<open>book_summary\<close> are the outcomes of the two calls of tonic.
  \<open>None\<close> is a client that still runs when the events are used up.\<close>

definition client_main ::
  "bool \<Rightarrow> (nat \<Rightarrow> string) \<Rightarrow> clap_error + string \<Rightarrow> (string \<Rightarrow> string + unit) \<Rightarrow> string + unit \<Rightarrow>
    client_event list \<Rightarrow> string list \<times> main_exit option" where
  "client_main chk fmt args connect book_summary evs =
     (case parsed_or_exit args of
        Inl ended \<Rightarrow> ([], Some ended)
      | Inr server_addr \<Rightarrow>
          (case connect server_addr of
             Inl e \<Rightarrow> ([], Some (MainReturns (Inl ''Failed to connect to server'')))
           | Inr _ \<Rightarrow>
               (case book_summary of
                  Inl e \<Rightarrow> ([], Some (MainReturns (Inl ''Failed to initiate BookSummary stream'')))
                | Inr _ \<Rightarrow>
                    (case client_loop chk fmt evs [] of
                       (out, ClientOk) \<Rightarrow> (out, Some (MainReturns (Inr ())))
                     | (out, ClientError e) \<Rightarrow> (out, Some (MainReturns (Inl e)))
                     | (out, ClientPanic p) \<Rightarrow> (out, Some (MainPanics p))
                     | (out, ClientRunning) \<Rightarrow> (out, None)))))"

text \<open>The events of a client that reads a whole stream of this server, each item at some time.\<close>

definition stream_events :: "(summary \<times> int) list \<Rightarrow> int \<Rightarrow> client_event list" where
  "stream_events received end_clock =
     map2 (\<lambda>item clock. StreamNext (Some item) clock)
       (into_grpc_stream (map fst received)) (map snd received @ [end_clock]) @
     [StreamNext None end_clock]"

lemma stream_events_unfold:
  "stream_events received end_clock =
    map (\<lambda>(s, clock). StreamNext (Some (Item s)) clock) received @
    [StreamNext (Some (StatusUnavailable ''stream ended'')) end_clock, StreamNext None end_clock]"
proof -
  have "zip (map Item (map fst received) @ [StatusUnavailable ''stream ended'']) (map snd received @ [end_clock]) =
      map (\<lambda>(s, clock). (Item s, clock)) received @ [(StatusUnavailable ''stream ended'', end_clock)]"
    by (simp add: zip_map_map) (induction received; auto)
  then show ?thesis by (simp add: stream_events_def into_grpc_stream_def comp_def case_prod_unfold)
qed

lemma display_summary_ok_iff:
  "(\<exists>txt. display_summary chk fmt clock s = Inr txt) \<longleftrightarrow>
    0 \<le> clock \<and> (chk \<longrightarrow> sm_arrival_time s \<le> word_of_int clock)"
  by (auto simp: display_summary_def latency_def bindP_def nanos_now_def not_less)

text \<open>The summaries that are printed before one makes the client panic, if one does.\<close>

definition printable :: "bool \<Rightarrow> summary \<times> int \<Rightarrow> bool" where
  "printable chk r \<longleftrightarrow> 0 \<le> snd r \<and> (chk \<longrightarrow> sm_arrival_time (fst r) \<le> word_of_int (snd r))"

lemma printable_displays:
  "printable chk (s, clock) \<Longrightarrow> display_summary chk fmt clock s = Inr (projr (display_summary chk fmt clock s))"
  "\<not> printable chk (s, clock) \<Longrightarrow> display_summary chk fmt clock s = Inl (if clock < 0 then UnwrapErr else ArithOverflow)"
  using display_summary_ok_iff [of chk fmt clock s]
  by (auto simp: printable_def) (auto simp: display_summary_def latency_def bindP_def nanos_now_def)

lemma client_loop_prints:
  "client_loop chk fmt (map (\<lambda>(s, clock). StreamNext (Some (Item s)) clock) received @ evs) out =
    (case dropWhile (printable chk) received of
       [] \<Rightarrow> client_loop chk fmt evs (out @ map (\<lambda>(s, clock). projr (display_summary chk fmt clock s) @ newline) received)
     | (s, clock) # later \<Rightarrow>
         (out @ map (\<lambda>(s, clock). projr (display_summary chk fmt clock s) @ newline) (takeWhile (printable chk) received),
          ClientPanic (if clock < 0 then UnwrapErr else ArithOverflow)))"
proof (induction received arbitrary: out)
  case (Cons x received)
  obtain s clock where x: "x = (s, clock)" by (cases x)
  show ?case
  proof (cases "printable chk x")
    case True
    then obtain line where "display_summary chk fmt clock s = Inr line"
      using printable_displays(1) [of chk s clock fmt] by (auto simp: x)
    then show ?thesis using Cons True
      by (cases "dropWhile (printable chk) received") (simp_all add: x case_prod_unfold del: dropWhile_eq_Nil_conv)
  next
    case False
    then show ?thesis using printable_displays(2) [of chk s clock fmt] by (simp add: x)
  qed
qed simp

subsection \<open>Properties\<close>

text \<open>Printing a summary panics exactly when the clock is before the epoch, or when overflow checks
  are on and the summary arrived later than the client's clock; without the checks the latency
  wraps around instead.\<close>

theorem display_panics_exactly:
  "(display_summary chk fmt clock s = Inl p) =
     (clock < 0 \<and> p = UnwrapErr \<or>
      0 \<le> clock \<and> chk \<and> word_of_int clock < sm_arrival_time s \<and> p = ArithOverflow) \<and>
   latency False now arrival = Inr (now - arrival) \<and>
   uint (now - arrival) = (uint now - uint arrival) mod 2 ^ 64"
proof -
  have "uint (now - arrival) = (uint now - uint arrival) mod 2 ^ 64"
    by (simp add: uint_word_ariths)
  then show ?thesis
    by (auto simp: display_summary_def latency_def bindP_def nanos_now_def split: if_splits)
qed

text \<open>A finite price or amount is printed with the asked number of fraction digits, and what is
  printed is within half a unit of the last digit of the exact value of the double.\<close>

theorem printed_number_accurate:
  assumes "\<not> is_nan x" "\<not> is_inf x" "0 < prec"
  shows "\<exists>whole frac. f64_fmt prec x = (if f64_neg x then ''-'' else []) @ whole @ ''.'' @ frac \<and>
    whole \<noteq> [] \<and> list_all is_digit whole \<and> list_all is_digit frac \<and> length frac = prec \<and>
    2 * \<bar>int (digits_val whole * 10 ^ prec + digits_val frac) * 2 ^ 1074 - \<bar>f64_val x\<bar> * 10 ^ prec\<bar> \<le> 2 ^ 1074"
proof -
  let ?n = "scaled_mag prec x"
  have mag: "0 \<le> f64_mag x" "\<bar>f64_val x\<bar> = f64_mag x"
    by (simp_all add: f64_val_def f64_mag_def pattern_mag_def f64_low_def Let_def)
  have "2 * \<bar>int ?n * int (2 ^ 1074) - int (nat (f64_mag x) * 10 ^ prec)\<bar> \<le> int (2 ^ 1074)"
    unfolding scaled_mag_def by (rule round_div_even_near) simp
  moreover have "?n div 10 ^ prec * 10 ^ prec + ?n mod 10 ^ prec = ?n"
    by (rule div_mult_mod_eq)
  ultimately have near: "2 * \<bar>int (?n div 10 ^ prec * 10 ^ prec + ?n mod 10 ^ prec) * 2 ^ 1074 -
      f64_mag x * 10 ^ prec\<bar> \<le> 2 ^ 1074"
    using mag(1) by (simp only: of_nat_mult of_nat_power of_nat_numeral int_nat_eq if_True)
  show ?thesis
    using assms near show_nat_digits fixed_digits_digits
    by (intro exI [of _ "show_nat (?n div 10 ^ prec)"] exI [of _ "fixed_digits prec ?n"])
      (simp add: f64_fmt_def mag(2))
qed

lemma printed_example: "f64_fmt 8 p100 = ''100.00000000''"
proof -
  have m: "f64_mag p100 = 100 * 2 ^ 1074" "\<not> f64_neg p100" "\<not> is_nan p100" "\<not> is_inf p100"
    by (simp_all add: p100_def f64_mag_def f64_low_def pattern_mag_def f64_neg_def is_nan_def is_inf_def
        f64_exp_def f64_frac_def Let_def)
  have "nat (f64_mag p100) * 10 ^ 8 = 10000000000 * 2 ^ 1074"
    by (simp add: m nat_mult_distrib)
  then have "scaled_mag 8 p100 = 10000000000"
    unfolding scaled_mag_def by (simp only: round_div_even_mult zero_less_power zero_less_numeral)
  moreover have "show_nat 100 = ''100''"
  proof -
    have "show_nat 100 = [digit_char 1, digit_char 0, digit_char 0]"
      by (simp add: show_nat.simps)
    also have "\<dots> = ''100''" by code_simp
    finally show ?thesis .
  qed
  moreover have "fixed_digits 8 10000000000 = ''00000000''"
  proof -
    have "fixed_digits 8 (10 ^ 8 * 100) = replicate 8 (digit_char 0)" by (rule fixed_digits_zeros)
    moreover have "replicate 8 (digit_char 0) = ''00000000''" by code_simp
    ultimately show ?thesis by simp
  qed
  ultimately show ?thesis using m by (simp add: f64_fmt_def)
qed

theorem printed_number_accurate_witness:
  "\<exists>whole frac. ''100.00000000'' = whole @ ''.'' @ frac \<and> length frac = 8 \<and> list_all is_digit whole"
proof -
  have "\<not> is_nan p100" "\<not> is_inf p100" "\<not> f64_neg p100" "0 < (8 :: nat)"
    by code_simp+
  then show ?thesis
    using printed_number_accurate [of p100 8] unfolding printed_example by auto
qed

text \<open>C32: what a client does that reads the whole stream of this server: it prints the summaries it
  receives, in order, up to the first that it cannot print, at which it panics: one read while the clock
  is before the epoch, or, when overflow checks are on, one whose time is later than the clock of the
  client. When there is none it prints all and fails with the status that ends the stream. It fails
  at once when it cannot connect or open the stream. In no case does \<open>main\<close> return without an error.\<close>

theorem client_always_ends_with_error:
  "client_main chk fmt (Inr server_addr) connect book_summary (stream_events received end_clock) =
     (case connect server_addr of
        Inl e \<Rightarrow> ([], Some (MainReturns (Inl ''Failed to connect to server'')))
      | Inr _ \<Rightarrow>
          (case book_summary of
             Inl e \<Rightarrow> ([], Some (MainReturns (Inl ''Failed to initiate BookSummary stream'')))
           | Inr _ \<Rightarrow>
               (map (\<lambda>(s, clock). projr (display_summary chk fmt clock s) @ newline) (takeWhile (printable chk) received),
                Some (case dropWhile (printable chk) received of
                    [] \<Rightarrow> MainReturns (Inl ''stream ended'')
                  | (s, clock) # later \<Rightarrow> MainPanics (if clock < 0 then UnwrapErr else ArithOverflow))))) \<and>
   snd (client_main chk fmt (Inr server_addr) connect book_summary (stream_events received end_clock)) \<noteq>
     Some (MainReturns (Inr ()))"
proof (cases "dropWhile (printable chk) received")
  case Nil
  then have "takeWhile (printable chk) received = received"
    using takeWhile_dropWhile_id [of "printable chk" received] by simp
  with Nil show ?thesis
    by (simp add: stream_events_unfold client_main_def parsed_or_exit_def client_loop_prints
        del: dropWhile_eq_Nil_conv takeWhile_eq_all_conv split: sum.split)
next
  case (Cons r later)
  then show ?thesis
    by (cases r) (simp add: stream_events_unfold client_main_def parsed_or_exit_def client_loop_prints split: sum.split)
qed

text \<open>One summary, read in time and read by a client whose clock is behind.\<close>

theorem client_always_ends_with_error_witness:
  "snd (client_main True show_nat (Inr ''http://localhost:50051'') (\<lambda>_. Inr ()) (Inr ())
     (stream_events [(example_summary, 9)] 10)) = Some (MainReturns (Inl ''stream ended'')) \<and>
   snd (client_main True show_nat (Inr ''http://localhost:50051'') (\<lambda>_. Inr ()) (Inr ())
     (stream_events [(example_summary, 0)] 10)) = Some (MainPanics ArithOverflow)"
proof -
  have "printable True (example_summary, 9)" "\<not> printable True (example_summary, 0)"
    by (simp_all add: printable_def example_summary_def)
  then show ?thesis
    using client_always_ends_with_error [of True show_nat "''http://localhost:50051''" "\<lambda>_. Inr ()" "Inr ()" "[(example_summary, 9)]" 10]
      client_always_ends_with_error [of True show_nat "''http://localhost:50051''" "\<lambda>_. Inr ()" "Inr ()" "[(example_summary, 0)]" 10]
    by simp
qed

end
