(* ===== verification/Join_Observer.thy ===== *)
theory Join_Observer
  imports Feed_Properties
begin

section \<open>Observing spawned tasks (aggcommon/src/join_observer.rs)\<close>

text \<open>
  \<open>observe\<close> spawns a task that awaits a join handle and logs one line if it yields an error, which
  tokio makes of a panic or of an abort. The handle of a feed task yields once the task has ended;
  \<open>subscribe\<close> of both exchanges observes it under the name of the exchange. How tokio displays the
  error is the argument \<open>disp\<close>.
\<close>

datatype join_error = JoinPanic panic | JoinCancelled

definition observe ::
  "(join_error \<Rightarrow> string) \<Rightarrow> string \<Rightarrow> (join_error + 'a) option \<Rightarrow> string list option" where
  "observe disp name handle =
     (case handle of
        None \<Rightarrow> None
      | Some (Inr v) \<Rightarrow> Some []
      | Some (Inl e) \<Rightarrow>
          Some [''Task '' @ [CHR 0x27] @ name @ [CHR 0x27] @ '' panicked or was aborted: '' @ disp e])"

text \<open>The join handle of the task of a feed: \<open>None\<close> while it runs.\<close>

definition feed_join :: "feed_task \<Rightarrow> (join_error + unit) option" where
  "feed_join t =
     (case ft_phase t of
        Stopped \<Rightarrow> Some (Inr ())
      | Died p \<Rightarrow> Some (Inl (JoinPanic p))
      | _ \<Rightarrow> None)"

lemma feed_join_simps [simp]:
  "ft_phase t = Stopped \<Longrightarrow> feed_join t = Some (Inr ())"
  "ft_phase t = Died p \<Longrightarrow> feed_join t = Some (Inl (JoinPanic p))"
  "ft_phase t = Streaming \<Longrightarrow> feed_join t = None"
  by (simp_all add: feed_join_def)

lemma observe_simps [simp]:
  "observe disp name None = None" "observe disp name (Some (Inr v)) = Some []"
  by (simp_all add: observe_def)

text \<open>An ended task is observed once and for all: it has no step left.\<close>

lemma joined_ended:
  assumes "feed_join t \<noteq> None"
  shows "binance_step S n t ev = None" "bitstamp_step S sub_msg n t ev = None"
  using assms binance_feed.step_ended [of t _ S n ev] bitstamp_feed.step_ended [of t _ S sub_msg n ev]
  by (auto simp: feed_join_def split: phase.splits)

subsection \<open>Properties\<close>

text \<open>C27: a message on which the parser panics kills the Binance task, and all that tells of it is one
  line of the log: the feed keeps its old snapshot without an error or a notification, and no later
  event, the shutdown signal included, is handled. A task that stops on the signal is not logged.\<close>

theorem parser_panic_is_only_logged:
  assumes "ft_phase t = Streaming" "0 \<le> clock"
    and "binance_parse_orderbook_update S n m (word_of_int clock) = Inl p"
  shows "\<exists>t'. binance_step S n t (ReadNext (Some (Inr (WsText m))) clock) = Some t' \<and>
    ft_feed t' = ft_feed t \<and> binance_step S n t' ev = None \<and>
    observe disp ''binance'' (feed_join t) = None \<and>
    observe disp ''binance'' (feed_join t') =
      Some [''Task '' @ [CHR 0x27] @ ''binance'' @ [CHR 0x27] @ '' panicked or was aborted: '' @ disp (JoinPanic p)] \<and>
    (\<exists>t''. binance_step S n t ShutdownRecv = Some t'' \<and> observe disp ''binance'' (feed_join t'') = Some [])"
proof -
  let ?t = "t\<lparr>ft_phase := Died p\<rparr>"
  have "binance_step S n t (ReadNext (Some (Inr (WsText m))) clock) = Some ?t"
    using assms by (simp add: binance_step_def streaming_step_def binance_on_text_def nanos_now_def)
  moreover have "binance_step S n ?t ev = None" by (rule joined_ended) simp
  moreover have "binance_step S n t ShutdownRecv = Some (t\<lparr>ft_phase := Stopped\<rparr>)"
    using binance_feed.step_shutdown [of t S n] assms(1) by simp
  ultimately show ?thesis using assms(1) by (intro exI [of _ ?t]) (simp add: observe_def)
qed

theorem parser_panic_is_only_logged_witness:
  "\<exists>t'. binance_step example_json 3 example_task (ReadNext (Some (Inr (WsText ''bad entry''))) 7) = Some t' \<and>
    ft_feed t' = feed_new \<and> binance_step example_json 3 t' ShutdownRecv = None \<and>
    observe (\<lambda>e. ''panic'') ''binance'' (feed_join t') =
      Some [''Task '' @ [CHR 0x27] @ ''binance'' @ [CHR 0x27] @ '' panicked or was aborted: panic'']"
  using parser_panic_is_only_logged [OF _ _ example_bad_entry, of example_task ShutdownRecv "\<lambda>e. ''panic''"]
  by (auto simp: example_task_def)

end
