(* ===== verification/Pipeline_Settling.thy ===== *)
theory Pipeline_Settling
  imports Source_Tasks
begin

section \<open>A pipeline settles on the latest snapshots (service/manager.rs, service/publisher.rs)\<close>

text \<open>
  The steps a pipeline takes on its own are those of the source tasks and of the publisher's merge.
  They come to an end when the exchanges are quiet, after a number of steps bounded by the state, and
  no change is lost on the way: what is shown then is the merge of what the feeds hold.
\<close>

inductive pipeline_internal :: "av_push \<Rightarrow> nat \<Rightarrow> pipeline \<Rightarrow> pipeline \<Rightarrow> bool"
  for av :: av_push and n :: nat where
  source: "pl_sources p src = Some (t, Some st) \<Longrightarrow> ev = StPoll \<or> ev = StChanged \<Longrightarrow>
    source_task_step (ft_feed t) st ev = Some st' \<Longrightarrow>
    pipeline_internal av n p (set_source p src t (Some st'))"
| sent: "pl_sources p src = Some (t, Some st) \<Longrightarrow>
    st_phase st = StSending s \<Longrightarrow> source_send (pl_publisher p) s = Some (Inr pb) \<Longrightarrow>
    source_task_step (ft_feed t) st (StSend (SendCompleted (Inr ()))) = Some st' \<Longrightarrow>
    pipeline_internal av n p ((set_source p src t (Some st'))\<lparr>pl_publisher := pb\<rparr>)"
| closed: "pl_sources p src = Some (t, Some st) \<Longrightarrow>
    st_phase st = StSending s \<Longrightarrow> source_send (pl_publisher p) s = Some (Inl s) \<Longrightarrow>
    source_task_step (ft_feed t) st (StSend (SendCompleted (Inl e))) = Some st' \<Longrightarrow>
    pipeline_internal av n p (set_source p src t (Some st'))"
| merge: "publisher_step av n (pl_publisher p) RecvSnapshot = Some pb \<Longrightarrow>
    pipeline_internal av n p (p\<lparr>pl_publisher := pb\<rparr>)"

lemma internal_move: "pipeline_internal av n p p' \<Longrightarrow> pipeline_move S net av n p p'"
  by (induction rule: pipeline_internal.induct) (blast intro: pipeline_move.intros)+

subsection \<open>The steps come to an end\<close>

fun phase_work :: "source_task_phase \<Rightarrow> nat" where
  "phase_work StChecking = 3"
| "phase_work (StSending s) = 2"
| "phase_work StWaiting = 0"
| "phase_work StEnded = 0"

definition task_work :: "exchange_feed \<Rightarrow> source_task \<Rightarrow> nat" where
  "task_work fd st =
     phase_work (st_phase st) + (if st_phase st \<noteq> StEnded \<and> st_seen st \<noteq> watch_version fd then 4 else 0)"

definition source_work :: "pipeline \<Rightarrow> source_id \<Rightarrow> nat" where
  "source_work p src =
     (case pl_sources p src of Some (t, Some st) \<Rightarrow> task_work (ft_feed t) st | _ \<Rightarrow> 0)"

definition pipeline_work :: "pipeline \<Rightarrow> nat" where
  "pipeline_work p =
     source_work p Bitstamp + source_work p Binance + length (pb_queue (pl_publisher p))"

lemma set_source_work:
  assumes "pl_sources p src = Some (t, Some st)"
  shows "pipeline_work (set_source p src t (Some st')) + task_work (ft_feed t) st =
      pipeline_work p + task_work (ft_feed t) st'"
  using assms by (cases src) (simp_all add: pipeline_work_def source_work_def)

lemma set_publisher_work:
  "pipeline_work (p\<lparr>pl_publisher := pb\<rparr>) + length (pb_queue (pl_publisher p)) =
    pipeline_work p + length (pb_queue pb)"
  by (simp add: pipeline_work_def source_work_def)

lemma source_task_step_work:
  assumes "source_task_step fd st ev = Some st'"
  shows "task_work fd st' < task_work fd st"
    "ev = StSend r \<Longrightarrow> task_work fd st' + 1 < task_work fd st"
  using assms
  by (cases ev; auto simp: task_work_def split: if_splits source_task_phase.splits option.splits sum.splits)+

lemma source_send_queue:
  "source_send pb s = Some (Inr pb') \<Longrightarrow> length (pb_queue pb') = Suc (length (pb_queue pb))"
  by (auto simp: source_send_def split: if_splits)

lemma recv_queue:
  "publisher_step av n pb RecvSnapshot = Some pb' \<Longrightarrow> length (pb_queue pb') < length (pb_queue pb)"
  by (auto simp: publish_result_def Let_def split: publisher_phase.splits list.splits sum.splits)

lemma internal_work:
  "pipeline_internal av n p p' \<Longrightarrow> pipeline_work p' < pipeline_work p"
proof (induction rule: pipeline_internal.induct)
  case (source p src t st ev st')
  then show ?case
    using set_source_work [OF source(1), of st'] source_task_step_work(1) [OF source(3)] by linarith
next
  case (sent p src t st s pb st')
  have "task_work (ft_feed t) st' + 1 < task_work (ft_feed t) st"
    by (rule source_task_step_work(2) [OF sent(4) refl])
  then show ?case
    using set_source_work [OF sent(1), of st'] source_send_queue [OF sent(3)]
      set_publisher_work [where p = "set_source p src t (Some st')" and pb = pb] by simp
next
  case (closed p src t st s e st')
  then show ?case
    using set_source_work [OF closed(1), of st'] source_task_step_work(1) [OF closed(4)] by linarith
next
  case (merge p pb)
  then show ?case using set_publisher_work [where p = p and pb = pb] recv_queue [OF merge] by simp
qed

lemma internal_steps_work:
  "(pipeline_internal av n ^^ k) p p' \<Longrightarrow> k + pipeline_work p' \<le> pipeline_work p"
proof (induction k arbitrary: p')
  case (Suc k)
  then obtain q where "(pipeline_internal av n ^^ k) p q" "pipeline_internal av n q p'" by auto
  with Suc.IH [of q] internal_work [of av n q p'] show ?case by simp
qed simp

lemma internal_settles:
  "\<exists>k p'. (pipeline_internal av n ^^ k) p p' \<and> (\<forall>p''. \<not> pipeline_internal av n p' p'')"
proof (induction p rule: measure_induct_rule [of pipeline_work])
  case (less p)
  show ?case
  proof (cases "\<exists>q. pipeline_internal av n p q")
    case True
    then obtain q where q: "pipeline_internal av n p q" by blast
    from less [OF internal_work [OF q]] obtain k p' where
      "(pipeline_internal av n ^^ k) q p'" "\<forall>p''. \<not> pipeline_internal av n p' p''" by blast
    then show ?thesis using q relpowp_Suc_I2 [where P = "pipeline_internal av n"] by blast
  next
    case False
    then show ?thesis by (intro exI [of _ 0] exI [of _ p]) auto
  qed
qed

lemma run_queue_bound: "publisher_run av n sent got pb \<Longrightarrow> length (pb_queue pb) \<le> BACKLOG_SIZE"
proof (induction rule: publisher_run.induct)
  case (recv sent got pb s q pb')
  then show ?case using recv_queue [OF recv(3)] by simp
qed (auto simp: publisher_start_def source_send_def publisher_close_def store_handle_def wait_complete_def
    publish_result_def split: if_splits publisher_phase.splits)

lemma pipeline_work_bound:
  assumes "pipeline_reach ul S net av n i p"
  shows "pipeline_work p \<le> 14 + BACKLOG_SIZE"
proof -
  have "length (pb_queue (pl_publisher p)) \<le> BACKLOG_SIZE"
    using pipeline_reach_ok [OF assms] run_queue_bound unfolding pipeline_ok_def publisher_ok_def by blast
  moreover have "task_work fd st \<le> 7" for fd st
    by (cases "st_phase st") (simp_all add: task_work_def)
  then have "source_work p src \<le> 7" for src
    by (auto simp: source_work_def split: option.splits)
  then have "source_work p Bitstamp \<le> 7" "source_work p Binance \<le> 7" by blast+
  ultimately show ?thesis by (simp add: pipeline_work_def)
qed

subsection \<open>No change is lost\<close>

text \<open>
  What a source task knows of its feed, given all the snapshots the publisher was sent: while it has
  seen the current version it holds the snapshot of the feed, or has sent it.
\<close>

definition task_synced :: "nat \<Rightarrow> contributor_snapshot list \<Rightarrow> source_id \<Rightarrow> exchange_feed \<Rightarrow> source_task \<Rightarrow> bool" where
  "task_synced n sent src fd st \<longleftrightarrow> st_seen st \<le> watch_version fd \<and>
     (st_seen st = watch_version fd \<longrightarrow>
       (case st_phase st of
          StSending s \<Rightarrow> latest fd = Some (Inr s)
        | StWaiting \<Rightarrow> \<forall>s. latest fd = Some (Inr s) \<longrightarrow> s \<in> set sent \<and> last_of n sent src = s
        | _ \<Rightarrow> True))"

definition sources_synced :: "nat \<Rightarrow> contributor_snapshot list \<Rightarrow> pipeline \<Rightarrow> bool" where
  "sources_synced n sent p \<longleftrightarrow>
     (\<forall>src t st. pl_sources p src = Some (t, Some st) \<longrightarrow> task_synced n sent src (ft_feed t) st)"

definition pipeline_synced :: "av_push \<Rightarrow> nat \<Rightarrow> pipeline \<Rightarrow> bool" where
  "pipeline_synced av n p \<longleftrightarrow>
     (\<exists>sent got. publisher_run av n sent got (pl_publisher p) \<and> sources_synced n sent p)"

lemma exchange_step_watch:
  assumes "exchange_step S sub_msg n src t ev = Some t'"
  shows "watch_version (ft_feed t') = watch_version (ft_feed t) \<and> latest (ft_feed t') = latest (ft_feed t) \<or>
    watch_version (ft_feed t) < watch_version (ft_feed t')"
  using assms binance_cell.step_version bitstamp_cell.step_version
  by (cases src) (fastforce simp: exchange_step_def)+

lemma task_synced_exchange:
  assumes "exchange_step S sub_msg n src t ev = Some t'" "task_synced n sent src (ft_feed t) st"
  shows "task_synced n sent src (ft_feed t') st"
  using exchange_step_watch [OF assms(1)] assms(2)
  by (auto simp: task_synced_def split: source_task_phase.splits)

lemma task_synced_step:
  assumes "source_task_step fd st ev = Some st'" "task_synced n sent src fd st"
    and "ev \<noteq> StSend (SendCompleted (Inr ()))"
  shows "task_synced n sent src fd st'"
  using assms
  by (cases ev) (auto simp: task_synced_def split: if_splits source_task_phase.splits option.splits sum.splits)

lemma task_synced_sent:
  assumes "source_task_step fd st (StSend (SendCompleted (Inr ()))) = Some st'" "st_phase st = StSending s"
    and "task_synced n sent src fd st" "cs_source_id s = src"
  shows "task_synced n (sent @ [s]) src fd st'"
  using assms by (auto simp: task_synced_def split: if_splits)

lemma task_synced_other:
  assumes "task_synced n sent src fd st" "cs_source_id s \<noteq> src"
  shows "task_synced n (sent @ [s]) src fd st"
  using assms by (auto simp: task_synced_def split: source_task_phase.splits)

lemma synced_set_source:
  assumes "sources_synced n sent p" "\<And>u. st = Some u \<Longrightarrow> task_synced n sent src (ft_feed t) u"
  shows "sources_synced n sent (set_source p src t st)"
  using assms by (auto simp: sources_synced_def)

lemma synced_set_publisher:
  "sources_synced n sent (p\<lparr>pl_publisher := pb\<rparr>) = sources_synced n sent p"
  by (simp add: sources_synced_def)

lemma run_publisher_step:
  assumes "publisher_run av n sent got pb" "publisher_step av n pb ev = Some pb'"
  shows "\<exists>got'. publisher_run av n sent got' pb'"
proof (cases ev)
  case RecvSnapshot
  then obtain s q where "pb_queue pb = s # q"
    using assms(2) by (auto split: publisher_phase.splits list.splits)
  then show ?thesis using assms RecvSnapshot publisher_run.recv by blast
next
  case RecvShutdown
  then show ?thesis using assms publisher_run.shutdown by blast
qed

lemma synced_task:
  assumes "sources_synced n sent p" "pl_sources p src = Some (t, Some st)"
  shows "task_synced n sent src (ft_feed t) st"
  using assms unfolding sources_synced_def by blast

lemma move_synced:
  assumes "pipeline_move S net av n p p'" "pipeline_ok ul S net av n i p" "pipeline_synced av n p"
  shows "pipeline_synced av n p'"
  using assms
proof (induction rule: pipeline_move.induct)
  case (exchange p src t st ev t')
  obtain se got where run: "publisher_run av n se got (pl_publisher p)" "sources_synced n se p"
    using exchange.prems(2) unfolding pipeline_synced_def by blast
  have "sources_synced n se (set_source p src t' st)"
    using synced_task [OF run(2)] exchange(1) task_synced_exchange [OF conjunct2 [OF wired_stepD [OF exchange(2)]]]
    by (intro synced_set_source [OF run(2)]) simp
  then show ?case using run(1) unfolding pipeline_synced_def by auto
next
  case (source p src t st ev st')
  obtain se got where run: "publisher_run av n se got (pl_publisher p)" "sources_synced n se p"
    using source.prems(2) unfolding pipeline_synced_def by blast
  have "ev \<noteq> StSend (SendCompleted (Inr ()))" using source(2) by auto
  then have "sources_synced n se (set_source p src t (Some st'))"
    using task_synced_step [OF source(3) synced_task [OF run(2) source(1)]]
    by (intro synced_set_source [OF run(2)]) simp
  then show ?case using run(1) unfolding pipeline_synced_def by auto
next
  case (sent p src t st s pb st')
  obtain se got where run: "publisher_run av n se got (pl_publisher p)" "sources_synced n se p"
    using sent.prems(2) unfolding pipeline_synced_def by blast
  have src: "cs_source_id s = src"
    using source_of_ok(2) [OF sent.prems(1) sent(1) refl] sent(2) deliveredD(1)
    by (simp add: good_source_task_def)
  have "sources_synced n (se @ [s]) (set_source p src t (Some st'))"
    using run(2) sent(1) task_synced_sent [OF sent(4,2) _ src] task_synced_other [of n se _ _ _ s] src
    by (auto simp: sources_synced_def)
  then show ?case
    using publisher_run.send [OF run(1) sent(3)]
    unfolding pipeline_synced_def by (auto simp: synced_set_publisher)
next
  case (closed p src t st s e st')
  obtain se got where run: "publisher_run av n se got (pl_publisher p)" "sources_synced n se p"
    using closed.prems(2) unfolding pipeline_synced_def by blast
  have "sources_synced n se (set_source p src t (Some st'))"
    using task_synced_step [OF closed(4) synced_task [OF run(2) closed(1)]]
    by (intro synced_set_source [OF run(2)]) simp
  then show ?case using run(1) unfolding pipeline_synced_def by auto
next
  case (merge p ev pb)
  then show ?case
    using run_publisher_step unfolding pipeline_synced_def
    by (fastforce simp: synced_set_publisher)
next
  case (control p pb)
  then show ?case
    using publisher_run.close publisher_run.guard publisher_run.wait
    unfolding pipeline_synced_def publisher_control_def by (fastforce simp: synced_set_publisher)
qed

lemma pipeline_reach_synced:
  "pipeline_reach ul S net av n i p \<Longrightarrow> pipeline_synced av n p"
proof (induction rule: pipeline_reach.induct)
  case start
  show ?case unfolding pipeline_synced_def sources_synced_def
    using publisher_run.start by (fastforce simp: pipeline_new_def)
next
  case (create p src symbol s)
  then show ?case unfolding pipeline_synced_def
    using synced_set_source [of n _ p None] by fastforce
next
  case (spawn p src t)
  have "task_synced n sent src (ft_feed t) (source_task_new (ft_feed t))" for sent
    by (simp add: task_synced_def source_task_new_def)
  then show ?case using spawn.IH unfolding pipeline_synced_def
    by (auto intro!: synced_set_source)
next
  case (move p p')
  then show ?case using move_synced pipeline_reach_ok by blast
qed

text \<open>In a pipeline without a step of its own every source task waits, or has ended.\<close>

lemma settled_tasks:
  assumes "\<forall>p'. \<not> pipeline_internal av n p p'" "pb_phase (pl_publisher p) = Running c"
  shows "pb_queue (pl_publisher p) = []"
    and "pl_sources p src = Some (t, Some st) \<Longrightarrow>
      st_phase st = StEnded \<or> st_phase st = StWaiting \<and> st_seen st = watch_version (ft_feed t)"
proof -
  show queue: "pb_queue (pl_publisher p) = []"
  proof (rule ccontr)
    assume "pb_queue (pl_publisher p) \<noteq> []"
    then obtain pb where "publisher_step av n (pl_publisher p) RecvSnapshot = Some pb"
      using assms(2) by (cases "pb_queue (pl_publisher p)") (simp_all add: Let_def)
    then show False using assms(1) pipeline_internal.merge by blast
  qed
  assume st: "pl_sources p src = Some (t, Some st)"
  have none: "source_task_step (ft_feed t) st ev = None" if "ev = StPoll \<or> ev = StChanged" for ev
    using assms(1) pipeline_internal.source [OF st that] by (cases "source_task_step (ft_feed t) st ev") auto
  show "st_phase st = StEnded \<or> st_phase st = StWaiting \<and> st_seen st = watch_version (ft_feed t)"
  proof (cases "st_phase st")
    case (StSending s)
    then have "\<exists>pb. source_send (pl_publisher p) s = Some (Inr pb)"
      using queue assms(2) by (simp add: source_send_def receiver_open_def BACKLOG_SIZE_def)
    then show ?thesis
      using assms(1) pipeline_internal.sent [OF st StSending] StSending by fastforce
  qed (use none [of StPoll] none [of StChanged] in \<open>auto split: if_splits\<close>)
qed

lemma example_quiet:
  assumes "pl_sources p = [Binance \<mapsto> (example_streaming, Some \<lparr>st_seen = 1, st_phase = StWaiting\<rparr>)]"
    and "pb_queue (pl_publisher p) = []"
  shows "\<not> pipeline_internal list_push 3 p p'"
  using assms by (auto simp: example_streaming_def split: if_splits publisher_phase.splits elim!: pipeline_internal.cases)

text \<open>No change is lost on the way.\<close>

lemma settled_book:
  assumes "pipeline_reach ul S net av n i p" "\<forall>p'. \<not> pipeline_internal av n p p'"
    and "pb_phase (pl_publisher p) = Running c" "pl_sources p src = Some (t, Some st)"
    and "st_phase st \<noteq> StEnded" "latest (ft_feed t) = Some (Inr s)"
  shows "slot c src = s \<and> (\<exists>sm. latest_summary (pl_publisher p) = Inr (Some sm) \<and> to_proto av n c = Inr sm)"
proof -
  obtain sent got where run: "publisher_run av n sent got (pl_publisher p)" "sources_synced n sent p"
    using pipeline_reach_synced [OF assms(1)] unfolding pipeline_synced_def by blast
  have impl: "c = book_of n got" "sent = got" "result_of av n got (pb_latest (pl_publisher p))"
    using publisher_run_implements [OF run(1)] assms(3) settled_tasks(1) [OF assms(2,3)]
    by (simp_all add: publisher_implements_def)
  have "task_synced n got src (ft_feed t) st"
    using run(2) assms(4) impl(2) unfolding sources_synced_def by blast
  then have "s \<in> set got" "last_of n got src = s"
    using settled_tasks(2) [OF assms(2,3,4)] assms(5,6) by (auto simp: task_synced_def)
  moreover from this have "got \<noteq> []" by auto
  ultimately show ?thesis using impl by (simp add: result_of_def latest_summary_def)
qed

subsection \<open>Properties\<close>

text \<open>C6: when the exchanges are quiet a pipeline settles: it takes at most 14 steps of its own more
  than its channel has room for, in whatever order, until it has none left.\<close>

theorem pipeline_settles:
  assumes "pipeline_reach ul S net av n i p"
  shows "(\<exists>k p'. (pipeline_internal av n ^^ k) p p' \<and> (\<forall>p''. \<not> pipeline_internal av n p' p'')) \<and>
    ((pipeline_internal av n ^^ k) p p' \<longrightarrow> k \<le> 14 + BACKLOG_SIZE)"
  using internal_settles [of av n p] internal_steps_work [of k av n p p'] pipeline_work_bound [OF assms]
  by auto

theorem pipeline_settles_witness:
  "\<exists>k p'. (pipeline_internal list_push 3 ^^ k) (pipeline_new 3) p' \<and>
    (\<forall>p''. \<not> pipeline_internal list_push 3 p' p'')"
  using pipeline_settles [OF pipeline_reach.start [of id example_json example_net list_push 3 example_instrument]]
  by blast

text \<open>No change is lost: in a settled pipeline whose publisher runs, the book holds the latest
  snapshot of every feed whose source task lives, and the summary shown is the merge of that book.\<close>

theorem settled_pipeline_is_up_to_date:
  assumes "pipeline_reach ul S net av n i p" "\<forall>p'. \<not> pipeline_internal av n p p'"
    and "pb_phase (pl_publisher p) = Running c" "pl_sources p src = Some (t, Some st)"
    and "st_phase st \<noteq> StEnded" "latest (ft_feed t) = Some (Inr s)"
  shows "slot c src = s \<and> (\<exists>sm. latest_summary (pl_publisher p) = Inr (Some sm) \<and> to_proto av n c = Inr sm)"
  by (rule settled_book [OF assms])

theorem settled_pipeline_is_up_to_date_witness:
  "\<exists>p c sm. pipeline_reach id example_json example_net list_push 3 example_instrument p \<and>
    pb_phase (pl_publisher p) = Running c \<and> slot c Binance = example_binance_snapshot \<and>
    latest_summary (pl_publisher p) = Inr (Some sm) \<and> to_proto list_push 3 c = Inr sm"
proof -
  obtain p where p: "pipeline_reach id example_json example_net list_push 3 example_instrument p"
    "pl_sources p = [Binance \<mapsto> (example_streaming, Some \<lparr>st_seen = 1, st_phase = StWaiting\<rparr>)]"
    "pb_queue (pl_publisher p) = []"
    "pb_phase (pl_publisher p) = Running (book_of 3 [example_binance_snapshot])"
    using example_settled by blast
  have "\<not> pipeline_internal list_push 3 p p'" for p'
    by (rule example_quiet [OF p(2,3)])
  moreover have "pl_sources p Binance = Some (example_streaming, Some \<lparr>st_seen = 1, st_phase = StWaiting\<rparr>)"
    "latest (ft_feed example_streaming) = Some (Inr example_binance_snapshot)"
    by (simp_all add: p(2) example_streaming_def)
  ultimately show ?thesis
    using settled_pipeline_is_up_to_date [OF p(1) _ p(4)] p(1,4) by auto
qed

end
