(* ===== verification/Client_Progress.thy ===== *)
theory Client_Progress
  imports Client_Streams
begin

section \<open>What a client ends up with (Feed::publish in service/manager.rs)\<close>

text \<open>
  The loop of \<open>publish\<close> follows its feed: once it has noticed a change, a client that has no step left
  has read the latest summary. Before that it need not: \<open>publish\<close> reads the initial summary first and
  subscribes to the changes after that, so what is published in between is not noticed.
\<close>

text \<open>How the view of a feed goes on: the version grows with every change of the result.\<close>

definition view_follows :: "feed_view \<Rightarrow> feed_view \<Rightarrow> bool" where
  "view_follows v v' \<longleftrightarrow> vw_version v \<le> vw_version v' \<and>
     (vw_version v' = vw_version v \<longrightarrow> vw_latest v' = vw_latest v)"

definition publisher_view :: "publisher \<Rightarrow> nat \<Rightarrow> feed_view" where
  "publisher_view pb shutdowns =
     \<lparr>vw_latest = latest_summary pb, vw_version = pb_version pb, vw_shutdowns = shutdowns\<rparr>"

lemma publisher_views_follow:
  assumes "run_task (publisher_step av n) pb evs = Some pb'"
  shows "view_follows (publisher_view pb j) (publisher_view pb' k)"
  using publisher_cell.run_version [OF assms]
  by (auto simp: view_follows_def publisher_view_def latest_summary_def)

text \<open>A client from a point on at which its task has noticed a change of its feed.\<close>

inductive client_follows :: "feed_view list \<Rightarrow> client_stream \<Rightarrow> bool" where
  noticed: "client_stream_run vs c \<Longrightarrow> client_task_step (last vs) c SbChanged = Some c' \<Longrightarrow>
    client_follows vs c'"
| feed: "client_follows vs c \<Longrightarrow> view_follows (last vs) v \<Longrightarrow> client_follows (vs @ [v]) c"
| task: "client_follows vs c \<Longrightarrow> client_task_step (last vs) c ev = Some c' \<Longrightarrow> client_follows vs c'"
| poll: "client_follows vs c \<Longrightarrow> grpc_poll c = Some (r, c') \<Longrightarrow> client_follows vs c'"
| disconnect: "client_follows vs c \<Longrightarrow> client_follows vs (client_disconnect c)"

definition task_follows :: "feed_view \<Rightarrow> subscriber \<Rightarrow> bool" where
  "task_follows v sb \<longleftrightarrow> sb_seen sb \<le> vw_version v \<and>
     (case sb_phase sb of
        SbChecking \<Rightarrow> True
      | SbSending s \<Rightarrow> sb_seen sb = vw_version v \<longrightarrow> vw_latest v = Inr (Some s)
      | SbWaiting \<Rightarrow> sb_seen sb = vw_version v \<longrightarrow>
          (\<forall>s. vw_latest v = Inr (Some s) \<longrightarrow> sb_sent sb \<noteq> [] \<and> last (sb_sent sb) = s)
      | SbEnding \<Rightarrow> True
      | SbDone \<Rightarrow> True
      | _ \<Rightarrow> False)"

lemma task_follows_feed:
  assumes "task_follows v sb" "view_follows v v'"
  shows "task_follows v' sb"
  using assms
  by (cases "sb_phase sb") (auto simp: task_follows_def view_follows_def)

lemma task_follows_step:
  assumes "task_follows v sb" "publish_step v sb ev = Some sb'"
  shows "task_follows v sb'"
  using assms unfolding publish_step_def task_follows_def
  by (cases "sb_phase sb"; cases ev)
    (auto dest!: send_summary_cases split: if_splits sum.splits option.splits summary_error.splits)

lemma client_task_step_publish:
  "client_task_step v c ev = Some c' \<Longrightarrow> publish_step v (cl_task c) ev = Some (cl_task c')"
  by (auto simp: client_task_step_def
      split: option.splits subscriber_event.splits send_event.splits sum.splits if_splits)

lemma task_of_poll: "grpc_poll c = Some (r, c') \<Longrightarrow> cl_task c' = cl_task c"
  by (auto simp: grpc_poll_def Let_def split: stream_phase.splits list.splits if_splits)

lemma client_follows_run:
  "client_follows vs c \<Longrightarrow> client_stream_run vs c \<and> task_follows (last vs) (cl_task c)"
proof (induction rule: client_follows.induct)
  case (noticed vs c c')
  have "cl_task c' = (cl_task c)\<lparr>sb_phase := SbChecking, sb_seen := vw_version (last vs)\<rparr>"
    using client_task_step_publish [OF noticed(2)]
    by (auto simp: publish_step_def split: subscriber_phase.splits if_splits)
  then have "task_follows (last vs) (cl_task c')" by (simp add: task_follows_def)
  then show ?case using client_stream_run.task [OF noticed] by simp
next
  case (feed vs c v)
  then show ?case using client_stream_run.feed task_follows_feed [OF _ feed(2)] by simp
next
  case (task vs c ev c')
  then show ?case
    using client_stream_run.task task_follows_step client_task_step_publish by blast
next
  case (poll vs c r c')
  then show ?case using client_stream_run.poll by (metis task_of_poll)
next
  case (disconnect vs c)
  then show ?case using client_stream_run.disconnect by (simp add: client_disconnect_def)
qed

text \<open>A client and its task that cannot go on while the feed is as it is.\<close>

definition client_stuck :: "feed_view \<Rightarrow> client_stream \<Rightarrow> bool" where
  "client_stuck v c \<longleftrightarrow> cl_phase c = StreamOpen \<and> grpc_poll c = None \<and>
     client_task_step v c SbNext = None \<and> client_task_step v c SbChanged = None \<and>
     client_task_step v c (SbSend (SendCompleted (Inr ()))) = None"

lemma stuck_buffer: "client_stuck v c \<Longrightarrow> cl_buffer c = []"
  by (cases "cl_buffer c") (auto simp: client_stuck_def grpc_poll_def)

lemma send_completes:
  assumes "receiver_alive c" "cl_buffer c = []" "sb_phase (cl_task c) = SbSending s"
  shows "client_task_step v c (SbSend (SendCompleted (Inr ()))) \<noteq> None"
  using assms by (simp add: client_task_step_def publish_step_def send_summary_def CLIENT_BACKLOG_SIZE_def)

lemma ended_poll:
  assumes "cl_phase c = StreamOpen" "cl_buffer c = []" "sb_phase (cl_task c) = SbDone"
  shows "grpc_poll c \<noteq> None"
  using assms by (simp add: grpc_poll_def Let_def)

lemma next_enabled:
  assumes "sb_phase (cl_task c) = SbChecking \<or> sb_phase (cl_task c) = SbEnding"
  shows "client_task_step v c SbNext \<noteq> None"
  using assms by (auto simp: client_task_step_def publish_step_def)

lemma stuck_waits:
  assumes "client_stuck v c" "task_follows v (cl_task c)"
  shows "sb_phase (cl_task c) = SbWaiting" "sb_seen (cl_task c) = vw_version v"
proof -
  have stuck: "cl_phase c = StreamOpen" "client_task_step v c SbNext = None"
    "client_task_step v c (SbSend (SendCompleted (Inr ()))) = None" "client_task_step v c SbChanged = None"
    using assms(1) by (simp_all add: client_stuck_def)
  have "grpc_poll c = None" using assms(1) by (simp add: client_stuck_def)
  then have "sb_phase (cl_task c) \<noteq> SbDone"
    using ended_poll [OF stuck(1) stuck_buffer [OF assms(1)]] by blast
  moreover have "sb_phase (cl_task c) \<noteq> SbSending s" for s
  proof
    assume "sb_phase (cl_task c) = SbSending s"
    moreover have "receiver_alive c" using stuck(1) by (simp add: receiver_alive_def)
    ultimately have "client_task_step v c (SbSend (SendCompleted (Inr ()))) \<noteq> None"
      by (intro send_completes stuck_buffer [OF assms(1)])
    then show False using stuck(3) by contradiction
  qed
  moreover have "sb_phase (cl_task c) \<noteq> SbChecking" "sb_phase (cl_task c) \<noteq> SbEnding"
    using next_enabled stuck(2) by blast+
  ultimately show wait: "sb_phase (cl_task c) = SbWaiting"
    using assms(2) by (auto simp: task_follows_def split: subscriber_phase.splits)
  show "sb_seen (cl_task c) = vw_version v"
    using stuck(4) wait by (auto simp: client_task_step_def publish_step_def split: if_splits)
qed

subsection \<open>Properties\<close>

text \<open>C7: a client whose task has noticed a change keeps up with its feed: whenever neither it nor its
  task has a step left, the last summary it has read is the one its feed shows.\<close>

theorem following_client_is_up_to_date:
  assumes "client_follows vs c" "client_stuck (last vs) c" "vw_latest (last vs) = Inr (Some s)"
  shows "cl_read c \<noteq> [] \<and> last (cl_read c) = Item s"
proof -
  have run: "client_stream_run vs c" "task_follows (last vs) (cl_task c)"
    using client_follows_run [OF assms(1)] by auto
  have "cl_read c = map Item (sb_sent (cl_task c))"
    using client_stream_run_ok [OF run(1)] stuck_buffer [OF assms(2)] assms(2)
    by (auto simp: stream_ok_def client_stuck_def)
  moreover have "sb_sent (cl_task c) \<noteq> [] \<and> last (sb_sent (cl_task c)) = s"
    using run(2) stuck_waits [OF assms(2) run(2)] assms(3) by (simp add: task_follows_def)
  ultimately show ?thesis by (simp add: last_map)
qed

text \<open>C8: an update between the initial read and the subscription is lost on a client: it has read the
  old summary, its feed shows a new one, and neither the client nor its task has a step left until
  the feed changes again or shuts down.\<close>

theorem early_update_is_missed:
  assumes "vw_latest v = Inr (Some a)" "vw_latest v' = Inr (Some b)"
    and "view_follows v v'" "vw_shutdowns v' = vw_shutdowns v"
  shows "\<exists>c. client_stream_run [v, v'] c \<and> cl_read c = [Item a] \<and> client_stuck v' c \<and>
    (\<forall>ev. client_task_step v' c ev = None)"
proof -
  let ?sb = "\<lparr>sb_phase = SbWatching, sb_shutdown_from = vw_shutdowns v, sb_seen = 0, sb_sent = [a]\<rparr>"
  let ?c = "\<lparr>cl_task = ?sb, cl_buffer = [a], cl_phase = StreamOpen, cl_read = []\<rparr>"
  let ?w = "?c\<lparr>cl_task := ?sb\<lparr>sb_phase := SbWaiting, sb_seen := vw_version v'\<rparr>, cl_buffer := [],
      cl_read := [Item a]\<rparr>"
  have "run_task (client_task_step (last [v])) client_stream_new
      [SbNext, SbNext, SbNext, SbSend (SendCompleted (Inr ()))] = Some ?c"
    using assms(1) by (simp add: client_task_step_def client_stream_new_def subscriber_new_def
        publish_step_def send_summary_def receiver_alive_def CLIENT_BACKLOG_SIZE_def)
  then have "client_stream_run [v] ?c"
    by (rule client_stream_task_run) (rule client_stream_run.start)
  from client_stream_run.feed [OF this, of v'] have "client_stream_run [v, v'] ?c" by simp
  moreover have "grpc_poll ?c = Some (Some (Item a), ?c\<lparr>cl_buffer := [], cl_read := [Item a]\<rparr>)"
    by (simp add: grpc_poll_def)
  ultimately have "client_stream_run [v, v'] (?c\<lparr>cl_buffer := [], cl_read := [Item a]\<rparr>)"
    by (rule client_stream_run.poll)
  moreover have "client_task_step (last [v, v']) (?c\<lparr>cl_buffer := [], cl_read := [Item a]\<rparr>) SbNext = Some ?w"
    by (simp add: client_task_step_def publish_step_def)
  ultimately have run: "client_stream_run [v, v'] ?w"
    by (rule client_stream_run.task)
  have none: "client_task_step v' ?w ev = None" for ev
    using assms(4) by (cases ev) (simp_all add: client_task_step_def publish_step_def shutdown_pending_def)
  then have "client_stuck v' ?w"
    by (simp add: client_stuck_def grpc_poll_def)
  with run none show ?thesis by (intro exI [of _ ?w]) simp
qed

definition next_summary :: summary where
  "next_summary = example_summary\<lparr>sm_arrival_time := sm_arrival_time example_summary + 1\<rparr>"

definition next_view :: feed_view where
  "next_view = example_view\<lparr>vw_latest := Inr (Some next_summary), vw_version := 4\<rparr>"

theorem early_update_is_missed_witness:
  "\<exists>c. client_stream_run [example_view, next_view] c \<and> cl_read c = [Item example_summary] \<and>
    client_stuck next_view c \<and> vw_latest next_view \<noteq> Inr (Some example_summary)"
proof -
  have "vw_latest example_view = Inr (Some example_summary)" "vw_latest next_view = Inr (Some next_summary)"
    "view_follows example_view next_view" "vw_shutdowns next_view = vw_shutdowns example_view"
    by (simp_all add: example_view_def next_view_def view_follows_def)
  from early_update_is_missed [OF this] show ?thesis
    by (auto simp: next_view_def next_summary_def example_summary_def)
qed

text \<open>The client of the example, one change later.\<close>

definition followed_stream :: client_stream where
  "followed_stream =
     \<lparr>cl_task = \<lparr>sb_phase = SbWaiting, sb_shutdown_from = 0, sb_seen = 4,
        sb_sent = [example_summary, next_summary]\<rparr>,
      cl_buffer = [], cl_phase = StreamOpen, cl_read = [Item example_summary, Item next_summary]\<rparr>"

lemma client_follows_task_run:
  assumes "run_task (client_task_step (last vs)) c evs = Some c'" "client_follows vs c"
  shows "client_follows vs c'"
  using assms(1) by (induction rule: run_task_induct) (auto intro: client_follows.task assms(2))

lemma example_follows: "client_follows [example_view, next_view] followed_stream"
proof -
  let ?sent = "followed_stream\<lparr>cl_buffer := [next_summary], cl_read := [Item example_summary]\<rparr>"
  have run: "client_stream_run [example_view, next_view] example_stream"
    using client_stream_run.feed [OF example_stream_run, of next_view] by simp
  obtain c where c: "client_task_step (last [example_view, next_view]) example_stream SbChanged = Some c"
    "run_task (client_task_step (last [example_view, next_view])) c
      [SbNext, SbSend (SendCompleted (Inr ()))] = Some ?sent"
    by (simp add: client_task_step_def publish_step_def example_stream_def next_view_def example_view_def
        send_summary_def receiver_alive_def CLIENT_BACKLOG_SIZE_def followed_stream_def)
  have "client_follows [example_view, next_view] ?sent"
    by (rule client_follows_task_run [OF c(2) client_follows.noticed [OF run c(1)]])
  moreover have "grpc_poll ?sent = Some (Some (Item next_summary), followed_stream)"
    by (simp add: grpc_poll_def followed_stream_def)
  ultimately show ?thesis by (rule client_follows.poll)
qed

theorem following_client_is_up_to_date_witness:
  "last (cl_read followed_stream) = Item next_summary \<and> client_follows [example_view, next_view] followed_stream"
proof -
  have "client_stuck (last [example_view, next_view]) followed_stream"
    "vw_latest (last [example_view, next_view]) = Inr (Some next_summary)"
    by (simp_all add: client_stuck_def grpc_poll_def followed_stream_def client_task_step_def publish_step_def
        next_view_def)
  from following_client_is_up_to_date [OF example_follows this] show ?thesis
    using example_follows by simp
qed

end
