(* ===== verification/Source_Start.thy ===== *)
theory Source_Start
  imports Source_Tasks
begin

section \<open>Starting the sources of a feed (start_summary_sources in service/manager.rs)\<close>

text \<open>
  \<open>start_summary_sources\<close> creates the sources of an instrument and spawns a source task for each; a
  join handle is modelled by the source and the task it stands for. What it starts, next to the
  publisher that \<open>open\<close> has started before, is a state of the pipeline.
\<close>

type_synonym source_handle = "summary_source \<times> source_task"

definition spawn_source_task :: "summary_source \<Rightarrow> source_handle" where
  "spawn_source_task source = (source, source_task_new (ft_feed (src_task source)))"

definition start_summary_sources ::
  "source_id list \<Rightarrow> summary_source factory_map \<Rightarrow> instrument \<Rightarrow> panic + (string + source_handle list)" where
  "start_summary_sources ord fm i =
     tryP (create_summary_sources ord fm i) (\<lambda>summary_sources.
       okP (fold (\<lambda>source source_tasks. source_tasks @ [spawn_source_task source]) summary_sources []))"

definition started_pipeline :: "nat \<Rightarrow> source_handle list \<Rightarrow> pipeline" where
  "started_pipeline n handles =
     fold (\<lambda>(s, st) p. set_source p (src_id s) (src_task s) (Some st)) handles (pipeline_new n)"

lemma fold_spawn:
  "fold (\<lambda>s ts. ts @ [spawn_source_task s]) ss acc = acc @ map spawn_source_task ss"
  by (induction ss arbitrary: acc) simp_all

lemma start_summary_sources_ok:
  "start_summary_sources ord fm i = okP handles \<longleftrightarrow>
    (\<exists>ss. create_summary_sources ord fm i = okP ss \<and> handles = map spawn_source_task ss)"
  by (auto simp: start_summary_sources_def tryP_eq_ok fold_spawn)

lemma started_pipeline_snoc:
  "started_pipeline n (hs @ [(s, st)]) =
    set_source (started_pipeline n hs) (src_id s) (src_task s) (Some st)"
  by (simp add: started_pipeline_def)

lemma started_pipeline_dom:
  "dom (pl_sources (started_pipeline n hs)) = src_id ` fst ` set hs"
proof (induction hs rule: rev_induct)
  case Nil
  then show ?case by (simp add: started_pipeline_def pipeline_new_def)
next
  case (snoc h hs)
  obtain a b where "h = (a, b)" by (cases h)
  then show ?case by (simp add: started_pipeline_snoc dom_fun_upd snoc.IH del: fun_upd_apply)
qed

lemma started_pipeline_publisher [simp]:
  "pl_publisher (started_pipeline n hs) = publisher_start n"
proof (induction hs rule: rev_induct)
  case (snoc h hs)
  then show ?case by (cases h) (simp add: started_pipeline_snoc)
qed (simp add: started_pipeline_def pipeline_new_def)

lemma started_sources_reach:
  assumes "distinct (map fst es)" "\<forall>(s, y) \<in> set es. in_source_mapping i s = Some y"
    and "map (entry_source (new_factory_map ul n)) es = map okP ss"
  shows "pipeline_reach ul S net av n i (started_pipeline n (map spawn_source_task ss)) \<and>
    map src_id ss = map fst es"
  using assms
proof (induction es arbitrary: ss rule: rev_induct)
  case Nil
  then show ?case by (simp add: started_pipeline_def pipeline_reach.start)
next
  case (snoc e es)
  obtain src symbol where e: "e = (src, symbol)" by (cases e)
  obtain ss' s where ss: "ss = ss' @ [s]" "entry_source (new_factory_map ul n) (src, symbol) = okP s"
    "map (entry_source (new_factory_map ul n)) es = map okP ss'"
    using snoc.prems(3) e by (cases ss rule: rev_cases) auto
  let ?p = "started_pipeline n (map spawn_source_task ss')"
  have IH: "pipeline_reach ul S net av n i ?p" "map src_id ss' = map fst es"
    using snoc.IH [OF _ _ ss(3)] snoc.prems(1,2) by auto
  have id: "src_id s = src" by (rule shipped_entry_source(1) [OF ss(2)])
  have "src \<notin> src_id ` set ss'"
    using snoc.prems(1) e by (simp flip: IH(2) set_map)
  then have "pl_sources ?p src = None"
    using started_pipeline_dom [of n "map spawn_source_task ss'"]
    by (auto simp: spawn_source_task_def image_image domIff dest!: equalityD1)
  from pipeline_reach.create [OF IH(1) this _ ss(2)] snoc.prems(2) e
  have "pipeline_reach ul S net av n i (set_source ?p src (src_task s) None)"
    by (simp add: id)
  from pipeline_reach.spawn [OF this, of src "src_task s"]
  have "pipeline_reach ul S net av n i
      (set_source ?p src (src_task s) (Some (source_task_new (ft_feed (src_task s)))))"
    by simp
  moreover have "started_pipeline n (map spawn_source_task ss) =
      set_source ?p src (src_task s) (Some (source_task_new (ft_feed (src_task s))))"
    using started_pipeline_snoc [of n "map spawn_source_task ss'" s "source_task_new (ft_feed (src_task s))"]
    by (simp add: ss(1) id flip: spawn_source_task_def)
  ultimately show ?case using IH(2) e by (simp add: ss(1) id)
qed

lemma source_mapping_iter_distinct:
  assumes "distinct ord"
  shows "distinct (map fst (source_mapping_iter ord i))"
proof -
  have "map fst (source_mapping_iter ord i) = filter (\<lambda>s. in_source_mapping i s \<noteq> None) ord"
    by (induction ord) (auto simp: source_mapping_iter_def List.map_filter_simps split: option.splits)
  then show ?thesis using assms by simp
qed

lemma start_summary_sources_pipeline:
  assumes "iteration_order ord" "start_summary_sources ord (new_factory_map ul n) i = okP handles"
  shows "pipeline_reach ul S net av n i (started_pipeline n handles)"
    "dom (pl_sources (started_pipeline n handles)) = dom (in_source_mapping i)"
    "length handles = card (dom (in_source_mapping i))"
proof -
  let ?es = "source_mapping_iter ord i"
  have dist: "distinct (map fst ?es)"
    using assms(1) by (simp add: iteration_order_def source_mapping_iter_distinct)
  have entries: "set ?es = {(s, y). in_source_mapping i s = Some y}"
    by (rule source_mapping_iter_set [OF assms(1)])
  have dom: "fst ` set ?es = dom (in_source_mapping i)"
    unfolding entries by force
  obtain ss where ss: "handles = map spawn_source_task ss"
    "map (entry_source (new_factory_map ul n)) ?es = map okP ss"
    using assms(2) by (auto simp: start_summary_sources_ok create_summary_sources_collect collect_sources_ok)
  have entries': "\<forall>(s, y) \<in> set ?es. in_source_mapping i s = Some y" unfolding entries by simp
  note started = started_sources_reach [OF dist entries' ss(2), of S net av]
  from started show "pipeline_reach ul S net av n i (started_pipeline n handles)"
    by (simp add: ss(1))
  from started have ids: "map src_id ss = map fst ?es" by simp
  have "src_id ` fst ` set handles = fst ` set ?es"
    using arg_cong [OF ids, of set] by (simp add: ss(1) spawn_source_task_def image_image)
  then show "dom (pl_sources (started_pipeline n handles)) = dom (in_source_mapping i)"
    by (simp add: started_pipeline_dom dom)
  show "length handles = card (dom (in_source_mapping i))"
    using distinct_card [OF dist] arg_cong [OF ids, of length] by (simp add: ss(1) flip: dom)
qed

subsection \<open>Properties\<close>

text \<open>Starting the sources of an instrument gives one handle for each exchange of its mapping, and
  a state of the pipeline, so that what is proved about the pipeline holds for every feed that is
  opened; with a depth of at most ten it always succeeds.\<close>

theorem started_feed_is_pipeline:
  assumes "iteration_order ord"
  shows "(start_summary_sources ord (new_factory_map ul n) i = okP handles \<longrightarrow>
      pipeline_reach ul S net av n i (started_pipeline n handles) \<and>
      pl_publisher (started_pipeline n handles) = publisher_start n \<and>
      dom (pl_sources (started_pipeline n handles)) = dom (in_source_mapping i) \<and>
      length handles = card (dom (in_source_mapping i))) \<and>
    (n \<le> 10 \<longrightarrow> (\<exists>hs. start_summary_sources ord (new_factory_map ul n) i = okP hs))"
  using start_summary_sources_pipeline(1) [OF assms, where S = S and net = net and av = av]
    start_summary_sources_pipeline(2,3) [OF assms]
    shipped_factories_ok [of n ord ul i]
  by (auto simp: start_summary_sources_ok)

theorem started_feed_is_pipeline_witness:
  "\<exists>hs. start_summary_sources [Bitstamp, Binance] (new_factory_map id 10) example_instrument = okP hs \<and>
    length hs = 1"
proof -
  have o: "iteration_order [Bitstamp, Binance]"
    by (auto simp: iteration_order_def UNIV_source_id)
  have "dom (in_source_mapping example_instrument) = {Binance}"
    by (auto simp: example_instrument_def instrument_new_def split: if_splits)
  then show ?thesis
    using started_feed_is_pipeline [OF o, of id 10 example_instrument _ example_json example_net list_push] by auto
qed

end
