(* ===== verification/Feed_Manager.thy ===== *)
theory Feed_Manager
  imports Subscribers
begin

section \<open>The manager of the feeds (service/manager.rs, service.rs)\<close>

text \<open>
  The manager keeps the open feeds by symbol. An \<open>Arc<Feed>\<close> is an index into \<open>mg_heap\<close>, the list of
  all feeds ever made, so that \<open>Arc::ptr_eq\<close> is equality of indices. Each operation below is what
  one task does while it holds the \<open>feeds\<close> lock, or between two points where others can run.
  The subscription counter is an \<open>AtomicUsize\<close>: a 64 bit word that wraps.

  The publisher of a feed is the component \<open>publisher\<close>; the sources that feed it are the pipeline of
  \<open>Source_Tasks\<close>, of which the manager only keeps the number of join handles.
\<close>

definition GRACE_PERIOD_SECS :: nat where "GRACE_PERIOD_SECS = 10"

record feed =
  fd_instrument :: instrument
  fd_publisher :: publisher
  fd_subscriptions :: "64 word"
  fd_shutdowns :: nat             \<comment> \<open>messages sent on \<open>feed_shutdown_tx\<close>\<close>
  fd_source_tasks :: nat          \<comment> \<open>join handles in \<open>source_tasks\<close>\<close>
  fd_guarded :: bool              \<comment> \<open>\<open>shutdown_guard\<close> is locked\<close>

text \<open>A task spawned by \<open>on_unsubscribe\<close>, waiting for the end of the grace period.\<close>

datatype grace_phase = GraceSpawned | GraceWaiting | GraceNotified

record grace_task =
  gr_feed :: nat
  gr_phase :: grace_phase

text \<open>A task in \<open>Feed::shutdown\<close> for the first of \<open>sd_feeds\<close>; the manager goes on with the others.\<close>

datatype shutdown_phase =
    SdLocking              \<comment> \<open>waiting for \<open>shutdown_guard\<close>\<close>
  | SdJoining nat          \<comment> \<open>waiting for so many handles of source tasks\<close>
  | SdCompleting           \<comment> \<open>in \<open>wait_complete\<close>\<close>

record shutdown_task =
  sd_feeds :: "nat list"
  sd_phase :: shutdown_phase

record client_task =
  ct_feed :: nat
  ct_subscriber :: subscriber

record manager =
  mg_feeds :: "string \<rightharpoonup> nat"
  mg_shutting_down :: bool
  mg_heap :: "feed list"
  mg_clients :: "client_task list"
  mg_grace :: "grace_task list"
  mg_shutdowns :: "shutdown_task list"
  mg_orphans :: "publisher list"    \<comment> \<open>publishers started for a feed that was not made\<close>

definition manager_new :: manager where
  "manager_new =
     \<lparr>mg_feeds = Map.empty, mg_shutting_down = False, mg_heap = [], mg_clients = [], mg_grace = [],
      mg_shutdowns = [], mg_orphans = []\<rparr>"

definition new_feed :: "instrument \<Rightarrow> publisher \<Rightarrow> nat \<Rightarrow> feed" where
  "new_feed instrument publisher source_tasks =
     \<lparr>fd_instrument = instrument, fd_publisher = publisher, fd_subscriptions = 0, fd_shutdowns = 0,
      fd_source_tasks = source_tasks, fd_guarded = False\<rparr>"

definition feed_view_of :: "feed \<Rightarrow> feed_view" where
  "feed_view_of fd =
     \<lparr>vw_latest = latest_summary (fd_publisher fd), vw_version = pb_version (fd_publisher fd),
      vw_shutdowns = fd_shutdowns fd\<rparr>"

definition update_feed :: "nat \<Rightarrow> (feed \<Rightarrow> feed) \<Rightarrow> manager \<Rightarrow> manager" where
  "update_feed fid f m = m\<lparr>mg_heap := (mg_heap m)[fid := f (mg_heap m ! fid)]\<rparr>"

subsection \<open>Opening a feed\<close>

text \<open>\<open>factories\<close> is \<open>create_summary_sources\<close> on the manager's factory map; the publisher is started
  before the sources, so a failure of the sources leaves its task behind.\<close>

definition manager_open ::
  "nat \<Rightarrow> (instrument \<Rightarrow> panic + (string + 'src list)) \<Rightarrow> instrument_map \<Rightarrow> string \<Rightarrow> manager \<Rightarrow>
    (panic + (string + nat)) \<times> manager" where
  "manager_open n create_sources instruments symbol m =
     (if mg_shutting_down m then (errP ''Manager is shutting down'', m)
      else case mg_feeds m symbol of
        Some fid \<Rightarrow> (okP fid, m)
      | None \<Rightarrow>
          (case instrument_map_get instruments symbol of
             None \<Rightarrow> (errP (''Instrument not found: '' @ symbol), m)
           | Some instrument \<Rightarrow>
               (let pb = publisher_start n
                in case create_sources instrument of
                     Inl p \<Rightarrow> (Inl p, m\<lparr>mg_orphans := pb # mg_orphans m\<rparr>)
                   | Inr (Inl e) \<Rightarrow> (errP e, m\<lparr>mg_orphans := pb # mg_orphans m\<rparr>)
                   | Inr (Inr sources) \<Rightarrow>
                       (let fid = length (mg_heap m)
                        in (okP fid,
                            m\<lparr>mg_heap := mg_heap m @ [new_feed instrument pb (length sources)],
                              mg_feeds := (mg_feeds m)(symbol \<mapsto> fid)\<rparr>)))))"

subsection \<open>The gRPC service\<close>

record aggregator_service =
  as_manager :: manager
  as_default_symbol :: string

definition aggregator_service_new :: "manager \<Rightarrow> string \<Rightarrow> aggregator_service" where
  "aggregator_service_new m default_symbol = \<lparr>as_manager = m, as_default_symbol = default_symbol\<rparr>"

text \<open>tonic's \<open>OrderbookAggregatorServer\<close> only wraps the service.\<close>

definition create_server :: "manager \<Rightarrow> string \<Rightarrow> aggregator_service" where
  "create_server m default_symbol = aggregator_service_new m default_symbol"

lemma create_server_sel [simp]:
  "as_manager (create_server m s) = m" "as_default_symbol (create_server m s) = s"
  by (simp_all add: create_server_def aggregator_service_new_def)

datatype grpc_code = GrpcInternal | GrpcInvalidArgument

text \<open>\<open>open_summary_stream\<close>: open the feed and spawn the task that publishes to the client.\<close>

definition open_summary_stream ::
  "nat \<Rightarrow> (instrument \<Rightarrow> panic + (string + 'src list)) \<Rightarrow> instrument_map \<Rightarrow> string \<Rightarrow> manager \<Rightarrow>
    (panic + (grpc_code \<times> string + nat)) \<times> manager" where
  "open_summary_stream n create_sources instruments symbol m =
     (case manager_open n create_sources instruments symbol m of
        (Inl p, m') \<Rightarrow> (Inl p, m')
      | (Inr (Inl e), m') \<Rightarrow> (errP (GrpcInternal, ''Failed to open stream: '' @ e), m')
      | (Inr (Inr fid), m') \<Rightarrow>
          (okP fid,
           m'\<lparr>mg_clients := mg_clients m' @ [\<lparr>ct_feed = fid, ct_subscriber = subscriber_new\<rparr>]\<rparr>))"

definition book_summary ::
  "nat \<Rightarrow> (instrument \<Rightarrow> panic + (string + 'src list)) \<Rightarrow> instrument_map \<Rightarrow> string \<Rightarrow> manager \<Rightarrow>
    (panic + (grpc_code \<times> string + nat)) \<times> manager" where
  "book_summary n create_sources instruments default_symbol m =
     open_summary_stream n create_sources instruments default_symbol m"

definition book_summary_for_symbol ::
  "nat \<Rightarrow> (instrument \<Rightarrow> panic + (string + 'src list)) \<Rightarrow> instrument_map \<Rightarrow> string \<Rightarrow> manager \<Rightarrow>
    (panic + (grpc_code \<times> string + nat)) \<times> manager" where
  "book_summary_for_symbol n create_sources instruments symbol m =
     (if symbol = [] then (errP (GrpcInvalidArgument, ''Symbol cannot be empty''), m)
      else open_summary_stream n create_sources instruments symbol m)"

subsection \<open>Subscriptions\<close>

text \<open>\<open>notify_waiters\<close> reaches the tasks that are already waiting, and only those.\<close>

definition notify_grace :: "nat \<Rightarrow> grace_task list \<Rightarrow> grace_task list" where
  "notify_grace fid = map (\<lambda>g. if gr_feed g = fid \<and> gr_phase g = GraceWaiting
     then g\<lparr>gr_phase := GraceNotified\<rparr> else g)"

definition on_subscribe :: "nat \<Rightarrow> manager \<Rightarrow> manager" where
  "on_subscribe fid m =
     (let count = fd_subscriptions (mg_heap m ! fid);
          m' = update_feed fid (\<lambda>fd. fd\<lparr>fd_subscriptions := count + 1\<rparr>) m
      in if count = 0 then m'\<lparr>mg_grace := notify_grace fid (mg_grace m')\<rparr> else m')"

definition on_unsubscribe :: "nat \<Rightarrow> manager \<Rightarrow> manager" where
  "on_unsubscribe fid m =
     (let count = fd_subscriptions (mg_heap m ! fid);
          m' = update_feed fid (\<lambda>fd. fd\<lparr>fd_subscriptions := count - 1\<rparr>) m
      in if count = 1
         then m'\<lparr>mg_grace := mg_grace m' @ [\<lparr>gr_feed = fid, gr_phase = GraceSpawned\<rparr>]\<rparr>
         else m')"

text \<open>A step of the publishing task of a client, with its effect on the manager.\<close>

definition client_step :: "nat \<Rightarrow> subscriber_event \<Rightarrow> manager \<Rightarrow> manager option" where
  "client_step k ev m =
     (let ct = mg_clients m ! k
      in case publish_step (feed_view_of (mg_heap m ! ct_feed ct)) (ct_subscriber ct) ev of
           None \<Rightarrow> None
         | Some sb \<Rightarrow>
             (let m' = m\<lparr>mg_clients := (mg_clients m)[k := ct\<lparr>ct_subscriber := sb\<rparr>]\<rparr>
              in Some (if sb_phase (ct_subscriber ct) = SbStart then on_subscribe (ct_feed ct) m'
                       else if sb_phase (ct_subscriber ct) = SbEnding then on_unsubscribe (ct_feed ct) m'
                       else m')))"

subsection \<open>Shutting down\<close>

text \<open>
  \<open>Feed::shutdown\<close> between its waits. With the guard taken it signals the sources, closes the
  publisher and takes the handles; then it waits for each source task in turn, and at last for the
  publisher. \<open>None\<close> is a wait that cannot end yet. \<open>ended k\<close> says whether the source task has ended
  whose handle has \<open>k\<close> others after it: \<open>handle.await\<close> returns then and not before. What ends
  the source tasks is the business of the pipelines.
\<close>

definition feed_shutdown :: "feed \<Rightarrow> feed" where
  "feed_shutdown fd =
     fd\<lparr>fd_guarded := True, fd_shutdowns := fd_shutdowns fd + 1,
       fd_publisher := publisher_close (fd_publisher fd), fd_source_tasks := 0\<rparr>"

fun feed_shutdown_step ::
  "(nat \<Rightarrow> bool) \<Rightarrow> shutdown_phase \<Rightarrow> feed \<Rightarrow> (feed \<times> shutdown_phase option) option" where
  "feed_shutdown_step ended SdLocking fd =
     (if fd_guarded fd then None
      else Some (feed_shutdown fd, Some (SdJoining (fd_source_tasks fd))))"
| "feed_shutdown_step ended (SdJoining (Suc k)) fd =
     (if ended k then Some (fd, Some (SdJoining k)) else None)"
| "feed_shutdown_step ended (SdJoining 0) fd = Some (fd, Some SdCompleting)"
| "feed_shutdown_step ended SdCompleting fd =
     (case wait_complete (fd_publisher fd) of
        None \<Rightarrow> None
      | Some (r, pb) \<Rightarrow> Some (fd\<lparr>fd_publisher := pb, fd_guarded := False\<rparr>, None))"

definition shutdown_step :: "(nat \<Rightarrow> nat \<Rightarrow> bool) \<Rightarrow> nat \<Rightarrow> manager \<Rightarrow> manager option" where
  "shutdown_step ended k m =
     (let task = mg_shutdowns m ! k
      in case sd_feeds task of
           [] \<Rightarrow> None
         | fid # rest \<Rightarrow>
             (case feed_shutdown_step (ended fid) (sd_phase task) (mg_heap m ! fid) of
                None \<Rightarrow> None
              | Some (fd, next_phase) \<Rightarrow>
                  (let task' = (case next_phase of
                       Some ph \<Rightarrow> task\<lparr>sd_phase := ph\<rparr>
                     | None \<Rightarrow> \<lparr>sd_feeds = rest, sd_phase = SdLocking\<rparr>)
                   in Some (update_feed fid (\<lambda>_. fd)
                        (m\<lparr>mg_shutdowns := (mg_shutdowns m)[k := task']\<rparr>)))))"

text \<open>The lock on the feeds is released before the removed feed is shut down.\<close>

definition remove_feed_if_unused :: "nat \<Rightarrow> manager \<Rightarrow> manager" where
  "remove_feed_if_unused fid m =
     (let symbol = in_symbol (fd_instrument (mg_heap m ! fid))
      in case mg_feeds m symbol of
           Some current \<Rightarrow>
             if current = fid \<and> fd_subscriptions (mg_heap m ! fid) = 0
             then m\<lparr>mg_feeds := (mg_feeds m)(symbol := None),
               mg_shutdowns := mg_shutdowns m @ [\<lparr>sd_feeds = [fid], sd_phase = SdLocking\<rparr>]\<rparr>
             else m
         | None \<Rightarrow> m)"

definition shutdown_flag :: "manager \<Rightarrow> manager" where
  "shutdown_flag m = m\<lparr>mg_shutting_down := True\<rparr>"

text \<open>Draining the map, after which \<open>shutdown\<close> shuts the feeds down one after another; \<open>order\<close> is the
  order in which the hash map is drained.\<close>

definition shutdown_drain :: "string list \<Rightarrow> manager \<Rightarrow> manager" where
  "shutdown_drain order m =
     m\<lparr>mg_feeds := Map.empty,
       mg_shutdowns := mg_shutdowns m @
         [\<lparr>sd_feeds = List.map_filter (mg_feeds m) order, sd_phase = SdLocking\<rparr>]\<rparr>"

subsection \<open>Steps\<close>

definition publisher_moves :: "av_push \<Rightarrow> nat \<Rightarrow> publisher \<Rightarrow> publisher \<Rightarrow> bool" where
  "publisher_moves av n pb pb' \<longleftrightarrow>
     (\<exists>ev. publisher_step av n pb ev = Some pb') \<or> (\<exists>s. source_send pb s = Some (Inr pb')) \<or>
     pb' = store_handle pb \<or> (\<exists>r. wait_complete pb = Some (r, pb'))"

definition drop_nth :: "nat \<Rightarrow> 'a list \<Rightarrow> 'a list" where
  "drop_nth k xs = take k xs @ drop (Suc k) xs"

text \<open>
  \<open>grace_fire\<close> is the end of the grace period or the manager's shutdown signal: the \<open>select!\<close> may
  take it even after a notification. A task that has not been polled yet misses the notification.
  \<open>manager_work\<close> is what the tasks of the clients, feeds and grace periods do; \<open>manager_step\<close> adds the
  two steps of the manager's own shutdown. The manager does not know its source tasks: in \<open>manager_step\<close>
  any of them may have ended, and \<open>Whole_System\<close> takes \<open>ended\<close> from the tasks themselves.
\<close>

inductive manager_work ::
  "(nat \<Rightarrow> nat \<Rightarrow> bool) \<Rightarrow> av_push \<Rightarrow> nat \<Rightarrow> (instrument \<Rightarrow> panic + (string + 'src list)) \<Rightarrow> instrument_map \<Rightarrow>
    manager \<Rightarrow> manager \<Rightarrow> bool"
  for ended :: "nat \<Rightarrow> nat \<Rightarrow> bool" and av :: av_push and n :: nat and cs :: "instrument \<Rightarrow> panic + (string + 'src list)"
    and im :: instrument_map where
  request: "open_summary_stream n cs im symbol m = (r, m') \<Longrightarrow> manager_work ended av n cs im m m'"
| client: "k < length (mg_clients m) \<Longrightarrow> client_step k ev m = Some m' \<Longrightarrow>
    manager_work ended av n cs im m m'"
| publisher: "fid < length (mg_heap m) \<Longrightarrow>
    publisher_moves av n (fd_publisher (mg_heap m ! fid)) pb \<Longrightarrow>
    manager_work ended av n cs im m (update_feed fid (\<lambda>fd. fd\<lparr>fd_publisher := pb\<rparr>) m)"
| grace_poll: "k < length (mg_grace m) \<Longrightarrow> gr_phase (mg_grace m ! k) = GraceSpawned \<Longrightarrow>
    manager_work ended av n cs im m
      (m\<lparr>mg_grace := (mg_grace m)[k := (mg_grace m ! k)\<lparr>gr_phase := GraceWaiting\<rparr>]\<rparr>)"
| grace_fire: "k < length (mg_grace m) \<Longrightarrow>
    manager_work ended av n cs im m
      (remove_feed_if_unused (gr_feed (mg_grace m ! k)) (m\<lparr>mg_grace := drop_nth k (mg_grace m)\<rparr>))"
| grace_cancelled: "k < length (mg_grace m) \<Longrightarrow> gr_phase (mg_grace m ! k) = GraceNotified \<Longrightarrow>
    manager_work ended av n cs im m (m\<lparr>mg_grace := drop_nth k (mg_grace m)\<rparr>)"
| shut: "k < length (mg_shutdowns m) \<Longrightarrow> shutdown_step ended k m = Some m' \<Longrightarrow>
    manager_work ended av n cs im m m'"

inductive manager_step ::
  "av_push \<Rightarrow> nat \<Rightarrow> (instrument \<Rightarrow> panic + (string + 'src list)) \<Rightarrow> instrument_map \<Rightarrow>
    manager \<Rightarrow> manager \<Rightarrow> bool"
  for av :: av_push and n :: nat and cs :: "instrument \<Rightarrow> panic + (string + 'src list)"
    and im :: instrument_map where
  work: "manager_work ended av n cs im m m' \<Longrightarrow> manager_step av n cs im m m'"
| flag: "manager_step av n cs im m (shutdown_flag m)"
| drain: "mg_shutting_down m \<Longrightarrow> distinct order \<Longrightarrow>
    set order = dom (mg_feeds m) \<Longrightarrow> manager_step av n cs im m (shutdown_drain order m)"

text \<open>The two steps of the manager's own shutdown.\<close>

definition own_shutdown :: "manager \<Rightarrow> manager \<Rightarrow> bool" where
  "own_shutdown m m' \<longleftrightarrow> m' = shutdown_flag m \<or>
     (\<exists>order. mg_shutting_down m \<and> distinct order \<and> set order = dom (mg_feeds m) \<and> m' = shutdown_drain order m)"

lemma own_shutdown_step: "own_shutdown m m' \<Longrightarrow> manager_step av n cs im m m'"
  by (auto simp: own_shutdown_def intro: manager_step.flag manager_step.drain)

lemmas manager_step_intros =
  manager_work.request [THEN manager_step.work] manager_work.client [THEN manager_step.work]
  manager_work.publisher [THEN manager_step.work] manager_work.shut [THEN manager_step.work]

definition manager_reach ::
  "av_push \<Rightarrow> nat \<Rightarrow> (instrument \<Rightarrow> panic + (string + 'src list)) \<Rightarrow> instrument_map \<Rightarrow> manager \<Rightarrow> bool" where
  "manager_reach av n cs im m \<longleftrightarrow> (manager_step av n cs im)\<^sup>*\<^sup>* manager_new m"

subsection \<open>The invariant\<close>

definition sb_active :: "subscriber \<Rightarrow> bool" where
  "sb_active sb \<longleftrightarrow> sb_phase sb \<noteq> SbStart \<and> sb_phase sb \<noteq> SbDone"

definition active_on :: "nat \<Rightarrow> client_task list \<Rightarrow> nat" where
  "active_on fid cts = length (filter (\<lambda>ct. ct_feed ct = fid \<and> sb_active (ct_subscriber ct)) cts)"

definition closing_feeds :: "manager \<Rightarrow> nat set" where
  "closing_feeds m = (\<Union>task \<in> set (mg_shutdowns m). set (sd_feeds task))"

definition known_feeds :: "manager \<Rightarrow> nat set" where
  "known_feeds m = ran (mg_feeds m) \<union> ct_feed ` set (mg_clients m) \<union> gr_feed ` set (mg_grace m) \<union>
     closing_feeds m"

definition manager_ok :: "manager \<Rightarrow> bool" where
  "manager_ok m \<longleftrightarrow>
     (\<forall>fid \<in> known_feeds m. fid < length (mg_heap m)) \<and>
     (\<forall>s fid. mg_feeds m s = Some fid \<longrightarrow>
        in_symbol (fd_instrument (mg_heap m ! fid)) = s \<and> fd_shutdowns (mg_heap m ! fid) = 0 \<and>
        fid \<notin> closing_feeds m) \<and>
     (\<forall>fid < length (mg_heap m).
        fd_subscriptions (mg_heap m ! fid) = of_nat (active_on fid (mg_clients m)))"

lemma manager_okD:
  assumes "manager_ok m"
  shows "fid \<in> known_feeds m \<Longrightarrow> fid < length (mg_heap m)"
    and "mg_feeds m s = Some fid \<Longrightarrow> fid < length (mg_heap m) \<and>
      in_symbol (fd_instrument (mg_heap m ! fid)) = s \<and> fd_shutdowns (mg_heap m ! fid) = 0 \<and>
      fid \<notin> closing_feeds m"
    and "fid < length (mg_heap m) \<Longrightarrow>
      fd_subscriptions (mg_heap m ! fid) = of_nat (active_on fid (mg_clients m))"
  using assms unfolding manager_ok_def known_feeds_def by (auto intro: ranI)

lemma update_feed_simps [simp]:
  "mg_feeds (update_feed fid f m) = mg_feeds m"
  "mg_clients (update_feed fid f m) = mg_clients m"
  "mg_grace (update_feed fid f m) = mg_grace m"
  "mg_shutdowns (update_feed fid f m) = mg_shutdowns m"
  "closing_feeds (update_feed fid f m) = closing_feeds m"
  "mg_shutting_down (update_feed fid f m) = mg_shutting_down m"
  "length (mg_heap (update_feed fid f m)) = length (mg_heap m)"
  "known_feeds (update_feed fid f m) = known_feeds m"
  by (simp_all add: update_feed_def known_feeds_def closing_feeds_def)

lemma update_feed_nth:
  "g < length (mg_heap m) \<Longrightarrow>
    mg_heap (update_feed fid f m) ! g = (if g = fid then f (mg_heap m ! fid) else mg_heap m ! g)"
  by (simp add: update_feed_def nth_list_update)

text \<open>Updates of a feed that keep its instrument and its counters preserve the invariant.\<close>

lemma update_feed_ok:
  assumes "manager_ok m"
    and "fd_instrument (f (mg_heap m ! fid)) = fd_instrument (mg_heap m ! fid)"
    and "fd_subscriptions (f (mg_heap m ! fid)) = fd_subscriptions (mg_heap m ! fid)"
    and "fid \<notin> ran (mg_feeds m) \<or> fd_shutdowns (f (mg_heap m ! fid)) = fd_shutdowns (mg_heap m ! fid)"
  shows "manager_ok (update_feed fid f m)"
proof -
  note D = manager_okD [OF assms(1)]
  have "in_symbol (fd_instrument (mg_heap (update_feed fid f m) ! g)) = s \<and>
      fd_shutdowns (mg_heap (update_feed fid f m) ! g) = 0" if "mg_feeds m s = Some g" for s g
    using D(2) [OF that] assms(2,4) that by (auto simp: update_feed_nth intro: ranI)
  moreover have "fd_subscriptions (mg_heap (update_feed fid f m) ! g) = of_nat (active_on g (mg_clients m))"
    if "g < length (mg_heap m)" for g
    using D(3) [OF that] assms(3) that by (auto simp: update_feed_nth)
  ultimately show ?thesis using D(1,2) unfolding manager_ok_def by simp
qed

lemma active_on_append [simp]: "active_on fid (xs @ ys) = active_on fid xs + active_on fid ys"
  by (simp add: active_on_def)

lemma active_on_single [simp]:
  "active_on fid [ct] = (if ct_feed ct = fid \<and> sb_active (ct_subscriber ct) then 1 else 0)"
  by (simp add: active_on_def)

lemma active_on_unknown: "fid \<notin> ct_feed ` set cts \<Longrightarrow> active_on fid cts = 0"
  by (auto simp: active_on_def filter_empty_conv)

lemma active_on_update:
  assumes "k < length cts" "ct_feed ct = ct_feed (cts ! k)"
  shows "(of_nat (active_on fid (cts[k := ct])) :: 64 word) = of_nat (active_on fid cts) +
    (if ct_feed ct = fid
     then (if sb_active (ct_subscriber ct) then 1 else 0) -
          (if sb_active (ct_subscriber (cts ! k)) then 1 else 0)
     else 0)"
proof -
  have 1: "cts[k := ct] = take k cts @ [ct] @ drop (Suc k) cts"
    using assms(1) by (simp add: upd_conv_take_nth_drop)
  have 2: "cts = take k cts @ [cts ! k] @ drop (Suc k) cts"
    using assms(1) by (simp add: id_take_nth_drop)
  have "active_on fid (cts[k := ct]) =
      active_on fid (take k cts) + active_on fid [ct] + active_on fid (drop (Suc k) cts)"
    unfolding 1 by (simp only: active_on_append add.assoc)
  moreover have "active_on fid cts =
      active_on fid (take k cts) + active_on fid [cts ! k] + active_on fid (drop (Suc k) cts)"
    by (subst 2) (simp only: active_on_append add.assoc)
  ultimately show ?thesis using assms(2) by (simp add: algebra_simps)
qed

text \<open>Only the first and the last step of a client's task change whether it counts.\<close>

lemma publish_step_active:
  assumes "publish_step v sb ev = Some sb'"
  shows "sb_phase sb \<noteq> SbDone"
    "sb_phase sb = SbStart \<Longrightarrow> sb_active sb'"
    "sb_phase sb = SbEnding \<Longrightarrow> \<not> sb_active sb'"
    "sb_phase sb \<noteq> SbStart \<Longrightarrow> sb_phase sb \<noteq> SbEnding \<Longrightarrow> sb_active sb'"
  using assms unfolding publish_step_def sb_active_def
  by (cases "sb_phase sb"; cases ev;
      auto dest!: send_summary_cases split: if_splits sum.splits option.splits summary_error.splits)+

lemma set_client_ok:
  assumes "manager_ok m" "k < length (mg_clients m)"
    and "publish_step v (ct_subscriber (mg_clients m ! k)) ev = Some sb"
    and "fid = ct_feed (mg_clients m ! k)"
    and "m' = m\<lparr>mg_clients := (mg_clients m)[k := (mg_clients m ! k)\<lparr>ct_subscriber := sb\<rparr>]\<rparr>"
    and "delta = (if sb_phase (ct_subscriber (mg_clients m ! k)) = SbStart then 1
      else if sb_phase (ct_subscriber (mg_clients m ! k)) = SbEnding then -1 else 0)"
  shows "manager_ok (update_feed fid (\<lambda>fd. fd\<lparr>fd_subscriptions := fd_subscriptions fd + delta\<rparr>) m')"
proof -
  note D = manager_okD [OF assms(1)]
  let ?u = "update_feed fid (\<lambda>fd. fd\<lparr>fd_subscriptions := fd_subscriptions fd + delta\<rparr>) m'"
  have heap: "mg_heap m' = mg_heap m" by (simp add: assms(5))
  have "ct_feed ` set (mg_clients m') = ct_feed ` set (mg_clients m)"
  proof -
    have "map ct_feed (mg_clients m') = map ct_feed (mg_clients m)"
      using assms(2) by (simp add: assms(5) map_update list_update_same_conv)
    then show ?thesis by (metis set_map)
  qed
  then have known: "known_feeds ?u = known_feeds m"
    by (simp add: known_feeds_def closing_feeds_def assms(5))
  have fid: "fid < length (mg_heap m)"
    using D(1) assms(2,4) by (force simp: known_feeds_def)
  have active: "sb_active sb \<longleftrightarrow> sb_phase (ct_subscriber (mg_clients m ! k)) \<noteq> SbEnding"
    using publish_step_active [OF assms(3)] by auto
  have old: "sb_active (ct_subscriber (mg_clients m ! k)) \<longleftrightarrow>
      sb_phase (ct_subscriber (mg_clients m ! k)) \<noteq> SbStart"
    using publish_step_active(1) [OF assms(3)] by (simp add: sb_active_def)
  have "fd_subscriptions (mg_heap ?u ! g) = of_nat (active_on g (mg_clients ?u))"
    if g: "g < length (mg_heap m)" for g
  proof -
    have "(of_nat (active_on g (mg_clients m')) :: 64 word) =
        of_nat (active_on g (mg_clients m)) + (if fid = g then delta else 0)"
      using active_on_update [OF assms(2), of "(mg_clients m ! k)\<lparr>ct_subscriber := sb\<rparr>" g]
      by (simp add: assms(4-6) active old split: if_splits)
    then show ?thesis using D(3) [OF g] g by (auto simp: update_feed_nth heap)
  qed
  moreover have "in_symbol (fd_instrument (mg_heap ?u ! g)) = s \<and> fd_shutdowns (mg_heap ?u ! g) = 0 \<and>
      g \<notin> closing_feeds ?u" if "mg_feeds m s = Some g" for s g
    using D(2) [OF that] by (auto simp: update_feed_nth heap) (simp_all add: assms(5) closing_feeds_def)
  ultimately show ?thesis using D(1) known heap unfolding manager_ok_def by (simp add: assms(5))
qed

lemma manager_ok_shrink:
  assumes "manager_ok m" "mg_heap m' = mg_heap m" "mg_clients m' = mg_clients m"
    and "mg_feeds m' \<subseteq>\<^sub>m mg_feeds m" "known_feeds m' \<subseteq> known_feeds m"
    and "\<And>fid. fid \<in> ran (mg_feeds m') \<Longrightarrow> fid \<in> closing_feeds m' \<Longrightarrow> fid \<in> closing_feeds m"
  shows "manager_ok m'"
proof -
  note D = manager_okD [OF assms(1)]
  have "in_symbol (fd_instrument (mg_heap m' ! fid)) = s \<and> fd_shutdowns (mg_heap m' ! fid) = 0 \<and>
      fid \<notin> closing_feeds m'" if "mg_feeds m' s = Some fid" for s fid
  proof -
    have "mg_feeds m s = Some fid" using that assms(4) by (force simp: map_le_def dom_def)
    from D(2) [OF this] assms(6) [OF ranI [of "mg_feeds m'" s, OF that]] show ?thesis
      by (auto simp: assms(2))
  qed
  then show ?thesis using D(1,3) assms(5) unfolding manager_ok_def by (auto simp: assms(2,3))
qed

lemma client_step_ok:
  assumes "manager_ok m" "k < length (mg_clients m)" "client_step k ev m = Some m'"
  shows "manager_ok m'"
proof -
  define ct where "ct = mg_clients m ! k"
  obtain sb where sb: "publish_step (feed_view_of (mg_heap m ! ct_feed ct)) (ct_subscriber ct) ev = Some sb"
    using assms(3) by (auto simp: client_step_def ct_def Let_def split: option.splits)
  define m1 where "m1 = m\<lparr>mg_clients := (mg_clients m)[k := ct\<lparr>ct_subscriber := sb\<rparr>]\<rparr>"
  define delta :: "64 word" where "delta = (if sb_phase (ct_subscriber ct) = SbStart then 1
      else if sb_phase (ct_subscriber ct) = SbEnding then -1 else 0)"
  let ?u = "update_feed (ct_feed ct) (\<lambda>fd. fd\<lparr>fd_subscriptions := fd_subscriptions fd + delta\<rparr>) m1"
  have ok: "manager_ok ?u"
    using set_client_ok [OF assms(1,2) sb [unfolded ct_def] refl m1_def [unfolded ct_def]
      delta_def [unfolded ct_def]] by (simp add: ct_def)
  have fid: "ct_feed ct < length (mg_heap m)"
    using manager_okD(1) [OF assms(1)] assms(2) by (force simp: known_feeds_def ct_def)
  have m': "m' = (if sb_phase (ct_subscriber ct) = SbStart then on_subscribe (ct_feed ct) m1
      else if sb_phase (ct_subscriber ct) = SbEnding then on_unsubscribe (ct_feed ct) m1 else m1)"
    using assms(3) sb by (auto simp: client_step_def ct_def m1_def Let_def)
  have heap: "mg_heap m1 = mg_heap m" by (simp add: m1_def)
  have "mg_heap m' = mg_heap ?u \<and> mg_clients m' = mg_clients ?u \<and> mg_feeds m' = mg_feeds ?u \<and>
      mg_shutdowns m' = mg_shutdowns ?u \<and>
      gr_feed ` set (mg_grace m') \<subseteq> insert (ct_feed ct) (gr_feed ` set (mg_grace ?u))"
    unfolding m' by (auto simp: on_subscribe_def on_unsubscribe_def notify_grace_def update_feed_def
        delta_def heap fid Let_def)
  moreover have "ct_feed ct \<in> known_feeds ?u"
  proof -
    have "ct_feed ct \<in> ct_feed ` set (mg_clients m1)"
      using assms(2) by (force simp: m1_def set_conv_nth image_iff intro: exI [of _ k])
    then show ?thesis by (simp add: known_feeds_def)
  qed
  ultimately show ?thesis
    by (intro manager_ok_shrink [OF ok]) (auto simp: known_feeds_def closing_feeds_def)
qed

lemma open_summary_stream_cases:
  assumes "open_summary_stream n cs im symbol m = (r, m')"
  obtains (failed) ps where "\<And>fid. r \<noteq> okP fid" "m' = m\<lparr>mg_orphans := ps\<rparr>"
  | (reused) fid where "r = okP fid" "\<not> mg_shutting_down m" "mg_feeds m symbol = Some fid"
      "m' = m\<lparr>mg_clients := mg_clients m @ [\<lparr>ct_feed = fid, ct_subscriber = subscriber_new\<rparr>]\<rparr>"
  | (opened) i srcs where "r = okP (length (mg_heap m))" "\<not> mg_shutting_down m"
      "mg_feeds m symbol = None" "instrument_map_get im symbol = Some i" "cs i = okP srcs"
      "m' = m\<lparr>mg_heap := mg_heap m @ [new_feed i (publisher_start n) (length srcs)],
        mg_feeds := (mg_feeds m)(symbol \<mapsto> length (mg_heap m)),
        mg_clients := mg_clients m @
          [\<lparr>ct_feed = length (mg_heap m), ct_subscriber = subscriber_new\<rparr>]\<rparr>"
proof -
  have same: thesis if "m' = m" "\<And>fid. r \<noteq> okP fid"
    using that failed [of "mg_orphans m"] by simp
  show ?thesis
  proof (cases "mg_shutting_down m")
    case True
    then show ?thesis using assms same
      by (auto simp: open_summary_stream_def manager_open_def)
  next
    case running: False
    show ?thesis
    proof (cases "mg_feeds m symbol")
      case (Some fid)
      then show ?thesis using assms running reused [of fid]
        by (auto simp: open_summary_stream_def manager_open_def)
    next
      case none: None
      show ?thesis
      proof (cases "instrument_map_get im symbol")
        case None
        then show ?thesis using assms running none same
          by (auto simp: open_summary_stream_def manager_open_def)
      next
        case (Some i)
        show ?thesis
        proof (cases "\<exists>srcs. cs i = okP srcs")
          case True
          then obtain srcs where "cs i = okP srcs" by blast
          then show ?thesis
            using assms running none Some opened [of i srcs]
            by (simp add: open_summary_stream_def manager_open_def Let_def)
        next
          case False
          then have "m' = m\<lparr>mg_orphans := publisher_start n # mg_orphans m\<rparr> \<and> (\<forall>fid. r \<noteq> okP fid)"
            using assms running none Some
            by (auto simp: open_summary_stream_def manager_open_def Let_def split: sum.splits)
          then show ?thesis using failed by blast
        qed
      qed
    qed
  qed
qed

lemma request_ok:
  assumes "manager_ok m" "symbols_match im" "open_summary_stream n cs im symbol m = (r, m')"
  shows "manager_ok m'"
  using assms(3)
proof (cases rule: open_summary_stream_cases)
  case (failed ps)
  then show ?thesis
    by (intro manager_ok_shrink [OF assms(1)]) (auto simp: known_feeds_def closing_feeds_def)
next
  case (reused fid)
  note D = manager_okD [OF assms(1)]
  have "closing_feeds m' = closing_feeds m" by (simp add: reused(4) closing_feeds_def)
  moreover from this have "known_feeds m' = known_feeds m"
    using reused(3,4) by (auto simp: known_feeds_def intro: ranI)
  ultimately show ?thesis
    using D unfolding manager_ok_def by (auto simp: reused(4) sb_active_def subscriber_new_def)
next
  case (opened i srcs)
  note D = manager_okD [OF assms(1)]
  let ?new = "length (mg_heap m)"
  have new: "?new \<notin> known_feeds m" using D(1) by blast
  have "active_on ?new (mg_clients m) = 0"
    using new by (intro active_on_unknown) (simp add: known_feeds_def)
  moreover have "in_symbol i = symbol"
    using assms(2) opened(4) by (simp add: symbols_match_def)
  moreover have closing: "closing_feeds m' = closing_feeds m" by (simp add: opened(6) closing_feeds_def)
  moreover have "known_feeds m' \<subseteq> insert ?new (known_feeds m)"
    using opened(3) by (auto simp: known_feeds_def closing) (auto simp: opened(6))
  ultimately show ?thesis
    using D new unfolding manager_ok_def
    by (auto simp: opened(6) sb_active_def subscriber_new_def new_feed_def nth_append less_Suc_eq
        known_feeds_def split: if_splits)
qed

lemma remove_feed_if_unused_ok:
  assumes "manager_ok m" "fid \<in> known_feeds m"
  shows "manager_ok (remove_feed_if_unused fid m)"
proof (cases "mg_feeds m (in_symbol (fd_instrument (mg_heap m ! fid))) = Some fid \<and>
    fd_subscriptions (mg_heap m ! fid) = 0")
  case True
  let ?s = "in_symbol (fd_instrument (mg_heap m ! fid))"
  have "fid \<notin> ran ((mg_feeds m)(?s := None))"
    using manager_okD(2) [OF assms(1)] by (fastforce simp: ran_def split: if_splits)
  with True show ?thesis using assms(2)
    by (intro manager_ok_shrink [OF assms(1)])
      (auto simp: remove_feed_if_unused_def Let_def known_feeds_def closing_feeds_def map_le_def ran_def)
next
  case False
  then show ?thesis using assms(1)
    by (auto simp: remove_feed_if_unused_def Let_def split: option.split)
qed

lemma set_drop_nth: "set (drop_nth k xs) \<subseteq> set xs"
  by (auto simp: drop_nth_def dest: in_set_takeD in_set_dropD)

lemma drop_grace_ok:
  assumes "manager_ok m"
  shows "manager_ok (m\<lparr>mg_grace := drop_nth k (mg_grace m)\<rparr>)"
proof -
  have "known_feeds (m\<lparr>mg_grace := drop_nth k (mg_grace m)\<rparr>) \<subseteq> known_feeds m"
    using set_drop_nth [of k "mg_grace m"] by (auto simp: known_feeds_def closing_feeds_def)
  then show ?thesis by (intro manager_ok_shrink [OF assms]) (auto simp: closing_feeds_def)
qed

text \<open>A step of a shutdown: its feed is no longer in the map, and its list of feeds only shrinks.\<close>

lemma feed_shutdown_step_frame:
  assumes "feed_shutdown_step ended ph fd = Some (fd', ph')"
  shows "fd_instrument fd' = fd_instrument fd" "fd_subscriptions fd' = fd_subscriptions fd"
  using assms
  by (induction ended ph fd rule: feed_shutdown_step.induct)
    (auto simp: feed_shutdown_def split: if_splits option.splits)

lemma shutdown_step_ok:
  assumes "manager_ok m" "k < length (mg_shutdowns m)" "shutdown_step ended k m = Some m'"
  shows "manager_ok m'"
proof -
  let ?t = "mg_shutdowns m ! k"
  obtain fid rest where feeds: "sd_feeds ?t = fid # rest"
    using assms(3) by (auto simp: shutdown_step_def Let_def split: list.splits)
  obtain fd ph where step: "feed_shutdown_step (ended fid) (sd_phase ?t) (mg_heap m ! fid) = Some (fd, ph)"
    using assms(3) feeds by (auto simp: shutdown_step_def Let_def split: option.splits)
  define t' where "t' = (case ph of Some p \<Rightarrow> ?t\<lparr>sd_phase := p\<rparr>
    | None \<Rightarrow> \<lparr>sd_feeds = rest, sd_phase = SdLocking\<rparr>)"
  define m1 where "m1 = m\<lparr>mg_shutdowns := (mg_shutdowns m)[k := t']\<rparr>"
  have m': "m' = update_feed fid (\<lambda>_. fd) m1"
    using assms(3) feeds step by (simp add: shutdown_step_def Let_def m1_def t'_def)
  have t: "?t \<in> set (mg_shutdowns m)" using assms(2) by simp
  have "set (sd_feeds t') \<subseteq> set (sd_feeds ?t)"
    using feeds by (auto simp: t'_def split: option.splits)
  then have closing: "closing_feeds m1 \<subseteq> closing_feeds m"
    using set_update_subset_insert [of "mg_shutdowns m" k t'] t
    by (fastforce simp: closing_feeds_def m1_def)
  then have "known_feeds m1 \<subseteq> known_feeds m"
    by (auto simp: known_feeds_def) (simp_all add: m1_def)
  then have ok: "manager_ok m1"
    using closing by (intro manager_ok_shrink [OF assms(1)]) (auto simp: m1_def)
  have "fid \<in> closing_feeds m" using t feeds by (force simp: closing_feeds_def)
  then have "fid \<notin> ran (mg_feeds m1)"
    using manager_okD(2) [OF assms(1)] by (auto simp: ran_def m1_def)
  then show ?thesis unfolding m'
    using feed_shutdown_step_frame [OF step] by (intro update_feed_ok [OF ok]) (simp_all add: m1_def)
qed

lemma manager_work_ok:
  assumes "manager_work ended av n cs im m m'" "symbols_match im" "manager_ok m"
  shows "manager_ok m'"
  using assms
proof (induction rule: manager_work.induct)
  case (request symbol m r m')
  then show ?case by (blast intro: request_ok [OF request.prems(2,1)])
next
  case (client k m ev m')
  show ?case by (rule client_step_ok [OF client.prems(2) client.hyps])
next
  case (publisher fid m pb)
  show ?case by (rule update_feed_ok [OF publisher.prems(2)]) simp_all
next
  case (grace_poll k m)
  let ?gs = "(mg_grace m)[k := (mg_grace m ! k)\<lparr>gr_phase := GraceWaiting\<rparr>]"
  have "map gr_feed ?gs = map gr_feed (mg_grace m)"
    using grace_poll.hyps(1) by (simp add: map_update list_update_same_conv)
  then have "gr_feed ` set ?gs = gr_feed ` set (mg_grace m)" by (metis set_map)
  then have "known_feeds (m\<lparr>mg_grace := ?gs\<rparr>) = known_feeds m"
    by (simp add: known_feeds_def closing_feeds_def)
  then show ?case
    by (intro manager_ok_shrink [OF grace_poll.prems(2)]) (auto simp: closing_feeds_def)
next
  case (grace_fire k m)
  let ?m = "m\<lparr>mg_grace := drop_nth k (mg_grace m)\<rparr>"
  let ?fid = "gr_feed (mg_grace m ! k)"
  show ?case
  proof (cases "remove_feed_if_unused ?fid ?m = ?m")
    case True
    then show ?thesis using drop_grace_ok [OF grace_fire.prems(2)] by simp
  next
    case False
    then have "?fid \<in> ran (mg_feeds m)"
      by (auto simp: remove_feed_if_unused_def Let_def intro: ranI split: option.splits if_splits)
    then show ?thesis
      by (intro remove_feed_if_unused_ok [OF drop_grace_ok [OF grace_fire.prems(2)]])
        (auto simp: known_feeds_def)
  qed
next
  case (grace_cancelled k m)
  show ?case by (rule drop_grace_ok [OF grace_cancelled.prems(2)])
next
  case (shut k m m')
  show ?case by (rule shutdown_step_ok [OF shut.prems(2) shut.hyps])
qed

lemma manager_step_ok:
  assumes "manager_step av n cs im m m'" "symbols_match im" "manager_ok m"
  shows "manager_ok m'"
  using assms
proof (induction rule: manager_step.induct)
  case (work m m')
  show ?case by (rule manager_work_ok [OF work(1,2,3)])
next
  case (flag m)
  then show ?case
    by (intro manager_ok_shrink [OF flag(2)])
      (auto simp: shutdown_flag_def known_feeds_def closing_feeds_def)
next
  case (drain m order)
  have "set (List.map_filter (mg_feeds m) order) \<subseteq> ran (mg_feeds m)"
    by (auto simp: List.map_filter_def ran_def)
  then show ?case
    by (intro manager_ok_shrink [OF drain.prems(2)])
      (auto simp: shutdown_drain_def known_feeds_def closing_feeds_def map_le_def)
qed

lemma manager_new_ok [simp]: "manager_ok manager_new"
  by (simp add: manager_ok_def manager_new_def known_feeds_def closing_feeds_def)

lemma manager_reach_ok:
  assumes "manager_reach av n cs im m" "symbols_match im"
  shows "manager_ok m"
  using assms(1) unfolding manager_reach_def
  by (induction rule: rtranclp_induct) (auto intro: manager_step_ok assms(2))

subsection \<open>After the manager's shutdown\<close>

lemma shutdown_step_frame:
  "shutdown_step ended k m = Some m' \<Longrightarrow>
    mg_shutting_down m' = mg_shutting_down m \<and> mg_feeds m' = mg_feeds m"
  by (auto simp: shutdown_step_def Let_def split: list.splits option.splits)

text \<open>The tasks never touch the flag, and they reopen no feed once it is set.\<close>

lemma work_shutting_down:
  assumes "manager_work ended av n cs im m m'"
  shows "mg_shutting_down m' = mg_shutting_down m"
    "mg_shutting_down m \<Longrightarrow> mg_feeds m = Map.empty \<Longrightarrow> mg_feeds m' = Map.empty"
proof -
  have "mg_shutting_down m' = mg_shutting_down m \<and>
    (mg_shutting_down m \<longrightarrow> mg_feeds m = Map.empty \<longrightarrow> mg_feeds m' = Map.empty)"
    using assms
  proof (induction rule: manager_work.induct)
    case (request symbol m r m')
    then show ?case by (auto elim!: open_summary_stream_cases)
  next
    case (client k m ev m')
    then show ?case
      by (auto simp: client_step_def Let_def on_subscribe_def on_unsubscribe_def update_feed_def
          split: option.splits if_splits)
  next
    case (shut k m m')
    then show ?case using shutdown_step_frame by auto
  qed (auto simp: remove_feed_if_unused_def Let_def split: option.split)
  then show "mg_shutting_down m' = mg_shutting_down m"
    "mg_shutting_down m \<Longrightarrow> mg_feeds m = Map.empty \<Longrightarrow> mg_feeds m' = Map.empty"
    by simp_all
qed

lemma step_after_drain:
  assumes "manager_step av n cs im m m'" "mg_shutting_down m" "mg_feeds m = Map.empty"
  shows "mg_shutting_down m' \<and> mg_feeds m' = Map.empty"
  using assms
  by (induction rule: manager_step.induct)
    (simp_all add: work_shutting_down shutdown_flag_def shutdown_drain_def)

lemma steps_after_drain:
  assumes "(manager_step av n cs im)\<^sup>*\<^sup>* m m'" "mg_shutting_down m" "mg_feeds m = Map.empty"
  shows "mg_shutting_down m' \<and> mg_feeds m' = Map.empty"
  using assms(1)
  by (induction rule: rtranclp_induct) (auto intro: assms(2,3) dest: step_after_drain)

end
