(* ===== verification/Manager_Properties.thy ===== *)
theory Manager_Properties
  imports Feed_Manager
begin

section \<open>What the manager guarantees\<close>

text \<open>
  The properties of the manager and of the gRPC handlers: outcomes of a request, the subscription
  counter, removal and shutdown. The witnesses use a manager with one instrument and a factory of one
  source.
\<close>

definition example_map :: instrument_map where
  "example_map = instrument_map_new [example_instrument]"

definition example_create :: "instrument \<Rightarrow> panic + (string + unit list)" where
  "example_create i = okP [()]"

lemma example_map_ok [simp]: "symbols_match example_map"
  by (simp add: example_map_def symbols_match_new)

lemma example_map_get [simp]: "instrument_map_get example_map ''ETH-BTC'' = Some example_instrument"
  by (simp add: example_map_def instrument_map_new_get example_instrument_def instrument_new_def)

lemma manager_reach_step:
  "manager_reach av n cs im m \<Longrightarrow> manager_step av n cs im m m' \<Longrightarrow> manager_reach av n cs im m'"
  by (simp add: manager_reach_def)

lemma manager_reach_new: "manager_reach av n cs im manager_new"
  by (simp add: manager_reach_def)

text \<open>One client has connected to a new server.\<close>

definition example_feed :: feed where
  "example_feed = new_feed example_instrument (publisher_start 10) 1"

definition one_client :: "subscriber \<Rightarrow> manager" where
  "one_client sb =
     manager_new\<lparr>mg_feeds := [''ETH-BTC'' \<mapsto> 0], mg_heap := [example_feed],
       mg_clients := [\<lparr>ct_feed = 0, ct_subscriber = sb\<rparr>]\<rparr>"

lemma example_request:
  "open_summary_stream 10 example_create example_map ''ETH-BTC'' manager_new =
    (okP 0, one_client subscriber_new)"
  by (simp add: open_summary_stream_def manager_open_def manager_new_def one_client_def
      example_create_def example_feed_def Let_def)

lemma one_client_reach: "manager_reach list_push 10 example_create example_map (one_client subscriber_new)"
  by (rule manager_reach_step [OF manager_reach_new manager_step_intros(1) [OF example_request]])

subsection \<open>Requests\<close>

text \<open>A request for a summary stream is answered as follows: an empty symbol is an invalid
  argument; a manager that is shutting down, an unknown symbol and a failing factory are internal
  errors with the reason; a symbol whose feed is open reuses it; any other known symbol gets a
  feed of its own. The call succeeds only with a new publishing task for the client, and when it
  fails the feeds and clients are as before.\<close>

theorem request_outcome:
  "book_summary_for_symbol n cs im symbol m =
    (if symbol = [] then (errP (GrpcInvalidArgument, ''Symbol cannot be empty''), m)
     else if mg_shutting_down m
     then (errP (GrpcInternal, ''Failed to open stream: Manager is shutting down''), m)
     else case mg_feeds m symbol of
       Some fid \<Rightarrow> (okP fid, m\<lparr>mg_clients := mg_clients m @
         [\<lparr>ct_feed = fid, ct_subscriber = subscriber_new\<rparr>]\<rparr>)
     | None \<Rightarrow>
       (case instrument_map_get im symbol of
          None \<Rightarrow> (errP (GrpcInternal, ''Failed to open stream: Instrument not found: '' @ symbol), m)
        | Some i \<Rightarrow>
          (case cs i of
             Inl p \<Rightarrow> (Inl p, m\<lparr>mg_orphans := publisher_start n # mg_orphans m\<rparr>)
           | Inr (Inl e) \<Rightarrow> (errP (GrpcInternal, ''Failed to open stream: '' @ e),
               m\<lparr>mg_orphans := publisher_start n # mg_orphans m\<rparr>)
           | Inr (Inr srcs) \<Rightarrow> (okP (length (mg_heap m)),
               m\<lparr>mg_heap := mg_heap m @ [new_feed i (publisher_start n) (length srcs)],
                 mg_feeds := (mg_feeds m)(symbol \<mapsto> length (mg_heap m)),
                 mg_clients := mg_clients m @
                   [\<lparr>ct_feed = length (mg_heap m), ct_subscriber = subscriber_new\<rparr>]\<rparr>))))"
  by (simp add: book_summary_for_symbol_def open_summary_stream_def manager_open_def Let_def
      split: option.split sum.split)

subsection \<open>The subscription counter\<close>

text \<open>C9: in every reachable state the subscription counter of a feed is the number of clients whose
  task has subscribed and not yet unsubscribed, modulo the word size, so it never underflows.\<close>

theorem subscriptions_count_clients:
  assumes "manager_reach av n cs im m" "symbols_match im" "fid < length (mg_heap m)"
  shows "unat (fd_subscriptions (mg_heap m ! fid)) = active_on fid (mg_clients m) mod 2 ^ 64"
  using manager_okD(3) [OF manager_reach_ok [OF assms(1,2)] assms(3)]
  by (simp add: unat_of_nat)

theorem subscriptions_count_clients_witness:
  "unat (fd_subscriptions (mg_heap (one_client subscriber_new) ! 0)) =
    active_on 0 (mg_clients (one_client subscriber_new)) mod 2 ^ 64"
  using subscriptions_count_clients [OF one_client_reach example_map_ok, of 0]
  by (simp add: one_client_def)

text \<open>C10: in every reachable state the open feeds are filed under the symbol of their instrument, no
  feed is open twice, and no open feed has been told to shut down.\<close>

theorem open_feeds_are_live:
  assumes "manager_reach av n cs im m" "symbols_match im" "mg_feeds m s = Some fid"
  shows "fid < length (mg_heap m) \<and> in_symbol (fd_instrument (mg_heap m ! fid)) = s \<and>
    fd_shutdowns (mg_heap m ! fid) = 0 \<and> (mg_feeds m s' = Some fid) = (s' = s)"
  using manager_okD(2) [OF manager_reach_ok [OF assms(1,2)]] assms(3) by metis

theorem open_feeds_are_live_witness:
  "0 < length (mg_heap (one_client subscriber_new)) \<and>
   in_symbol (fd_instrument (mg_heap (one_client subscriber_new) ! 0)) = ''ETH-BTC'' \<and>
   fd_shutdowns (mg_heap (one_client subscriber_new) ! 0) = 0"
proof -
  have "mg_feeds (one_client subscriber_new) ''ETH-BTC'' = Some 0"
    by (simp add: one_client_def)
  from open_feeds_are_live [OF one_client_reach example_map_ok this] show ?thesis by blast
qed

text \<open>C21: the end of a grace period only removes a feed without subscribers: if the feed is removed,
  then, with fewer than two to the 64 clients, none of them is subscribed to it, and its shutdown
  comes next.\<close>

theorem removal_needs_no_subscriber:
  assumes "manager_reach av n cs im m" "symbols_match im" "length (mg_clients m) < 2 ^ 64"
    and "mg_feeds m s = Some fid" "mg_feeds (remove_feed_if_unused fid m) s = None"
  shows "active_on fid (mg_clients m) = 0 \<and>
    last (mg_shutdowns (remove_feed_if_unused fid m)) = \<lparr>sd_feeds = [fid], sd_phase = SdLocking\<rparr>"
proof -
  note D = manager_okD [OF manager_reach_ok [OF assms(1,2)]]
  have s: "in_symbol (fd_instrument (mg_heap m ! fid)) = s" "fid < length (mg_heap m)"
    using D(2) [OF assms(4)] by simp_all
  then have zero: "fd_subscriptions (mg_heap m ! fid) = 0"
    "last (mg_shutdowns (remove_feed_if_unused fid m)) = \<lparr>sd_feeds = [fid], sd_phase = SdLocking\<rparr>"
    using assms(4,5) by (auto simp: remove_feed_if_unused_def Let_def split: if_splits)
  have "active_on fid (mg_clients m) \<le> length (mg_clients m)"
    by (simp add: active_on_def)
  moreover have "active_on fid (mg_clients m) mod 2 ^ 64 = 0"
    using arg_cong [OF D(3) [OF s(2)], of unat] zero(1) by (simp add: unat_of_nat)
  ultimately show ?thesis using assms(3) zero(2) by simp
qed

theorem removal_needs_no_subscriber_witness:
  "mg_feeds (remove_feed_if_unused 0 (one_client subscriber_new)) ''ETH-BTC'' = None \<and>
   active_on 0 (mg_clients (one_client subscriber_new)) = 0"
proof -
  have "mg_feeds (one_client subscriber_new) ''ETH-BTC'' = Some 0"
    "length (mg_clients (one_client subscriber_new)) < 2 ^ 64"
    by (simp_all add: one_client_def)
  moreover have "mg_feeds (remove_feed_if_unused 0 (one_client subscriber_new)) ''ETH-BTC'' = None"
    by (simp add: one_client_def remove_feed_if_unused_def example_feed_def new_feed_def
        example_instrument_def instrument_new_def Let_def)
  ultimately show ?thesis
    using removal_needs_no_subscriber [OF one_client_reach example_map_ok] by blast
qed

subsection \<open>Shutdown\<close>

text \<open>C19: once the manager's shutdown has drained the feeds, no request opens a feed again, in any
  later state: every stream request fails.\<close>

theorem shutdown_is_final:
  assumes "mg_shutting_down m" "(manager_step av n cs im)\<^sup>*\<^sup>* (shutdown_drain order m) m'"
  shows "mg_feeds m' = Map.empty \<and>
    book_summary n cs im symbol m' =
      (errP (GrpcInternal, ''Failed to open stream: Manager is shutting down''), m')"
  using steps_after_drain [OF assms(2)] assms(1)
  by (simp add: shutdown_drain_def book_summary_def open_summary_stream_def manager_open_def)

theorem shutdown_is_final_witness:
  "fst (book_summary 10 example_create example_map ''ETH-BTC''
     (shutdown_drain [''ETH-BTC''] (shutdown_flag (one_client subscriber_new)))) =
   errP (GrpcInternal, ''Failed to open stream: Manager is shutting down'')"
  using shutdown_is_final [of "shutdown_flag (one_client subscriber_new)" list_push 10
      example_create example_map "[''ETH-BTC'']" _ "''ETH-BTC''", OF _ rtranclp.rtrancl_refl]
  by (simp add: shutdown_flag_def)

subsection \<open>The shutdown of a feed\<close>

text \<open>Shutting down goes feed by feed: a step of a shutdown only touches its first feed and keeps
  the others waiting, and while a source task of the first feed is awaited it can only go on when that
  task has ended.\<close>

theorem shutdown_goes_feed_by_feed:
  assumes "shutdown_step ended k m = Some m'" "k < length (mg_shutdowns m)"
    and "sd_feeds (mg_shutdowns m ! k) = fid # rest"
  shows "(g \<noteq> fid \<longrightarrow> mg_heap m' ! g = mg_heap m ! g) \<and>
    (sd_phase (mg_shutdowns m ! k) = SdJoining (Suc j) \<longrightarrow>
       ended fid j \<and> mg_heap m' = mg_heap m \<and>
       mg_shutdowns m' ! k = \<lparr>sd_feeds = fid # rest, sd_phase = SdJoining j\<rparr>)"
  using assms
  by (auto simp: shutdown_step_def update_feed_def Let_def split: option.splits if_splits)

definition joining :: manager where
  "joining = manager_new\<lparr>mg_heap := [feed_shutdown example_feed],
     mg_shutdowns := [\<lparr>sd_feeds = [0], sd_phase = SdJoining 1\<rparr>]\<rparr>"

theorem shutdown_goes_feed_by_feed_witness:
  "\<exists>m'. shutdown_step (\<lambda>_ _. True) 0 joining = Some m' \<and> mg_heap m' = mg_heap joining \<and>
    mg_shutdowns m' ! 0 = \<lparr>sd_feeds = [0], sd_phase = SdJoining 0\<rparr>"
proof -
  obtain m' where m': "shutdown_step (\<lambda>_ _. True) 0 joining = Some m'"
    by (simp add: shutdown_step_def joining_def Let_def)
  from shutdown_goes_feed_by_feed [OF m', of 0 "[]" 0 0] m' show ?thesis
    by (simp add: joining_def)
qed

text \<open>The steps a shutdown of a feed has left, and the shutdown of a feed on its own.\<close>

fun shutdown_rank :: "shutdown_phase option \<Rightarrow> feed \<Rightarrow> nat" where
  "shutdown_rank (Some SdLocking) fd = fd_source_tasks fd + 3"
| "shutdown_rank (Some (SdJoining k)) fd = k + 2"
| "shutdown_rank (Some SdCompleting) fd = 1"
| "shutdown_rank None fd = 0"

fun shutdown_run ::
  "(nat \<Rightarrow> bool) \<Rightarrow> nat \<Rightarrow> shutdown_phase option \<Rightarrow> feed \<Rightarrow> (feed \<times> shutdown_phase option) option" where
  "shutdown_run ended 0 ph fd = Some (fd, ph)"
| "shutdown_run ended (Suc j) None fd = None"
| "shutdown_run ended (Suc j) (Some ph) fd =
     (case feed_shutdown_step ended ph fd of
        None \<Rightarrow> None
      | Some (fd', ph') \<Rightarrow> shutdown_run ended j ph' fd')"

lemma feed_shutdown_step_rank:
  "feed_shutdown_step ended ph fd = Some (fd', ph') \<Longrightarrow>
    shutdown_rank (Some ph) fd = Suc (shutdown_rank ph' fd')"
  by (induction ended ph fd rule: feed_shutdown_step.induct) (auto split: if_splits option.splits)

lemma feed_shutdown_step_blocked:
  "feed_shutdown_step ended ph fd = None \<longleftrightarrow>
    ph = SdLocking \<and> fd_guarded fd \<or> (\<exists>k. ph = SdJoining (Suc k) \<and> \<not> ended k) \<or>
    ph = SdCompleting \<and> wait_complete (fd_publisher fd) = None"
  by (induction ended ph fd rule: feed_shutdown_step.induct) (auto split: option.splits)

lemma shutdown_run_joining:
  "shutdown_run ended (k + Suc j) (Some (SdJoining k)) fd =
    (if \<forall>i < k. ended i then shutdown_run ended j (Some SdCompleting) fd else None)"
  by (induction k) (auto simp: less_Suc_eq)

lemma closed_publisher_ends:
  assumes "wait_complete pb = None"
  obtains pb' where "publisher_step av n (publisher_close pb) RecvShutdown = Some pb'" "wait_complete pb' \<noteq> None"
proof -
  from assms obtain c where c: "pb_phase pb = Running c"
    by (auto simp: wait_complete_def split: if_splits publisher_phase.splits)
  show ?thesis
    by (rule that [of "publish_result (Inl SummaryShutdown)
          ((publisher_close pb)\<lparr>pb_shutdown := False, pb_phase := Finished, pb_queue := []\<rparr>)"])
      (simp_all add: c wait_complete_def publisher_close_def receiver_open_def publish_result_def)
qed

text \<open>C31: the shutdown of a feed ends exactly when nothing holds it up: every step lowers a rank by one;
  it blocks on the guard, on a source task that has not ended, on the publisher's task, and on nothing
  else; and it goes through, in exactly \<open>k + 3\<close> steps for \<open>k\<close> source tasks and with the guard released,
  if and only if the guard is free, every source task has ended and the publisher can be waited for.
  The publisher never holds it up for good: once closed, one step of its own task suffices.\<close>

theorem feed_shutdown_terminates:
  "(shutdown_run ended (fd_source_tasks fd + 3) (Some SdLocking) fd = Some (fd', None) \<longleftrightarrow>
      \<not> fd_guarded fd \<and> (\<forall>k < fd_source_tasks fd. ended k) \<and>
      (\<exists>r pb. wait_complete (publisher_close (fd_publisher fd)) = Some (r, pb) \<and>
        fd' = fd\<lparr>fd_guarded := False, fd_shutdowns := fd_shutdowns fd + 1, fd_publisher := pb,
          fd_source_tasks := 0\<rparr>)) \<and>
    (feed_shutdown_step ended ph fd1 = Some (fd2, ph') \<longrightarrow>
      shutdown_rank (Some ph) fd1 = Suc (shutdown_rank ph' fd2)) \<and>
    (feed_shutdown_step ended ph fd1 = None \<longleftrightarrow> ph = SdLocking \<and> fd_guarded fd1 \<or>
      (\<exists>k. ph = SdJoining (Suc k) \<and> \<not> ended k) \<or>
      ph = SdCompleting \<and> wait_complete (fd_publisher fd1) = None) \<and>
    (wait_complete pb1 = None \<longrightarrow>
      (\<exists>pb2. publisher_step av n (publisher_close pb1) RecvShutdown = Some pb2 \<and> wait_complete pb2 \<noteq> None))"
proof -
  have "wait_complete pb1 = None \<longrightarrow>
      (\<exists>pb2. publisher_step av n (publisher_close pb1) RecvShutdown = Some pb2 \<and> wait_complete pb2 \<noteq> None)"
    using closed_publisher_ends by blast
  moreover have "shutdown_run ended (fd_source_tasks fd + 3) (Some SdLocking) fd = Some (fd', None) \<longleftrightarrow>
      \<not> fd_guarded fd \<and> (\<forall>k < fd_source_tasks fd. ended k) \<and>
      (\<exists>r pb. wait_complete (publisher_close (fd_publisher fd)) = Some (r, pb) \<and>
        fd' = fd\<lparr>fd_guarded := False, fd_shutdowns := fd_shutdowns fd + 1, fd_publisher := pb,
          fd_source_tasks := 0\<rparr>)"
    using shutdown_run_joining [of ended "fd_source_tasks fd" 1 "feed_shutdown fd"]
    by (auto simp: feed_shutdown_def numeral_3_eq_3 split: option.split)
  ultimately show ?thesis
    using feed_shutdown_step_rank feed_shutdown_step_blocked by simp
qed

text \<open>With its one source task ended the feed is shut down; before that it is not.\<close>

theorem feed_shutdown_terminates_witness:
  "(\<exists>fd. shutdown_run (\<lambda>_. True) 4 (Some SdLocking) example_feed = Some (fd, None)) \<and>
   \<not> (\<exists>fd. shutdown_run (\<lambda>_. False) 4 (Some SdLocking) example_feed = Some (fd, None))"
proof -
  have example: "fd_source_tasks example_feed = 1" "\<not> fd_guarded example_feed"
    "wait_complete (publisher_close (fd_publisher example_feed)) =
      Some (Inr (), publisher_close (publisher_start 10))"
    by (simp_all add: example_feed_def new_feed_def wait_complete_def publisher_start_def
        publisher_close_def)
  show ?thesis
    using conjunct1 [OF feed_shutdown_terminates [of "\<lambda>_. True" example_feed]]
      conjunct1 [OF feed_shutdown_terminates [of "\<lambda>_. False" example_feed]] example
    by simp
qed

end
