(* ===== verification/Whole_System.thy ===== *)
theory Whole_System
  imports Source_Start Manager_Properties
begin

section \<open>The running service (service.rs, service/manager.rs)\<close>

text \<open>
  The manager and the pipelines of its feeds as one system. Every feed of the manager's heap has the
  sources that \<open>open\<close> has started for it; its publisher is the one of the pipeline. A step is a request,
  a step of the manager and its tasks, or a step of the tasks that feed a publisher. The shutdown of a
  feed waits for the very source tasks of its pipeline.

  The factories are those of \<open>Manager::new\<close>. The hash map of an instrument never changes, so that it
  is always iterated in the same order: \<open>ord\<close> gives it.
\<close>

type_synonym feed_sources = "source_id \<rightharpoonup> feed_task \<times> source_task option"

record system =
  sys_manager :: manager
  sys_sources :: "feed_sources list"      \<comment> \<open>of the feeds in \<open>mg_heap\<close>\<close>

definition system_new :: system where
  "system_new = \<lparr>sys_manager = manager_new, sys_sources = []\<rparr>"

definition service_sources ::
  "(string \<Rightarrow> string) \<Rightarrow> nat \<Rightarrow> (instrument \<Rightarrow> source_id list) \<Rightarrow> instrument \<Rightarrow>
    panic + (string + source_handle list)" where
  "service_sources ul n ord i = start_summary_sources (ord i) (new_factory_map ul n) i"

definition sources_of_feed ::
  "(string \<Rightarrow> string) \<Rightarrow> nat \<Rightarrow> (instrument \<Rightarrow> source_id list) \<Rightarrow> feed \<Rightarrow> feed_sources" where
  "sources_of_feed ul n ord fd =
     (case service_sources ul n ord (fd_instrument fd) of
        Inr (Inr handles) \<Rightarrow> pl_sources (started_pipeline n handles)
      | _ \<Rightarrow> Map.empty)"

text \<open>A request, with the sources of the feed it makes, if it makes one.\<close>

definition system_request ::
  "(string \<Rightarrow> string) \<Rightarrow> nat \<Rightarrow> (instrument \<Rightarrow> source_id list) \<Rightarrow> instrument_map \<Rightarrow> string \<Rightarrow> system \<Rightarrow>
    (panic + (grpc_code \<times> string + nat)) \<times> system" where
  "system_request ul n ord im symbol y =
     (let m = sys_manager y;
          (r, m') = open_summary_stream n (service_sources ul n ord) im symbol m;
          made = drop (length (mg_heap m)) (mg_heap m')
      in (r, \<lparr>sys_manager = m', sys_sources = sys_sources y @ map (sources_of_feed ul n ord) made\<rparr>))"

text \<open>\<open>source_ended y fid k\<close>: of the join handles of the feed, which are in the order of its sources, the
  one with \<open>k\<close> others after it belongs to a source task that has ended.\<close>

definition source_ended ::
  "(string \<Rightarrow> string) \<Rightarrow> nat \<Rightarrow> (instrument \<Rightarrow> source_id list) \<Rightarrow> system \<Rightarrow> nat \<Rightarrow> nat \<Rightarrow> bool" where
  "source_ended ul n ord y fid k \<longleftrightarrow>
     (case service_sources ul n ord (fd_instrument (mg_heap (sys_manager y) ! fid)) of
        Inr (Inr handles) \<Rightarrow>
          (case (sys_sources y ! fid) (src_id (fst (rev handles ! k))) of
             Some (_, Some st) \<Rightarrow> st_phase st = StEnded
           | _ \<Rightarrow> False)
      | _ \<Rightarrow> False)"

definition pipeline_of :: "system \<Rightarrow> nat \<Rightarrow> pipeline" where
  "pipeline_of y fid =
     \<lparr>pl_sources = sys_sources y ! fid, pl_publisher = fd_publisher (mg_heap (sys_manager y) ! fid)\<rparr>"

definition set_pipeline :: "nat \<Rightarrow> pipeline \<Rightarrow> system \<Rightarrow> system" where
  "set_pipeline fid p y =
     \<lparr>sys_manager = update_feed fid (\<lambda>fd. fd\<lparr>fd_publisher := pl_publisher p\<rparr>) (sys_manager y),
      sys_sources = (sys_sources y)[fid := pl_sources p]\<rparr>"

text \<open>The manager makes no feed here, and what it does to a publisher is closing it or waiting for it.\<close>

definition feeds_managed :: "manager \<Rightarrow> manager \<Rightarrow> bool" where
  "feeds_managed m m' \<longleftrightarrow> length (mg_heap m') = length (mg_heap m) \<and>
     (\<forall>fid < length (mg_heap m).
        fd_publisher (mg_heap m' ! fid) = fd_publisher (mg_heap m ! fid) \<or>
        publisher_control (fd_publisher (mg_heap m ! fid)) (fd_publisher (mg_heap m' ! fid)))"

inductive system_step ::
  "(string \<Rightarrow> string) \<Rightarrow> 'j serde_json \<Rightarrow> wire \<Rightarrow> av_push \<Rightarrow> nat \<Rightarrow>
    (instrument \<Rightarrow> source_id list) \<Rightarrow> instrument_map \<Rightarrow> system \<Rightarrow> system \<Rightarrow> bool"
  for ul :: "string \<Rightarrow> string" and S :: "'j serde_json" and net :: wire
    and av :: av_push and n :: nat and ord :: "instrument \<Rightarrow> source_id list" and im :: instrument_map where
  request: "system_request ul n ord im symbol y = (r, y') \<Longrightarrow> system_step ul S net av n ord im y y'"
| manage: "manager_work (source_ended ul n ord y) av n (service_sources ul n ord) im (sys_manager y) m' \<or>
      own_shutdown (sys_manager y) m' \<Longrightarrow>
    feeds_managed (sys_manager y) m' \<Longrightarrow>
    system_step ul S net av n ord im y (y\<lparr>sys_manager := m'\<rparr>)"
| pipe: "fid < length (mg_heap (sys_manager y)) \<Longrightarrow>
    pipeline_move S net av n (pipeline_of y fid) p \<Longrightarrow>
    pl_publisher p = pl_publisher (pipeline_of y fid) \<or>
      publisher_moves av n (pl_publisher (pipeline_of y fid)) (pl_publisher p) \<Longrightarrow>
    system_step ul S net av n ord im y (set_pipeline fid p y)"

lemma manage_step:
  "manager_work ended av n cs im m m' \<or> own_shutdown m m' \<Longrightarrow> manager_step av n cs im m m'"
  by (blast intro: manager_step.work own_shutdown_step)

definition system_reach ::
  "(string \<Rightarrow> string) \<Rightarrow> 'j serde_json \<Rightarrow> wire \<Rightarrow> av_push \<Rightarrow> nat \<Rightarrow>
    (instrument \<Rightarrow> source_id list) \<Rightarrow> instrument_map \<Rightarrow> system \<Rightarrow> bool" where
  "system_reach ul S net av n ord im y \<longleftrightarrow> (system_step ul S net av n ord im)\<^sup>*\<^sup>* system_new y"

subsection \<open>What a step of the manager leaves alone\<close>

definition heap_grows :: "manager \<Rightarrow> manager \<Rightarrow> bool" where
  "heap_grows m m' \<longleftrightarrow> length (mg_heap m) \<le> length (mg_heap m') \<and>
     (\<forall>g < length (mg_heap m). fd_instrument (mg_heap m' ! g) = fd_instrument (mg_heap m ! g))"

lemma heap_grows_same [simp]: "mg_heap m' = mg_heap m \<Longrightarrow> heap_grows m m'"
  by (simp add: heap_grows_def)

lemma heap_grows_update:
  assumes "mg_heap m' = (mg_heap m)[fid := fd]" "fd_instrument fd = fd_instrument (mg_heap m ! fid)"
  shows "heap_grows m m'"
proof -
  have "fd_instrument ((mg_heap m)[fid := fd] ! g) = fd_instrument (mg_heap m ! g)"
    if "g < length (mg_heap m)" for g
    using that assms(2) by (cases "g = fid") simp_all
  then show ?thesis by (simp add: heap_grows_def assms(1))
qed

lemma subscribe_frame [simp]:
  "mg_clients (on_subscribe fid m) = mg_clients m" "mg_clients (on_unsubscribe fid m) = mg_clients m"
  "mg_heap (on_subscribe fid m) = (mg_heap m)
    [fid := (mg_heap m ! fid)\<lparr>fd_subscriptions := fd_subscriptions (mg_heap m ! fid) + 1\<rparr>]"
  "mg_heap (on_unsubscribe fid m) = (mg_heap m)
    [fid := (mg_heap m ! fid)\<lparr>fd_subscriptions := fd_subscriptions (mg_heap m ! fid) - 1\<rparr>]"
  by (simp_all add: on_subscribe_def on_unsubscribe_def update_feed_def Let_def)

lemma client_step_cases:
  assumes "client_step k ev m = Some m'"
  obtains ct m1 sb where "ct = mg_clients m ! k"
    "publish_step (feed_view_of (mg_heap m ! ct_feed ct)) (ct_subscriber ct) ev = Some sb"
    "m1 = m\<lparr>mg_clients := (mg_clients m)[k := ct\<lparr>ct_subscriber := sb\<rparr>]\<rparr>"
    "m' \<in> {m1, on_subscribe (ct_feed ct) m1, on_unsubscribe (ct_feed ct) m1}"
proof -
  let ?ct = "mg_clients m ! k"
  obtain sb where sb: "publish_step (feed_view_of (mg_heap m ! ct_feed ?ct)) (ct_subscriber ?ct) ev = Some sb"
    using assms by (auto simp: client_step_def Let_def split: option.splits)
  show ?thesis
    by (rule that [OF refl sb refl]) (use assms sb in \<open>auto simp: client_step_def Let_def\<close>)
qed

lemma client_step_heap:
  assumes "client_step k ev m = Some m'"
  shows "heap_grows m m'"
  using assms
proof (cases rule: client_step_cases)
  case (1 ct m1 sb)
  then consider "mg_heap m' = mg_heap m"
    | c where "mg_heap m' = (mg_heap m)[ct_feed ct := (mg_heap m ! ct_feed ct)\<lparr>fd_subscriptions := c\<rparr>]"
    by force
  then show ?thesis by cases (auto intro: heap_grows_update)
qed

lemma shutdown_step_heap:
  assumes "shutdown_step ended k m = Some m'"
  shows "heap_grows m m'" "mg_clients m' = mg_clients m"
proof -
  obtain fid fd ph task' where fd: "feed_shutdown_step (ended fid) (sd_phase (mg_shutdowns m ! k)) (mg_heap m ! fid) = Some (fd, ph)"
    "m' = update_feed fid (\<lambda>_. fd) (m\<lparr>mg_shutdowns := (mg_shutdowns m)[k := task']\<rparr>)"
    using assms by (auto simp: shutdown_step_def Let_def split: list.splits option.splits)
  show "heap_grows m m'"
    by (rule heap_grows_update [OF _ feed_shutdown_step_frame(1) [OF fd(1)]]) (simp add: fd(2) update_feed_def)
  show "mg_clients m' = mg_clients m" by (simp add: fd(2))
qed

lemma remove_feed_frame [simp]:
  "mg_heap (remove_feed_if_unused fid m) = mg_heap m" "mg_clients (remove_feed_if_unused fid m) = mg_clients m"
  by (auto simp: remove_feed_if_unused_def Let_def split: option.split)

lemma open_summary_stream_heap:
  assumes "open_summary_stream n cs im symbol m = (r, m')" "fid < length (mg_heap m)"
  shows "mg_heap m' ! fid = mg_heap m ! fid"
  using assms(1) by (cases rule: open_summary_stream_cases) (use assms(2) in \<open>simp_all add: nth_append\<close>)

lemma manager_step_heap:
  assumes "manager_step av n cs im m m'"
  shows "heap_grows m m'"
  using assms
proof (induction rule: manager_step.induct)
  case (work m m')
  then show ?case
  proof (induction rule: manager_work.induct)
    case (request symbol m r m')
    then show ?case by (cases rule: open_summary_stream_cases) (auto simp: heap_grows_def nth_append)
  next
    case (client k m ev m')
    show ?case by (rule client_step_heap [OF client(2)])
  next
    case (publisher fid m pb)
    show ?case by (simp add: heap_grows_def update_feed_nth)
  next
    case (shut k m m')
    show ?case by (rule shutdown_step_heap(1) [OF shut(2)])
  qed simp_all
qed (simp_all add: shutdown_flag_def shutdown_drain_def)

text \<open>The task of a client stays as it is or takes one step; clients are only added, and start afresh.\<close>

definition clients_go_on :: "manager \<Rightarrow> manager \<Rightarrow> bool" where
  "clients_go_on m m' \<longleftrightarrow> length (mg_clients m) \<le> length (mg_clients m') \<and>
     (\<forall>k < length (mg_clients m').
        if k < length (mg_clients m)
        then ct_feed (mg_clients m' ! k) = ct_feed (mg_clients m ! k) \<and>
          (ct_subscriber (mg_clients m' ! k) = ct_subscriber (mg_clients m ! k) \<or>
           (\<exists>ev. publish_step (feed_view_of (mg_heap m ! ct_feed (mg_clients m ! k)))
              (ct_subscriber (mg_clients m ! k)) ev = Some (ct_subscriber (mg_clients m' ! k))))
        else ct_subscriber (mg_clients m' ! k) = subscriber_new)"

lemma clients_same [simp]: "mg_clients m' = mg_clients m \<Longrightarrow> clients_go_on m m'"
  by (simp add: clients_go_on_def)

lemma manager_step_clients:
  assumes "manager_step av n cs im m m'"
  shows "clients_go_on m m'"
  using assms
proof (induction rule: manager_step.induct)
  case (work m m')
  then show ?case
  proof (induction rule: manager_work.induct)
    case (request symbol m r m')
    then show ?case
      by (cases rule: open_summary_stream_cases) (auto simp: clients_go_on_def nth_append less_Suc_eq)
  next
    case (client k m ev m')
    let ?ct = "mg_clients m ! k"
    obtain sb where sb: "publish_step (feed_view_of (mg_heap m ! ct_feed ?ct)) (ct_subscriber ?ct) ev = Some sb"
      "mg_clients m' = (mg_clients m)[k := ?ct\<lparr>ct_subscriber := sb\<rparr>]"
      using client(2) by (cases rule: client_step_cases) auto
    then show ?case using client(1) by (auto simp: clients_go_on_def nth_list_update)
  next
    case (shut k m m')
    show ?case using shutdown_step_heap(2) [OF shut(2)] by simp
  qed simp_all
qed (simp_all add: shutdown_flag_def shutdown_drain_def)

subsection \<open>The system is the manager with its pipelines\<close>

definition feed_pipeline_reach ::
  "(string \<Rightarrow> string) \<Rightarrow> 'j serde_json \<Rightarrow> wire \<Rightarrow> av_push \<Rightarrow> nat \<Rightarrow> system \<Rightarrow> nat \<Rightarrow> bool" where
  "feed_pipeline_reach ul S net av n y fid \<longleftrightarrow>
     pipeline_reach ul S net av n (fd_instrument (mg_heap (sys_manager y) ! fid)) (pipeline_of y fid)"

definition system_ok ::
  "(string \<Rightarrow> string) \<Rightarrow> 'j serde_json \<Rightarrow> wire \<Rightarrow> av_push \<Rightarrow> nat \<Rightarrow>
    (instrument \<Rightarrow> source_id list) \<Rightarrow> instrument_map \<Rightarrow> system \<Rightarrow> bool" where
  "system_ok ul S net av n ord im y \<longleftrightarrow>
     manager_reach av n (service_sources ul n ord) im (sys_manager y) \<and>
     length (sys_sources y) = length (mg_heap (sys_manager y)) \<and>
     (\<forall>fid < length (mg_heap (sys_manager y)). feed_pipeline_reach ul S net av n y fid)"

lemma system_new_ok: "system_ok ul S net av n ord im system_new"
  by (simp add: system_ok_def system_new_def manager_reach_new) (simp add: manager_new_def)

lemma new_feed_reach:
  assumes "iteration_order (ord i)" "service_sources ul n ord i = okP handles"
  shows "pipeline_reach ul S net av n i
    \<lparr>pl_sources = sources_of_feed ul n ord (new_feed i (publisher_start n) k), pl_publisher = publisher_start n\<rparr>"
proof -
  have "\<lparr>pl_sources = sources_of_feed ul n ord (new_feed i (publisher_start n) k),
      pl_publisher = publisher_start n\<rparr> = started_pipeline n handles"
    by (rule pipeline.equality) (simp_all add: sources_of_feed_def assms(2) new_feed_def)
  then show ?thesis
    using start_summary_sources_pipeline(1) [OF assms(1)] assms(2) by (simp add: service_sources_def)
qed

lemma request_system_ok:
  assumes "system_ok ul S net av n ord im y" "\<And>i. iteration_order (ord i)"
    and "system_request ul n ord im symbol y = (r, y')"
  shows "system_ok ul S net av n ord im y'"
proof -
  let ?m = "sys_manager y"
  obtain r' m' where req: "open_summary_stream n (service_sources ul n ord) im symbol ?m = (r', m')"
    by fastforce
  have reach: "manager_reach av n (service_sources ul n ord) im m'"
    using manager_reach_step [OF _ manager_step_intros(1) [OF req]] assms(1) by (simp add: system_ok_def)
  have y': "y' = \<lparr>sys_manager = m', sys_sources = sys_sources y @
      map (sources_of_feed ul n ord) (drop (length (mg_heap ?m)) (mg_heap m'))\<rparr>"
    using assms(3) by (simp add: system_request_def req)
  from req show ?thesis
  proof (cases rule: open_summary_stream_cases)
    case (opened i srcs)
    then show ?thesis
      using assms(1) reach new_feed_reach [OF assms(2) opened(5), of S net av]
      by (auto simp: y' system_ok_def feed_pipeline_reach_def pipeline_of_def nth_append less_Suc_eq)
        (simp_all add: new_feed_def)
  qed (use assms(1) reach in \<open>auto simp: y' system_ok_def feed_pipeline_reach_def pipeline_of_def\<close>)
qed

lemma system_step_ok:
  assumes "system_step ul S net av n ord im y y'" "\<And>i. iteration_order (ord i)"
    and "system_ok ul S net av n ord im y"
  shows "system_ok ul S net av n ord im y'"
  using assms
proof (induction rule: system_step.induct)
  case (request symbol y r y')
  show ?case by (rule request_system_ok [OF request(3,2,1)])
next
  case (manage y m')
  note step = manage_step [OF manage(1)]
  have "feed_pipeline_reach ul S net av n (y\<lparr>sys_manager := m'\<rparr>) fid"
    if "fid < length (mg_heap (sys_manager y))" for fid
  proof -
    have old: "feed_pipeline_reach ul S net av n y fid" using manage(4) that by (simp add: system_ok_def)
    have "pipeline_of (y\<lparr>sys_manager := m'\<rparr>) fid =
        (pipeline_of y fid)\<lparr>pl_publisher := fd_publisher (mg_heap m' ! fid)\<rparr>"
      by (simp add: pipeline_of_def)
    moreover from manage(2) that
    have "fd_publisher (mg_heap m' ! fid) = pl_publisher (pipeline_of y fid) \<or>
        publisher_control (pl_publisher (pipeline_of y fid)) (fd_publisher (mg_heap m' ! fid))"
      by (simp add: feeds_managed_def pipeline_of_def)
    moreover have "fd_instrument (mg_heap m' ! fid) = fd_instrument (mg_heap (sys_manager y) ! fid)"
      using manager_step_heap [OF step] that by (simp add: heap_grows_def)
    ultimately show ?thesis
      using old pipeline_reach.move [OF old [unfolded feed_pipeline_reach_def] pipeline_move.control]
      by (auto simp: feed_pipeline_reach_def)
  qed
  then show ?case
    using manage(2,4) manager_reach_step [OF _ step] by (simp add: system_ok_def feeds_managed_def)
next
  case (pipe fid y p)
  let ?y = "set_pipeline fid p y"
  have manager: "manager_reach av n (service_sources ul n ord) im (sys_manager ?y)"
  proof (cases "pl_publisher p = pl_publisher (pipeline_of y fid)")
    case True
    then have "sys_manager ?y = sys_manager y"
      by (simp add: set_pipeline_def pipeline_of_def update_feed_def)
    then show ?thesis using pipe(5) by (simp add: system_ok_def)
  next
    case False
    then have "publisher_moves av n (fd_publisher (mg_heap (sys_manager y) ! fid)) (pl_publisher p)"
      using pipe(3) by (simp add: pipeline_of_def)
    note manager_step_intros(3) [OF pipe(1) this, where cs = "service_sources ul n ord" and im = im]
    from manager_reach_step [OF _ this] pipe(5) show ?thesis
      by (simp add: system_ok_def set_pipeline_def)
  qed
  have "feed_pipeline_reach ul S net av n ?y g" if g: "g < length (mg_heap (sys_manager y))" for g
  proof -
    have old: "feed_pipeline_reach ul S net av n y g" using pipe(5) g by (simp add: system_ok_def)
    show ?thesis
    proof (cases "g = fid")
      case True
      have "pipeline_of ?y fid = p" "fd_instrument (mg_heap (sys_manager ?y) ! fid) =
          fd_instrument (mg_heap (sys_manager y) ! fid)"
        using pipe(1,5) by (simp_all add: pipeline_of_def set_pipeline_def update_feed_nth system_ok_def)
      then show ?thesis
        using pipeline_reach.move [OF _ pipe(2)] old by (simp add: feed_pipeline_reach_def True)
    next
      case False
      then show ?thesis using old g
        by (simp add: feed_pipeline_reach_def pipeline_of_def set_pipeline_def update_feed_nth)
    qed
  qed
  then show ?case using manager pipe(5) by (simp add: system_ok_def) (simp add: set_pipeline_def)
qed

lemma system_reach_ok:
  assumes "system_reach ul S net av n ord im y" "\<And>i. iteration_order (ord i)"
  shows "system_ok ul S net av n ord im y"
  using assms(1) unfolding system_reach_def
  by (induction rule: rtranclp_induct) (auto intro: system_new_ok system_step_ok assms(2))

end
