(* ===== verification/Service_Properties.thy ===== *)
theory Service_Properties
  imports Whole_System Client_Streams
begin

section \<open>What the service guarantees its clients\<close>

text \<open>
  The invariant that every summary a client is sent, or that its task holds, is sound for the
  instrument of its feed, and a run of the service in which a client is sent a summary: a request, a
  connection to Binance with one book, the source task, the merge, and the task of the client.
\<close>

subsection \<open>What the clients are sent\<close>

definition clients_sound ::
  "(string \<Rightarrow> string) \<Rightarrow> 'j serde_json \<Rightarrow> wire \<Rightarrow> av_push \<Rightarrow> nat \<Rightarrow> manager \<Rightarrow> bool" where
  "clients_sound ul S net av n m \<longleftrightarrow>
     (\<forall>ct \<in> set (mg_clients m). \<forall>s \<in> set (sb_sent (ct_subscriber ct) @ held (sb_phase (ct_subscriber ct))).
        sound_summary ul S net av n (fd_instrument (mg_heap m ! ct_feed ct)) s)"

lemma publish_step_keeps:
  assumes "publish_step v sb ev = Some sb'" "\<forall>s \<in> set (sb_sent sb @ held (sb_phase sb)). P s"
    and "\<And>s. vw_latest v = Inr (Some s) \<Longrightarrow> P s"
  shows "\<forall>s \<in> set (sb_sent sb' @ held (sb_phase sb')). P s"
  using assms unfolding publish_step_def
  by (cases "sb_phase sb"; cases ev)
    (auto dest!: send_summary_cases split: if_splits sum.splits option.splits summary_error.splits)

lemma feed_summary_sound:
  assumes "system_ok ul S net av n ord im y" "arrayvec_push_spec av"
    and "fid < length (mg_heap (sys_manager y))"
    and "latest_summary (fd_publisher (mg_heap (sys_manager y) ! fid)) = Inr (Some s)"
  shows "sound_summary ul S net av n (fd_instrument (mg_heap (sys_manager y) ! fid)) s"
proof -
  have "feed_pipeline_reach ul S net av n y fid" using assms(1,3) by (simp add: system_ok_def)
  then have "pipeline_ok ul S net av n (fd_instrument (mg_heap (sys_manager y) ! fid)) (pipeline_of y fid)"
    unfolding feed_pipeline_reach_def by (rule pipeline_reach_ok)
  then have "publisher_ok ul S net av n (fd_instrument (mg_heap (sys_manager y) ! fid))
      (fd_publisher (mg_heap (sys_manager y) ! fid))"
    by (simp add: pipeline_ok_def pipeline_of_def)
  from publisher_ok_summary [OF this assms(2,4)] show ?thesis .
qed

lemma client_feed_known:
  assumes "system_ok ul S net av n ord im y" "symbols_match im" "ct \<in> set (mg_clients (sys_manager y))"
  shows "ct_feed ct < length (mg_heap (sys_manager y))"
proof -
  have "manager_ok (sys_manager y)"
    using assms(1) manager_reach_ok [OF _ assms(2)] unfolding system_ok_def by blast
  then show ?thesis using manager_okD(1) assms(3) by (auto simp: known_feeds_def)
qed

lemma clients_sound_step:
  assumes "clients_sound ul S net av n (sys_manager y)" "system_ok ul S net av n ord im y"
    and "arrayvec_push_spec av" "symbols_match im"
    and "manager_step av n (service_sources ul n ord) im (sys_manager y) m'"
  shows "clients_sound ul S net av n m'"
proof -
  let ?m = "sys_manager y"
  have "\<forall>s \<in> set (sb_sent (ct_subscriber ct') @ held (sb_phase (ct_subscriber ct'))).
      sound_summary ul S net av n (fd_instrument (mg_heap m' ! ct_feed ct')) s"
    if "ct' \<in> set (mg_clients m')" for ct'
  proof -
    have instrument: "ct_feed ct < length (mg_heap ?m)"
      "fd_instrument (mg_heap m' ! ct_feed ct) = fd_instrument (mg_heap ?m ! ct_feed ct)"
      if "ct \<in> set (mg_clients ?m)" for ct
      using client_feed_known [OF assms(2,4) that] manager_step_heap [OF assms(5)]
      by (simp_all add: heap_grows_def)
    from that obtain k where k: "k < length (mg_clients m')" "ct' = mg_clients m' ! k"
      by (auto simp: in_set_conv_nth)
    from manager_step_clients [OF assms(5)] k(1)
    consider "ct_subscriber ct' = subscriber_new"
      | "k < length (mg_clients ?m)" "ct_feed ct' = ct_feed (mg_clients ?m ! k)"
        "ct_subscriber ct' = ct_subscriber (mg_clients ?m ! k)"
      | ct ev where "ct \<in> set (mg_clients ?m)" "ct_feed ct' = ct_feed ct"
        "publish_step (feed_view_of (mg_heap ?m ! ct_feed ct)) (ct_subscriber ct) ev = Some (ct_subscriber ct')"
      unfolding clients_go_on_def k(2) by (metis nth_mem)
    then show ?thesis
    proof cases
      case 1
      then show ?thesis by (simp add: subscriber_new_def)
    next
      case 2
      then show ?thesis using assms(1) instrument(2) [OF nth_mem [OF 2(1)]] by (simp add: clients_sound_def)
    next
      case 3
      let ?P = "sound_summary ul S net av n (fd_instrument (mg_heap ?m ! ct_feed ct))"
      have "?P s" if "vw_latest (feed_view_of (mg_heap ?m ! ct_feed ct)) = Inr (Some s)" for s
        using feed_summary_sound [OF assms(2,3) instrument(1) [OF 3(1)]] that by (simp add: feed_view_of_def)
      from publish_step_keeps [where P = ?P, OF 3(3) _ this] show ?thesis
        using assms(1) 3(1,2) instrument(2) [OF 3(1)] by (simp add: clients_sound_def)
    qed
  qed
  then show ?thesis by (simp add: clients_sound_def)
qed

lemma system_reach_sound:
  assumes "system_reach ul S net av n ord im y" "\<And>i. iteration_order (ord i)"
    and "arrayvec_push_spec av" "symbols_match im"
  shows "clients_sound ul S net av n (sys_manager y)"
  using assms(1) unfolding system_reach_def
proof (induction rule: rtranclp_induct)
  case base
  show ?case by (simp add: clients_sound_def system_new_def) (simp add: manager_new_def)
next
  case (step y y')
  have ok: "system_ok ul S net av n ord im y"
    using system_reach_ok [OF _ assms(2)] step(1) by (auto simp: system_reach_def)
  from step(2,3) ok show ?case
  proof (induction rule: system_step.induct)
    case (request symbol y r y')
    obtain r' m' where req: "open_summary_stream n (service_sources ul n ord) im symbol (sys_manager y) = (r', m')"
      by fastforce
    then have "sys_manager y' = m'" using request(1) by (auto simp: system_request_def)
    then show ?case
      using clients_sound_step [OF request(2,3) assms(3,4) manager_step_intros(1) [OF req]] by simp
  next
    case (manage y m')
    show ?case using clients_sound_step [OF manage(3,4) assms(3,4) manage_step [OF manage(1)]] by simp
  next
    case (pipe fid y p)
    note client_feed_known [OF pipe(5) assms(4)]
    then have "fd_instrument (mg_heap (sys_manager (set_pipeline fid p y)) ! ct_feed ct) =
        fd_instrument (mg_heap (sys_manager y) ! ct_feed ct)" if "ct \<in> set (mg_clients (sys_manager y))" for ct
      using that by (simp add: set_pipeline_def update_feed_nth)
    then show ?case using pipe(4)
      by (simp add: clients_sound_def) (simp add: set_pipeline_def)
  qed
qed

subsection \<open>An example\<close>

definition example_order :: "instrument \<Rightarrow> source_id list" where
  "example_order i = [Bitstamp, Binance]"

lemma example_order [simp]: "iteration_order (example_order i)"
  by (auto simp: example_order_def iteration_order_def UNIV_source_id)

text \<open>A service with one feed and one client.\<close>

definition example_system :: "pipeline \<Rightarrow> 64 word \<Rightarrow> subscriber \<Rightarrow> system" where
  "example_system p c sb =
     \<lparr>sys_manager = manager_new\<lparr>mg_feeds := [''ETH-BTC'' \<mapsto> 0],
        mg_heap := [(new_feed example_instrument (pl_publisher p) 1)\<lparr>fd_subscriptions := c\<rparr>],
        mg_clients := [\<lparr>ct_feed = 0, ct_subscriber = sb\<rparr>]\<rparr>,
      sys_sources = [pl_sources p]\<rparr>"

abbreviation example_reach :: "system \<Rightarrow> bool" where
  "example_reach \<equiv> system_reach id example_json example_net list_push 3 example_order example_map"

lemma example_reach_step:
  "example_reach y \<Longrightarrow> system_step id example_json example_net list_push 3 example_order example_map y y' \<Longrightarrow> example_reach y'"
  by (simp add: system_reach_def)

lemma example_pipe:
  assumes "example_reach (example_system p c sb)" "pipeline_move example_json example_net list_push 3 p p'"
    and "pl_publisher p' = pl_publisher p \<or> publisher_moves list_push 3 (pl_publisher p) (pl_publisher p')"
  shows "example_reach (example_system p' c sb)"
proof -
  have "pipeline_of (example_system p c sb) 0 = p" "set_pipeline 0 p' (example_system p c sb) = example_system p' c sb"
    by (simp_all add: pipeline_of_def set_pipeline_def example_system_def update_feed_def new_feed_def)
  then show ?thesis
    using example_reach_step [OF assms(1) system_step.pipe [of 0 _ _ _ _ _ p']] assms(2,3)
    by (simp add: example_system_def)
qed

lemma example_pipe_merge:
  assumes "example_reach (example_system p c sb)" "publisher_step list_push 3 (pl_publisher p) ev = Some pb"
  shows "example_reach (example_system (p\<lparr>pl_publisher := pb\<rparr>) c sb)"
  by (rule example_pipe [OF assms(1) pipeline_move.merge [OF assms(2)]])
    (use assms(2) in \<open>auto simp: publisher_moves_def\<close>)

definition example_started :: feed_task where
  "example_started = \<lparr>ft_key = ''ethbtc'', ft_phase = Connecting (binance_url ''ethbtc''),
     ft_address = '''', ft_feed = feed_new, ft_sent = []\<rparr>"

lemma example_requested:
  "system_request id 3 example_order example_map ''ETH-BTC'' system_new =
    (okP 0, example_system (set_source (pipeline_new 3) Binance example_started (Some (source_task_new feed_new)))
      0 subscriber_new)"
proof -
  have "service_sources id 3 example_order example_instrument =
      okP [(\<lparr>src_id = Binance, src_task = example_started\<rparr>, source_task_new feed_new)]"
    by (simp add: service_sources_def start_summary_sources_def shipped_factories_ok source_mapping_iter_def
        example_order_def example_instrument_def instrument_new_def List.map_filter_def spawn_source_task_def
        shipped_task_def example_lowercase example_started_def task_new_def)
  then show ?thesis
    by (simp add: system_request_def open_summary_stream_def manager_open_def system_new_def manager_new_def
        Let_def sources_of_feed_def new_feed_def started_pipeline_def example_system_def pipeline_new_def)
qed

lemma example_exchange_run:
  assumes "run_task (wired_step example_json example_net 3 src) t evs = Some t'"
    and "example_reach (example_system (set_source p src t st) c sb)"
  shows "example_reach (example_system (set_source p src t' st) c sb)"
  using assms(1)
proof (induction rule: run_task_induct)
  case (step evs u ev u')
  have "pl_sources (set_source p src u st) src = Some (u, st)" by simp
  note move = pipeline_move.exchange [OF this step(2), where av = list_push]
  have "example_reach (example_system (set_source (set_source p src u st) src u' st) c sb)"
    by (rule example_pipe [OF step(3) move]) simp
  moreover have "set_source (set_source p src u st) src u' st = set_source p src u' st" by simp
  ultimately show ?case by (simp only:)
qed (rule assms(2))

lemma example_client_step:
  assumes "client_step 0 ev (sys_manager (example_system p c sb)) = Some (sys_manager (example_system p c' sb'))"
  shows "system_step id example_json example_net list_push 3 example_order example_map
    (example_system p c sb) (example_system p c' sb')"
proof -
  let ?y = "example_system p c sb" and ?m = "sys_manager (example_system p c' sb')"
  have "manager_work (source_ended id 3 example_order ?y) list_push 3 (service_sources id 3 example_order)
      example_map (sys_manager ?y) ?m"
    by (rule manager_work.client [OF _ assms]) (simp add: example_system_def)
  moreover have "feeds_managed (sys_manager ?y) ?m"
    by (simp add: feeds_managed_def example_system_def)
  ultimately have "system_step id example_json example_net list_push 3 example_order example_map ?y (?y\<lparr>sys_manager := ?m\<rparr>)"
    by (intro system_step.manage disjI1)
  then show ?thesis by (simp add: example_system_def)
qed

lemmas example_client = example_reach_step [OF _ example_client_step]

definition example_client_task :: "subscriber_phase \<Rightarrow> nat \<Rightarrow> summary list \<Rightarrow> subscriber" where
  "example_client_task ph seen ss = \<lparr>sb_phase = ph, sb_shutdown_from = 0, sb_seen = seen, sb_sent = ss\<rparr>"

lemmas example_client_simps = client_step_def example_system_def publish_step_def on_subscribe_def update_feed_def
  Let_def new_feed_def manager_new_def notify_grace_def example_client_task_def feed_view_of_def

text \<open>The task of the client gets to its loop before there is a summary.\<close>

lemma example_client_waits:
  assumes "example_reach (example_system p 0 subscriber_new)" "latest_summary (pl_publisher p) = Inr None"
    and "pb_version (pl_publisher p) = 0"
  shows "example_reach (example_system p 1 (example_client_task SbWaiting 0 []))"
proof -
  have "example_reach (example_system p 1 (example_client_task SbSubscribed 0 []))"
    by (rule example_client [OF assms(1), where ev = SbNext]) (simp add: example_client_simps subscriber_new_def)
  then have "example_reach (example_system p 1 (example_client_task SbReading 0 []))"
    by (rule example_client [where ev = SbNext]) (simp add: example_client_simps)
  then have "example_reach (example_system p 1 (example_client_task SbWatching 0 []))"
    by (rule example_client [where ev = SbNext]) (simp add: example_client_simps assms(2))
  then show ?thesis
    by (rule example_client [where ev = SbNext]) (simp add: example_client_simps assms(3))
qed

text \<open>One book arrives and is merged, and the task of the client notices it.\<close>

lemma example_checking:
  "\<exists>p sm. example_reach (example_system p 1 (example_client_task SbChecking 1 [])) \<and>
    pl_sources p = [Binance \<mapsto> (example_streaming, Some \<lparr>st_seen = 1, st_phase = StWaiting\<rparr>)] \<and>
    pb_queue (pl_publisher p) = [] \<and> pb_version (pl_publisher p) = 1 \<and>
    pb_phase (pl_publisher p) = Running (book_of 3 [example_binance_snapshot]) \<and>
    latest_summary (pl_publisher p) = Inr (Some sm) \<and> sm_bids sm \<noteq> []"
proof -
  let ?R = "\<lambda>p. example_reach (example_system p 1 (example_client_task SbWaiting 0 []))"
  let ?src = "\<lambda>t seen ph. set_source (pipeline_new 3) Binance t (Some \<lparr>st_seen = seen, st_phase = ph\<rparr>)"
  have task: "?R (?src t seen' ph')"
    if "?R (?src t seen ph)" "ev = StPoll \<or> ev = StChanged"
      "source_task_step (ft_feed t) \<lparr>st_seen = seen, st_phase = ph\<rparr> ev = Some \<lparr>st_seen = seen', st_phase = ph'\<rparr>"
    for t seen ph ev seen' ph'
  proof -
    have "pipeline_move example_json example_net list_push 3 (?src t seen ph) (?src t seen' ph')"
      using pipeline_move.source [of "?src t seen ph" Binance t _ ev,
          where S = example_json and net = example_net and av = list_push and n = 3] that(2,3)
      by auto
    from example_pipe [OF that(1) this] show ?thesis by simp
  qed
  have "example_reach system_new" by (simp add: system_reach_def)
  from example_reach_step [OF this system_step.request [OF example_requested]]
  have "example_reach (example_system (?src example_started 0 StChecking) 0 subscriber_new)"
    by (simp add: source_task_new_def feed_new_def)
  then have "?R (?src example_started 0 StChecking)"
    by (rule example_client_waits) (simp_all add: pipeline_new_def publisher_start_def latest_summary_def)
  then have "?R (?src example_started 0 StWaiting)"
    by (rule task [of _ _ _ StPoll]) (simp_all add: example_started_def feed_new_def)
  from example_exchange_run [OF _ this, of binance_script example_streaming] example_wired_run
  have "?R (?src example_streaming 0 StWaiting)" by (simp add: example_started_def)
  then have "?R (?src example_streaming 1 StChecking)"
    by (rule task [of _ _ _ StChanged]) (simp_all add: example_streaming_def)
  then have sending: "?R (?src example_streaming 1 (StSending example_binance_snapshot))"
    by (rule task [of _ _ _ StPoll]) (simp_all add: example_streaming_def)
  let ?pb = "(publisher_start 3)\<lparr>pb_queue := [example_binance_snapshot]\<rparr>"
  have send: "source_send (publisher_start 3) example_binance_snapshot = Some (Inr ?pb)"
    by (simp add: source_send_def receiver_open_def publisher_start_def BACKLOG_SIZE_def)
  let ?sent = "(?src example_streaming 1 StWaiting)\<lparr>pl_publisher := ?pb\<rparr>"
  have "pipeline_move example_json example_net list_push 3 (?src example_streaming 1 (StSending example_binance_snapshot)) ?sent"
    using pipeline_move.sent [of "?src example_streaming 1 (StSending example_binance_snapshot)" Binance
        example_streaming _ example_binance_snapshot ?pb,
        where S = example_json and net = example_net and av = list_push and n = 3] send
    by (simp add: pipeline_new_def)
  from example_pipe [OF sending this] send have sent: "?R ?sent"
    by (auto simp: publisher_moves_def pipeline_new_def)
  obtain sm where sm: "to_proto list_push 3 (book_of 3 [example_binance_snapshot]) = Inr sm" "sm_bids sm \<noteq> []"
    using example_merge by blast
  let ?merged = "publish_result (Inr (Some sm))
    (?pb\<lparr>pb_queue := [], pb_phase := Running (book_of 3 [example_binance_snapshot])\<rparr>)"
  have "update_snapshot (combined_new 3) example_binance_snapshot = Inr (book_of 3 [example_binance_snapshot])"
    using update_book_of [of 3 "[]"] by (simp add: combined_new_book_of)
  then have merge: "publisher_step list_push 3 (pl_publisher ?sent) RecvSnapshot = Some ?merged"
    using sm(1) by (simp add: publisher_start_def)
  have "example_reach (example_system (?sent\<lparr>pl_publisher := ?merged\<rparr>) 1 (example_client_task SbChecking 1 []))"
    by (rule example_client [OF example_pipe_merge [OF sent merge], where ev = SbChanged])
      (simp add: example_client_simps publish_result_def publisher_start_def)
  then show ?thesis
    by (rule exI [of _ "?sent\<lparr>pl_publisher := ?merged\<rparr>", OF exI [of _ sm], OF conjI])
      (simp add: pipeline_new_def publish_result_def publisher_start_def latest_summary_def sm(2))
qed

abbreviation example_steps :: "system \<Rightarrow> system \<Rightarrow> bool" where
  "example_steps \<equiv> (system_step id example_json example_net list_push 3 example_order example_map)\<^sup>*\<^sup>*"

lemma example_delivers:
  assumes "latest_summary (pl_publisher p) = Inr (Some sm)"
  shows "example_steps (example_system p 1 (example_client_task SbChecking 1 []))
    (example_system p 1 (example_client_task SbWaiting 1 [sm]))"
proof -
  have "system_step id example_json example_net list_push 3 example_order example_map
      (example_system p 1 (example_client_task SbChecking 1 []))
      (example_system p 1 (example_client_task (SbSending sm) 1 []))"
    by (rule example_client_step [where ev = SbNext]) (simp add: example_client_simps assms)
  moreover have "system_step id example_json example_net list_push 3 example_order example_map
      (example_system p 1 (example_client_task (SbSending sm) 1 []))
      (example_system p 1 (example_client_task SbWaiting 1 [sm]))"
    by (rule example_client_step [where ev = "SbSend (SendCompleted (Inr ()))"])
      (simp add: example_client_simps send_summary_def)
  ultimately show ?thesis by (meson r_into_rtranclp rtranclp_trans)
qed

lemma example_sent:
  "\<exists>p sm. example_reach (example_system p 1 (example_client_task SbWaiting 1 [sm])) \<and> sm_bids sm \<noteq> []"
proof -
  obtain p sm where p: "example_reach (example_system p 1 (example_client_task SbChecking 1 []))"
    "latest_summary (pl_publisher p) = Inr (Some sm)" "sm_bids sm \<noteq> []"
    using example_checking by blast
  from p(1) example_delivers [OF p(2)] have "example_reach (example_system p 1 (example_client_task SbWaiting 1 [sm]))"
    by (simp add: system_reach_def)
  with p(3) show ?thesis by blast
qed

subsection \<open>Properties\<close>

text \<open>C1: end to end: whatever the exchanges and the clients do and in whatever order the tasks run, every
  summary sent to a client is the merge of at most one snapshot of each exchange of the client's
  instrument, parsed from a message for the symbol that the instrument has there: for Binance one that the
  server at the address of the lower case symbol sends, for Bitstamp one on the channel of that symbol;
  every level has a positive amount and names an exchange of the instrument.\<close>

theorem clients_get_sound_summaries:
  assumes "system_reach ul S net av n ord im y" "\<And>i. iteration_order (ord i)"
    and "arrayvec_push_spec av" "symbols_match im"
    and "ct \<in> set (mg_clients (sys_manager y))" "sm \<in> set (sb_sent (ct_subscriber ct))"
    and "i = fd_instrument (mg_heap (sys_manager y) ! ct_feed ct)"
  shows "(\<exists>a b. contributed ul S net n i Bitstamp a \<and> contributed ul S net n i Binance b \<and>
      to_proto av n \<lparr>co_sources = [a, b]\<rparr> = Inr sm) \<and>
    (\<forall>l \<in> set (sm_bids sm @ sm_asks sm). f64_gt (lv_amount l) f64_zero \<and>
      (\<exists>src \<in> dom (in_source_mapping i). lv_exchange l = source_id_fmt src))"
proof -
  have "sound_summary ul S net av n i sm"
    using system_reach_sound [OF assms(1-4)] assms(5,6) by (simp add: clients_sound_def assms(7))
  then show ?thesis unfolding sound_summary_def .
qed

theorem clients_get_sound_summaries_witness:
  "\<exists>y sm a b. example_reach y \<and> sb_sent (ct_subscriber (hd (mg_clients (sys_manager y)))) = [sm] \<and>
    sm_bids sm \<noteq> [] \<and> to_proto list_push 3 \<lparr>co_sources = [a, b]\<rparr> = Inr sm"
proof -
  obtain p sm where p: "example_reach (example_system p 1 (example_client_task SbWaiting 1 [sm]))"
    "sm_bids sm \<noteq> []"
    using example_sent by blast
  let ?y = "example_system p 1 (example_client_task SbWaiting 1 [sm])"
  have "hd (mg_clients (sys_manager ?y)) \<in> set (mg_clients (sys_manager ?y))"
    "sb_sent (ct_subscriber (hd (mg_clients (sys_manager ?y)))) = [sm]"
    by (simp_all add: example_system_def example_client_task_def)
  with clients_get_sound_summaries [OF p(1) _ list_push_spec example_map_ok, of _ sm] p show ?thesis
    by fastforce
qed

text \<open>C18: a request that succeeds puts its client, and no other, on a feed of the instrument with the
  requested symbol, and that feed has not been told to shut down.\<close>

theorem request_serves_symbol:
  assumes "system_reach ul S net av n ord im y" "\<And>i. iteration_order (ord i)" "symbols_match im"
    and "system_request ul n ord im symbol y = (okP fid, y')"
  shows "in_symbol (fd_instrument (mg_heap (sys_manager y') ! fid)) = symbol \<and>
    fd_shutdowns (mg_heap (sys_manager y') ! fid) = 0 \<and> mg_feeds (sys_manager y') symbol = Some fid \<and>
    mg_clients (sys_manager y') = mg_clients (sys_manager y) @ [\<lparr>ct_feed = fid, ct_subscriber = subscriber_new\<rparr>]"
proof -
  obtain r m' where req: "open_summary_stream n (service_sources ul n ord) im symbol (sys_manager y) = (r, m')"
    by fastforce
  have m': "r = okP fid" "sys_manager y' = m'" using assms(4) by (auto simp: system_request_def req)
  from req have feed: "mg_feeds m' symbol = Some fid \<and>
      mg_clients m' = mg_clients (sys_manager y) @ [\<lparr>ct_feed = fid, ct_subscriber = subscriber_new\<rparr>]"
    by (cases rule: open_summary_stream_cases) (use m'(1) in auto)
  have "system_ok ul S net av n ord im y'"
    by (rule request_system_ok [OF system_reach_ok [OF assms(1,2)] assms(2,4)])
  then have "manager_ok m'"
    using manager_reach_ok [OF _ assms(3)] unfolding system_ok_def m'(2) by blast
  from manager_okD(2) [OF this conjunct1 [OF feed]] feed show ?thesis by (simp add: m'(2))
qed

theorem request_serves_symbol_witness:
  "in_symbol (fd_instrument (mg_heap (sys_manager (snd (system_request id 3 example_order example_map
      ''ETH-BTC'' system_new))) ! 0)) = ''ETH-BTC''"
proof -
  have "example_reach system_new" by (simp add: system_reach_def)
  from request_serves_symbol [OF this example_order example_map_ok example_requested] show ?thesis
    by (simp add: example_requested)
qed

end
