(* ===== verification/Service_Liveness.thy ===== *)
theory Service_Liveness
  imports Service_Properties Pipeline_Settling Client_Progress
begin

section \<open>The service delivers the latest books (service/manager.rs, service/publisher.rs)\<close>

text \<open>
  The two halves put together: a pipeline with nothing left to do shows the merge of the latest
  snapshots, and a client whose task has noticed a change follows what its feed shows. No step of
  the service takes the view of a feed back.
\<close>

subsection \<open>The view of a feed goes on\<close>

lemma view_follows_refl [simp]: "view_follows v v"
  by (simp add: view_follows_def)

lemma publisher_control_view:
  "publisher_control pb pb' \<Longrightarrow> pb_latest pb' = pb_latest pb \<and> pb_version pb' = pb_version pb"
  by (auto simp: publisher_control_def publisher_close_def store_handle_def wait_complete_def
      split: if_splits publisher_phase.splits)

definition publisher_goes_on :: "publisher \<Rightarrow> publisher \<Rightarrow> bool" where
  "publisher_goes_on pb pb' \<longleftrightarrow> view_follows (publisher_view pb 0) (publisher_view pb' 0)"

lemma publisher_goes_onI:
  "pb_latest pb' = pb_latest pb \<Longrightarrow> pb_version pb' = pb_version pb \<Longrightarrow> publisher_goes_on pb pb'"
  by (simp add: publisher_goes_on_def view_follows_def publisher_view_def latest_summary_def)

lemma pipeline_move_view:
  assumes "pipeline_move S net av n p p'"
  shows "publisher_goes_on (pl_publisher p) (pl_publisher p')"
  using assms
proof (induction rule: pipeline_move.induct)
  case (sent p src t st s pb st')
  then show ?case by (auto simp: source_send_def intro!: publisher_goes_onI split: if_splits)
next
  case (merge p ev pb)
  then have "run_task (publisher_step av n) (pl_publisher p) [ev] = Some pb" by simp
  from publisher_views_follow [OF this] show ?case by (simp add: publisher_goes_on_def)
next
  case (control p pb)
  then show ?case using publisher_control_view by (simp add: publisher_goes_onI)
qed (simp_all add: publisher_goes_onI)

abbreviation feed_at :: "system \<Rightarrow> nat \<Rightarrow> feed" where
  "feed_at y fid \<equiv> mg_heap (sys_manager y) ! fid"

abbreviation client_at :: "system \<Rightarrow> nat \<Rightarrow> client_task" where
  "client_at y k \<equiv> mg_clients (sys_manager y) ! k"

lemma system_step_feed:
  assumes "system_step ul S net av n ord im y y'" "fid < length (mg_heap (sys_manager y))"
  shows "view_follows (feed_view_of (feed_at y fid)) (feed_view_of (feed_at y' fid))"
proof -
  have "publisher_goes_on (fd_publisher (feed_at y fid)) (fd_publisher (feed_at y' fid))"
    using assms
  proof (induction rule: system_step.induct)
    case (request symbol y r y')
    obtain r' m' where req: "open_summary_stream n (service_sources ul n ord) im symbol (sys_manager y) = (r', m')"
      by fastforce
    then have "sys_manager y' = m'" using request(1) by (auto simp: system_request_def)
    then have "feed_at y' fid = feed_at y fid"
      using open_summary_stream_heap [OF req] request(2) by simp
    then show ?case by (simp add: publisher_goes_onI)
  next
    case (manage y m')
    then show ?case using publisher_control_view
      by (auto simp: feeds_managed_def intro!: publisher_goes_onI)
  next
    case (pipe g y p)
    then show ?case using pipeline_move_view [OF pipe(2)]
      by (cases "fid = g") (auto simp: set_pipeline_def update_feed_nth pipeline_of_def publisher_goes_onI)
  qed
  then show ?thesis
    by (simp add: publisher_goes_on_def view_follows_def publisher_view_def feed_view_of_def)
qed

subsection \<open>A client follows its feed\<close>

lemma system_step_clients:
  assumes "system_step ul S net av n ord im y y'"
  shows "clients_go_on (sys_manager y) (sys_manager y')"
  using assms
proof (induction rule: system_step.induct)
  case (request symbol y r y')
  obtain r' m' where req: "open_summary_stream n (service_sources ul n ord) im symbol (sys_manager y) = (r', m')"
    by fastforce
  then have "sys_manager y' = m'" using request by (auto simp: system_request_def)
  then show ?case using manager_step_clients [OF manager_step_intros(1) [OF req]] by simp
next
  case (manage y m')
  show ?case using manager_step_clients [OF manage_step [OF manage(1)]] by simp
next
  case (pipe g y p)
  show ?case by (simp add: set_pipeline_def)
qed

text \<open>One step of the service, as the task of a client sees it.\<close>

lemma system_step_client:
  assumes "system_step ul S net av n ord im y y'" "k < length (mg_clients (sys_manager y))"
  shows "k < length (mg_clients (sys_manager y')) \<and> ct_feed (client_at y' k) = ct_feed (client_at y k) \<and>
    (ct_subscriber (client_at y' k) = ct_subscriber (client_at y k) \<or>
     (\<exists>ev. publish_step (feed_view_of (feed_at y (ct_feed (client_at y k))))
        (ct_subscriber (client_at y k)) ev = Some (ct_subscriber (client_at y' k))))"
  using system_step_clients [OF assms(1)] assms(2) unfolding clients_go_on_def by (meson less_le_trans)

text \<open>What holds of a task and the view it has is kept by the service if it is kept by the task's own
  steps and by the view going on.\<close>

lemma system_step_task:
  assumes "system_step ul S net av n ord im y y'" "system_ok ul S net av n ord im y" "symbols_match im"
    and "k < length (mg_clients (sys_manager y))"
    and "P (feed_view_of (feed_at y (ct_feed (client_at y k)))) (ct_subscriber (client_at y k))"
    and "\<And>v sb ev sb'. P v sb \<Longrightarrow> publish_step v sb ev = Some sb' \<Longrightarrow> P v sb'"
    and "\<And>v v' sb. P v sb \<Longrightarrow> view_follows v v' \<Longrightarrow> P v' sb"
  shows "P (feed_view_of (feed_at y' (ct_feed (client_at y' k)))) (ct_subscriber (client_at y' k))"
proof -
  let ?fid = "ct_feed (client_at y k)"
  note client = system_step_client [OF assms(1,4)]
  have "?fid < length (mg_heap (sys_manager y))"
    using client_feed_known [OF assms(2,3) nth_mem [OF assms(4)]] .
  note view = system_step_feed [OF assms(1) this]
  have "P (feed_view_of (feed_at y ?fid)) (ct_subscriber (client_at y' k))"
    using client assms(5,6) by metis
  with assms(7) [OF _ view] client show ?thesis by simp
qed

text \<open>A task is never ahead of the watch channel of its feed.\<close>

definition client_behind :: "feed_view \<Rightarrow> subscriber \<Rightarrow> bool" where
  "client_behind v sb \<longleftrightarrow> sb_seen sb \<le> vw_version v"

lemma publish_step_behind:
  "client_behind v sb \<Longrightarrow> publish_step v sb ev = Some sb' \<Longrightarrow> client_behind v sb'"
  unfolding publish_step_def client_behind_def
  by (cases "sb_phase sb"; cases ev)
    (auto dest!: send_summary_cases split: if_splits sum.splits option.splits summary_error.splits)

lemma view_follows_behind: "client_behind v sb \<Longrightarrow> view_follows v v' \<Longrightarrow> client_behind v' sb"
  by (simp add: client_behind_def view_follows_def)

lemma system_reach_behind:
  assumes "system_reach ul S net av n ord im y" "\<And>i. iteration_order (ord i)" "symbols_match im"
    and "k < length (mg_clients (sys_manager y))"
  shows "client_behind (feed_view_of (feed_at y (ct_feed (client_at y k)))) (ct_subscriber (client_at y k))"
  using assms(1,4) unfolding system_reach_def
proof (induction arbitrary: k rule: rtranclp_induct)
  case base
  then show ?case by (simp add: system_new_def manager_new_def)
next
  case (step y y')
  have ok: "system_ok ul S net av n ord im y"
    using system_reach_ok [OF _ assms(2)] step(1) by (auto simp: system_reach_def)
  show ?case
  proof (cases "k < length (mg_clients (sys_manager y))")
    case True
    show ?thesis
      by (rule system_step_task [where P = client_behind, OF step(2) ok assms(3) True step.IH [OF True]])
        (auto intro: publish_step_behind view_follows_behind)
  next
    case False
    then have "ct_subscriber (client_at y' k) = subscriber_new"
      using system_step_clients [OF step(2)] step.prems by (simp add: clients_go_on_def)
    then show ?thesis by (simp add: client_behind_def subscriber_new_def)
  qed
qed

lemma system_steps_follow:
  assumes "(system_step ul S net av n ord im)\<^sup>*\<^sup>* y y'" "system_ok ul S net av n ord im y"
    and "\<And>i. iteration_order (ord i)" "symbols_match im" "k < length (mg_clients (sys_manager y))"
    and "task_follows (feed_view_of (feed_at y (ct_feed (client_at y k)))) (ct_subscriber (client_at y k))"
  shows "system_ok ul S net av n ord im y' \<and> k < length (mg_clients (sys_manager y')) \<and>
    task_follows (feed_view_of (feed_at y' (ct_feed (client_at y' k)))) (ct_subscriber (client_at y' k))"
  using assms(1)
proof (induction rule: rtranclp_induct)
  case (step y1 y2)
  have "task_follows (feed_view_of (feed_at y2 (ct_feed (client_at y2 k)))) (ct_subscriber (client_at y2 k))"
    by (rule system_step_task [where P = task_follows, OF step(2) _ assms(4)])
      (use step.IH in \<open>auto intro: task_follows_step task_follows_feed\<close>)
  then show ?case
    using step.IH system_step_ok [OF step(2) assms(3)] system_step_client [OF step(2)] by blast
qed (use assms in simp)

text \<open>The task of a client that has nothing to do.\<close>

definition client_idle :: "nat \<Rightarrow> manager \<Rightarrow> bool" where
  "client_idle k m \<longleftrightarrow> client_step k SbNext m = None \<and> client_step k SbChanged m = None \<and>
     client_step k (SbSend (SendCompleted (Inr ()))) m = None"

lemma client_step_None:
  "client_step k ev m = None \<longleftrightarrow>
    publish_step (feed_view_of (mg_heap m ! ct_feed (mg_clients m ! k))) (ct_subscriber (mg_clients m ! k)) ev = None"
  by (simp add: client_step_def Let_def split: option.split)

lemma idle_waits:
  assumes "publish_step v sb SbNext = None" "publish_step v sb SbChanged = None"
    and "publish_step v sb (SbSend (SendCompleted (Inr ()))) = None"
    and "task_follows v sb" "sb_phase sb \<noteq> SbDone"
  shows "sb_phase sb = SbWaiting" "sb_seen sb = vw_version v"
proof -
  show wait: "sb_phase sb = SbWaiting"
    using assms by (cases "sb_phase sb") (simp_all add: publish_step_def send_summary_def task_follows_def)
  show "sb_seen sb = vw_version v"
    using assms(2) wait by (simp add: publish_step_def split: if_splits)
qed

subsection \<open>Properties\<close>

text \<open>C3: from a moment on in which the task of a client has noticed a change of its feed, however the
  service goes on: whenever nothing is left to do for the tasks of the feed and for that client, the
  last summary sent to it is the merge of the latest snapshots that the live exchanges delivered.\<close>

theorem service_delivers_latest:
  assumes "system_reach ul S net av n ord im y" "\<And>i. iteration_order (ord i)" "symbols_match im"
    and "k < length (mg_clients (sys_manager y))" "sb_phase (ct_subscriber (client_at y k)) = SbChecking"
    and "(system_step ul S net av n ord im)\<^sup>*\<^sup>* y y'" "fid = ct_feed (client_at y' k)"
    and "\<forall>p. \<not> pipeline_internal av n (pipeline_of y' fid) p"
    and "client_idle k (sys_manager y')" "sb_phase (ct_subscriber (client_at y' k)) \<noteq> SbDone"
    and "pb_phase (fd_publisher (feed_at y' fid)) = Running c"
    and "(sys_sources y' ! fid) src = Some (t, Some st)" "st_phase st \<noteq> StEnded"
    and "latest (ft_feed t) = Some (Inr s)"
  shows "slot c src = s \<and> (\<exists>sm. to_proto av n c = Inr sm \<and>
    sb_sent (ct_subscriber (client_at y' k)) \<noteq> [] \<and> last (sb_sent (ct_subscriber (client_at y' k))) = sm)"
proof -
  let ?sb = "ct_subscriber (client_at y' k)"
  let ?v = "feed_view_of (feed_at y' fid)"
  note ok = system_reach_ok [OF assms(1,2)]
  have "task_follows (feed_view_of (feed_at y (ct_feed (client_at y k)))) (ct_subscriber (client_at y k))"
    using system_reach_behind [OF assms(1-4)] assms(5) by (simp add: task_follows_def client_behind_def)
  from system_steps_follow [OF assms(6) ok assms(2-4) this]
  have ok': "system_ok ul S net av n ord im y'" "k < length (mg_clients (sys_manager y'))"
    and follows: "task_follows ?v ?sb" by (simp_all add: assms(7))
  have "fid < length (mg_heap (sys_manager y'))"
    using client_feed_known [OF ok'(1) assms(3) nth_mem [OF ok'(2)]] by (simp add: assms(7))
  then have "feed_pipeline_reach ul S net av n y' fid" using ok'(1) by (simp add: system_ok_def)
  then have "pipeline_reach ul S net av n (fd_instrument (feed_at y' fid)) (pipeline_of y' fid)"
    by (simp add: feed_pipeline_reach_def)
  from settled_book [OF this assms(8) _ _ assms(13,14), of c src] assms(11,12)
  obtain sm where sm: "slot c src = s" "vw_latest ?v = Inr (Some sm)" "to_proto av n c = Inr sm"
    by (auto simp: pipeline_of_def feed_view_of_def)
  have "sb_phase ?sb = SbWaiting" "sb_seen ?sb = vw_version ?v"
    using idle_waits [OF _ _ _ follows assms(10)] assms(9) by (simp_all add: client_idle_def client_step_None assms(7))
  with follows sm show ?thesis by (simp add: task_follows_def)
qed

theorem service_delivers_latest_witness:
  "\<exists>y sm. example_reach y \<and> to_proto list_push 3 (book_of 3 [example_binance_snapshot]) = Inr sm \<and>
    sb_sent (ct_subscriber (client_at y 0)) = [sm] \<and>
    slot (book_of 3 [example_binance_snapshot]) Binance = example_binance_snapshot"
proof -
  obtain p sm where p: "example_reach (example_system p 1 (example_client_task SbChecking 1 []))"
    "pl_sources p = [Binance \<mapsto> (example_streaming, Some \<lparr>st_seen = 1, st_phase = StWaiting\<rparr>)]"
    "pb_queue (pl_publisher p) = []" "pb_version (pl_publisher p) = 1"
    "pb_phase (pl_publisher p) = Running (book_of 3 [example_binance_snapshot])"
    "latest_summary (pl_publisher p) = Inr (Some sm)"
    using example_checking by blast
  let ?y = "example_system p 1 (example_client_task SbChecking 1 [])"
  let ?y' = "example_system p 1 (example_client_task SbWaiting 1 [sm])"
  note steps = example_delivers [OF p(6)]
  have "(system_step id example_json example_net list_push 3 example_order example_map)\<^sup>*\<^sup>* system_new ?y'"
    using p(1) steps by (simp add: system_reach_def)
  then have "example_reach ?y'" by (simp add: system_reach_def)
  moreover have "pipeline_of ?y' 0 = p" by (simp add: pipeline_of_def example_system_def new_feed_def)
  then have "\<forall>p'. \<not> pipeline_internal list_push 3 (pipeline_of ?y' 0) p'" using example_quiet [OF p(2,3)] by simp
  moreover have "client_idle 0 (sys_manager ?y')"
    using p(4) by (simp add: client_idle_def client_step_None publish_step_def example_system_def
        example_client_task_def feed_view_of_def new_feed_def)
  moreover have "latest (ft_feed example_streaming) = Some (Inr example_binance_snapshot)"
    by (simp add: example_streaming_def)
  ultimately show ?thesis
    using service_delivers_latest [OF p(1) example_order example_map_ok _ _ steps, of 0 0
        "book_of 3 [example_binance_snapshot]" Binance] p(2,5)
    by (fastforce simp: example_system_def example_client_task_def new_feed_def)
qed

end
