(* ===== verification/Shutdown_Signals.thy ===== *)
theory Shutdown_Signals
  imports Agg_Prelude
begin

section \<open>Shutdown signals (aggcommon/src/shutdown.rs)\<close>

text \<open>
  A shutdown signal is a message on a broadcast channel with room for one. A receiver sees what is
  sent after it subscribed; one that falls behind by more than the capacity is told so and skips to
  the oldest message that is left. The senders of these channels live as long as their receivers, so
  a channel is never seen closed. The interface is the locale \<open>shutdown_signal\<close>, in which the
  facts about early and late receivers are proved once.
\<close>

locale shutdown_signal =
  fixes send :: "'ch \<Rightarrow> 'ch" and subscribe :: "'ch \<Rightarrow> 'rx"
    and recv :: "'ch \<Rightarrow> 'rx \<Rightarrow> ('msg \<times> 'rx) option"
  assumes fresh: "recv ch (subscribe ch) = None"
    and heard: "recv (send ch) (subscribe ch) \<noteq> None"
    and kept: "recv ch rx \<noteq> None \<Longrightarrow> recv (send ch) rx \<noteq> None"
begin

lemma kept_all: "recv ch rx \<noteq> None \<Longrightarrow> recv ((send ^^ k) ch) rx \<noteq> None"
  by (induction k) (use kept in auto)

text \<open>A receiver has something to receive iff something was sent since it subscribed.\<close>

lemma pending_iff: "recv ((send ^^ k) ch) (subscribe ch) \<noteq> None \<longleftrightarrow> 0 < k"
proof (cases k)
  case (Suc j)
  then have "(send ^^ k) ch = (send ^^ j) (send ch)" by (simp add: funpow_swap1)
  then show ?thesis using Suc kept_all [OF heard] by auto
qed (use fresh in simp)

end

subsection \<open>The channel\<close>

record broadcast =
  bc_capacity :: nat
  bc_sent :: nat

datatype recv_result = RecvOk | RecvLagged nat

definition broadcast_channel :: "nat \<Rightarrow> broadcast" where
  "broadcast_channel capacity = \<lparr>bc_capacity = capacity, bc_sent = 0\<rparr>"

definition broadcast_send :: "broadcast \<Rightarrow> broadcast" where
  "broadcast_send ch = ch\<lparr>bc_sent := bc_sent ch + 1\<rparr>"

definition broadcast_subscribe :: "broadcast \<Rightarrow> nat" where
  "broadcast_subscribe ch = bc_sent ch"

text \<open>\<open>recv\<close>: nothing yet, the next message, or the number of messages that were missed.\<close>

definition broadcast_recv :: "broadcast \<Rightarrow> nat \<Rightarrow> (recv_result \<times> nat) option" where
  "broadcast_recv ch rx =
     (if bc_sent ch \<le> rx then None
      else if bc_sent ch - rx \<le> bc_capacity ch then Some (RecvOk, rx + 1)
      else Some (RecvLagged (bc_sent ch - rx - bc_capacity ch), bc_sent ch - bc_capacity ch))"

interpretation signal: shutdown_signal broadcast_send broadcast_subscribe broadcast_recv
  by unfold_locales
    (auto simp: broadcast_send_def broadcast_subscribe_def broadcast_recv_def split: if_splits)

definition shutdown_channel :: "broadcast \<times> nat" where
  "shutdown_channel =
     (let tx = broadcast_channel 1; rx = broadcast_subscribe tx in (tx, rx))"

subsection \<open>The ctrl-c handler\<close>

text \<open>
  The spawned handler waits for \<open>tokio::signal::ctrl_c\<close> and sends in either case: on the interrupt
  and when listening for it fails. It then ends, so a second interrupt does nothing.
\<close>

datatype ctrl_c_handler = Listening | HandlerDone

definition ctrl_c_shutdown_signal :: "broadcast \<times> ctrl_c_handler" where
  "ctrl_c_shutdown_signal = (broadcast_channel 1, Listening)"

fun ctrl_c_step :: "string + unit \<Rightarrow> broadcast \<times> ctrl_c_handler \<Rightarrow> (broadcast \<times> ctrl_c_handler) option" where
  "ctrl_c_step ctrl_c (ch, Listening) = Some (broadcast_send ch, HandlerDone)"
| "ctrl_c_step ctrl_c (ch, HandlerDone) = None"

fun_cases ctrl_c_stepE: "ctrl_c_step ctrl_c (ch, h) = Some sig"

end
