(* ===== verification/Socket_Addrs.thy ===== *)
theory Socket_Addrs
  imports Decimal_Text
begin

section \<open>Parsing a socket address (\<open>core::net\<close>)\<close>

text \<open>
  \<open>str::parse::<SocketAddr>\<close> of the standard library: an IPv4 address in four decimal groups without
  leading zeros, or an IPv6 address in brackets with an optional scope, followed by a colon and a
  port. A parser takes a prefix of the text or fails; \<open>parse_socket_addr\<close> must use the text up.
\<close>

type_synonym 'a parser = "string \<Rightarrow> ('a \<times> string) option"

datatype socket_addr =
    V4 "nat list" nat
  | V6 "nat list" nat nat    \<comment> \<open>groups, scope and port\<close>

definition digit_of :: "nat \<Rightarrow> char \<Rightarrow> nat option" where
  "digit_of radix c =
     (let n = (of_char c :: nat);
          d = (if 48 \<le> n \<and> n \<le> 57 then n - 48
               else if 97 \<le> n \<and> n \<le> 122 then n - 87
               else if 65 \<le> n \<and> n \<le> 90 then n - 55
               else 36)
      in if d < radix then Some d else None)"

definition number_val :: "nat \<Rightarrow> string \<Rightarrow> nat" where
  "number_val radix ds = foldl (\<lambda>n c. radix * n + the (digit_of radix c)) 0 ds"

text \<open>\<open>read_number\<close>: a number below \<open>limit\<close>, of at most \<open>max_digits\<close> digits when that is given.\<close>

definition read_number :: "nat \<Rightarrow> nat option \<Rightarrow> bool \<Rightarrow> nat \<Rightarrow> nat parser" where
  "read_number radix max_digits allow_zero_prefix limit s =
     (let ds = takeWhile (\<lambda>c. digit_of radix c \<noteq> None) s;
          n = number_val radix ds
      in if ds = [] \<or> (case max_digits of None \<Rightarrow> False | Some k \<Rightarrow> k < length ds) \<or>
            (\<not> allow_zero_prefix \<and> hd ds = CHR ''0'' \<and> 1 < length ds) \<or> limit \<le> n
         then None
         else Some (n, dropWhile (\<lambda>c. digit_of radix c \<noteq> None) s))"

definition read_char :: "char \<Rightarrow> unit parser" where
  "read_char c s = (case s of [] \<Rightarrow> None | x # r \<Rightarrow> if x = c then Some ((), r) else None)"

definition and_then :: "'a parser \<Rightarrow> ('a \<Rightarrow> 'b parser) \<Rightarrow> 'b parser" where
  "and_then p f s = Option.bind (p s) (\<lambda>(a, r). f a r)"

definition read_separator :: "char \<Rightarrow> nat \<Rightarrow> 'a parser \<Rightarrow> 'a parser" where
  "read_separator sep i p = (if 0 < i then and_then (read_char sep) (\<lambda>_. p) else p)"

definition read_octet :: "nat \<Rightarrow> nat parser" where
  "read_octet i = read_separator CHR ''.'' i (read_number 10 (Some 3) False 256)"

definition read_ipv4 :: "nat list parser" where
  "read_ipv4 =
     and_then (read_octet 0) (\<lambda>a. and_then (read_octet 1) (\<lambda>b.
     and_then (read_octet 2) (\<lambda>c. and_then (read_octet 3) (\<lambda>d. \<lambda>s. Some ([a, b, c, d], s)))))"

text \<open>Groups \<open>i\<close> to \<open>i + k - 1\<close> of an IPv6 address; the flag tells of a trailing IPv4 address.\<close>

fun read_groups :: "nat \<Rightarrow> nat \<Rightarrow> nat list \<Rightarrow> string \<Rightarrow> nat list \<times> bool \<times> string" where
  "read_groups 0 i acc s = (acc, False, s)"
| "read_groups (Suc k) i acc s =
     (case (if 0 < k then read_separator CHR '':'' i read_ipv4 s else None) of
        Some (os, r) \<Rightarrow>
          (acc @ [os ! 0 * 256 + os ! 1, os ! 2 * 256 + os ! 3], True, r)
      | None \<Rightarrow>
          (case read_separator CHR '':'' i (read_number 16 (Some 4) True 65536) s of
             Some (g, r) \<Rightarrow> read_groups k (Suc i) (acc @ [g]) r
           | None \<Rightarrow> (acc, False, s)))"

definition read_ipv6 :: "nat list parser" where
  "read_ipv6 s =
     (let (head, head_ipv4, r) = read_groups 8 0 [] s
      in if length head = 8 then Some (head, r)
         else if head_ipv4 then None
         else and_then (read_char CHR '':'') (\<lambda>_. and_then (read_char CHR '':'') (\<lambda>_. \<lambda>r.
           let (tail, _, r') = read_groups (8 - (length head + 1)) 0 [] r
           in Some (head @ replicate (8 - length head - length tail) 0 @ tail, r'))) r)"

definition read_port :: "nat parser" where
  "read_port = and_then (read_char CHR '':'') (\<lambda>_. read_number 10 None True 65536)"

definition read_scope :: "nat parser" where
  "read_scope s =
     (case and_then (read_char CHR ''%'') (\<lambda>_. read_number 10 None True (2 ^ 32)) s of
        None \<Rightarrow> Some (0, s) | Some r \<Rightarrow> Some r)"

definition read_v4 :: "socket_addr parser" where
  "read_v4 = and_then read_ipv4 (\<lambda>ip. and_then read_port (\<lambda>port. \<lambda>s. Some (V4 ip port, s)))"

definition read_v6 :: "socket_addr parser" where
  "read_v6 = and_then (read_char CHR ''['') (\<lambda>_. and_then read_ipv6 (\<lambda>ip.
     and_then read_scope (\<lambda>scope. and_then (read_char CHR '']'') (\<lambda>_.
     and_then read_port (\<lambda>port. \<lambda>s. Some (V6 ip scope port, s))))))"

definition parse_socket_addr :: "string \<Rightarrow> socket_addr option" where
  "parse_socket_addr s =
     (case (case read_v4 s of Some r \<Rightarrow> Some r | None \<Rightarrow> read_v6 s) of
        Some (a, []) \<Rightarrow> Some a
      | _ \<Rightarrow> None)"

subsection \<open>Laws\<close>

lemma digit_of_char [simp]: "d < 10 \<Longrightarrow> digit_of 10 (digit_char d) = Some d"
  by (simp add: digit_of_def)

lemma digit_of_is_digit: "(\<lambda>c. digit_of 10 c \<noteq> None) = is_digit"
  by (auto simp: digit_of_def is_digit_def Let_def fun_eq_iff)

lemma number_val_digits: "list_all is_digit ds \<Longrightarrow> number_val 10 ds = digits_val ds"
proof (induction ds rule: rev_induct)
  case (snoc c ds)
  then have "the (digit_of 10 c) = of_char c - 48"
    by (auto simp: is_digit_def digit_of_def Let_def)
  then show ?case using snoc by (simp add: number_val_def digits_val_def)
qed (simp add: number_val_def digits_val_def)

definition starts_plain :: "string \<Rightarrow> bool" where
  "starts_plain r \<longleftrightarrow> (r = [] \<or> \<not> is_digit (hd r))"

lemma takeWhile_digits:
  assumes "list_all is_digit ds" "starts_plain r"
  shows "takeWhile is_digit (ds @ r) = ds" "dropWhile is_digit (ds @ r) = r"
  using assms by (induction ds) (cases r; simp add: starts_plain_def)+

lemma show_nat_length: "n < 10 ^ k \<Longrightarrow> 0 < k \<Longrightarrow> length (show_nat n) \<le> k"
proof (induction k arbitrary: n)
  case (Suc k)
  show ?case
  proof (cases "n < 10")
    case True
    then show ?thesis by (subst show_nat.simps) simp
  next
    case False
    then have "0 < k" using Suc.prems(1) by (cases k) simp_all
    moreover have "n div 10 < 10 ^ k" using Suc.prems(1) by (simp add: less_mult_imp_div_less)
    ultimately show ?thesis using Suc.IH [of "n div 10"] False by (subst show_nat.simps) simp
  qed
qed simp

lemma show_nat_hd_digits: "1 < length (show_nat n) \<Longrightarrow> hd (show_nat n) \<noteq> CHR ''0''"
  using show_nat_hd [of n] by (subst (asm) show_nat.simps) (auto split: if_splits)

text \<open>A printed number is read back, whatever follows it that is no digit.\<close>

lemma read_number_show:
  assumes "n < limit" "starts_plain r" "case max_digits of None \<Rightarrow> True | Some k \<Rightarrow> length (show_nat n) \<le> k"
  shows "read_number 10 max_digits zeros limit (show_nat n @ r) = Some (n, r)"
proof -
  have "show_nat n \<noteq> []" by (subst show_nat.simps) simp
  moreover have "\<not> (hd (show_nat n) = CHR ''0'' \<and> 1 < length (show_nat n))"
    using show_nat_hd_digits [of n] by blast
  ultimately show ?thesis
    unfolding read_number_def digit_of_is_digit takeWhile_digits [OF show_nat_digits assms(2)]
      number_val_digits [OF show_nat_digits] Let_def
    using assms by (auto split: option.splits)
qed

lemma read_char_simps [simp]:
  "read_char c (c # r) = Some ((), r)"
  "read_char c [] = None"
  by (simp_all add: read_char_def)

lemma starts_plain_simps [simp]: "starts_plain []" "starts_plain (CHR ''.'' # r)" "starts_plain (CHR '':'' # r)"
  by (simp_all add: starts_plain_def is_digit_def)

definition show_ipv4 :: "nat \<Rightarrow> nat \<Rightarrow> nat \<Rightarrow> nat \<Rightarrow> string" where
  "show_ipv4 a b c d =
     show_nat a @ ''.'' @ show_nat b @ ''.'' @ show_nat c @ ''.'' @ show_nat d"

lemma read_octet_show:
  assumes "n < 256" "starts_plain r"
  shows "read_octet 0 (show_nat n @ r) = Some (n, r)"
    "0 < i \<Longrightarrow> read_octet i (CHR ''.'' # show_nat n @ r) = Some (n, r)"
  using assms show_nat_length [of n 3]
  by (simp_all add: read_octet_def read_separator_def and_then_def read_number_show)

lemma parse_show_ipv4:
  assumes "a < 256" "b < 256" "c < 256" "d < 256" "port < 65536"
  shows "parse_socket_addr (show_ipv4 a b c d @ '':'' @ show_nat port) = Some (V4 [a, b, c, d] port)"
proof -
  have "read_ipv4 (show_ipv4 a b c d @ CHR '':'' # show_nat port) =
      Some ([a, b, c, d], CHR '':'' # show_nat port)"
    using assms by (simp add: show_ipv4_def read_ipv4_def and_then_def read_octet_show)
  moreover have "read_port (CHR '':'' # show_nat port) = Some (port, [])"
    using read_number_show [of port 65536 "[]" None True] assms(5)
    by (simp add: read_port_def and_then_def)
  ultimately show ?thesis
    by (simp add: parse_socket_addr_def read_v4_def and_then_def)
qed

end
