(* ===== verification/Server_Config.thy ===== *)
theory Server_Config
  imports Entry_Points Socket_Addrs Manager_Properties Source_Start
begin

section \<open>Configuration and start up of the server (aggserver/src/config.rs, aggserver/src/main.rs)\<close>

text \<open>
  The command line as clap returns it, the address it stands for, the instruments the server knows
  and what \<open>run\<close> does with the outcome of the gRPC server.
\<close>

record cli =
  cli_port :: "16 word"
  cli_listen_interface :: "string option"

record network_config =
  bind_addr :: socket_addr

record app_config =
  network :: network_config

datatype app_config_error = InvalidBindAddr string

fun app_config_error_fmt :: "app_config_error \<Rightarrow> string" where
  "app_config_error_fmt (InvalidBindAddr s) = ''Invalid bind address: '' @ s"

definition addr_text :: "cli \<Rightarrow> string" where
  "addr_text c = (case cli_listen_interface c of None \<Rightarrow> ''127.0.0.1'' | Some i \<Rightarrow> i) @ '':'' @
     show_nat (unat (cli_port c))"

definition app_config_try_from :: "cli \<Rightarrow> app_config_error + app_config" where
  "app_config_try_from c =
     (let addr_str = addr_text c
      in case parse_socket_addr addr_str of
           None \<Rightarrow> Inl (InvalidBindAddr addr_str)
         | Some addr \<Rightarrow> Inr \<lparr>network = \<lparr>bind_addr = addr\<rparr>\<rparr>)"

subsection \<open>Start up\<close>

definition SYMBOL_ETH_BTC :: string where
  "SYMBOL_ETH_BTC = ''ETH-BTC''"

definition build_instrument_map :: instrument_map where
  "build_instrument_map =
     (let source_symbols = [\<lparr>ss_source = Bitstamp, ss_symbol = ''ethbtc''\<rparr>,
                            \<lparr>ss_source = Binance, ss_symbol = ''ETHBTC''\<rparr>];
          instrument = instrument_new ''ETH-BTC'' source_symbols
      in instrument_map_new [instrument])"

definition SERVER_DEPTH :: nat where
  "SERVER_DEPTH = 10"

text \<open>The state of the server \<open>run\<close> starts with, and its handlers: the default stream and the stream
  of a symbol. \<open>ord\<close> is the iteration order of the instrument's hash map.\<close>

definition server_sources ::
  "(string \<Rightarrow> string) \<Rightarrow> source_id list \<Rightarrow> instrument \<Rightarrow> panic + (string + source_handle list)" where
  "server_sources ul ord = start_summary_sources ord (new_factory_map ul SERVER_DEPTH)"

definition server_service :: "manager \<Rightarrow> aggregator_service" where
  "server_service m = create_server m SYMBOL_ETH_BTC"

lemma server_service_sel [simp]:
  "as_manager (server_service m) = m" "as_default_symbol (server_service m) = SYMBOL_ETH_BTC"
  by (simp_all add: server_service_def)

definition server_book_summary ::
  "(string \<Rightarrow> string) \<Rightarrow> source_id list \<Rightarrow> manager \<Rightarrow> (panic + (grpc_code \<times> string + nat)) \<times> manager" where
  "server_book_summary ul ord m =
     book_summary SERVER_DEPTH (server_sources ul ord) build_instrument_map
       (as_default_symbol (server_service m)) (as_manager (server_service m))"

text \<open>\<open>run\<close> after the gRPC server: whether it sends the shutdown signal, and its result.\<close>

fun run_result :: "string + unit \<Rightarrow> bool \<times> (string + unit)" where
  "run_result (Inl e) = (True, Inl e)"
| "run_result (Inr u) = (False, Inr ())"

text \<open>\<open>main\<close>: \<open>install\<close> is the outcome of installing the crypto provider, \<open>run\<close> the result of \<open>run\<close> for a
  configuration.\<close>

definition server_main ::
  "clap_error + cli \<Rightarrow> unit + unit \<Rightarrow> (app_config \<Rightarrow> string + unit) \<Rightarrow> main_exit" where
  "server_main args install run =
     (case parsed_or_exit args of
        Inl ended \<Rightarrow> ended
      | Inr c \<Rightarrow>
          (case install of
             Inl _ \<Rightarrow> MainPanics UnwrapErr
           | Inr _ \<Rightarrow>
               (case app_config_try_from c of
                  Inl e \<Rightarrow> MainReturns (Inl (app_config_error_fmt e))
                | Inr config \<Rightarrow>
                    (case run config of
                       Inl e \<Rightarrow> MainReturns (Inl ''service failure'')
                     | Inr _ \<Rightarrow> MainReturns (Inr ())))))"

lemma default_request:
  assumes "\<not> mg_shutting_down m"
  shows "\<exists>fid m'. server_book_summary ul ord m = (okP fid, m') \<and> mg_feeds m' SYMBOL_ETH_BTC = Some fid \<and>
    mg_clients m' = mg_clients m @ [\<lparr>ct_feed = fid, ct_subscriber = subscriber_new\<rparr>]"
proof -
  obtain i where i: "instrument_map_get build_instrument_map SYMBOL_ETH_BTC = Some i"
    by (simp add: build_instrument_map_def instrument_map_new_get SYMBOL_ETH_BTC_def instrument_new_def Let_def)
  obtain srcs where "server_sources ul ord i = okP srcs"
    using shipped_factories_ok [of SERVER_DEPTH ord ul i] by (auto simp: server_sources_def SERVER_DEPTH_def start_summary_sources_ok)
  then show ?thesis
    using assms i
    by (cases "mg_feeds m SYMBOL_ETH_BTC")
      (simp_all add: server_book_summary_def book_summary_def open_summary_stream_def manager_open_def Let_def)
qed

definition default_instrument :: instrument where
  "default_instrument = instrument_new ''ETH-BTC''
     [\<lparr>ss_source = Bitstamp, ss_symbol = ''ethbtc''\<rparr>, \<lparr>ss_source = Binance, ss_symbol = ''ETHBTC''\<rparr>]"

lemma default_lookup: "instrument_map_get build_instrument_map SYMBOL_ETH_BTC = Some default_instrument"
  by (simp add: build_instrument_map_def instrument_map_new_get SYMBOL_ETH_BTC_def default_instrument_def Let_def)
    (simp add: instrument_new_def)

text \<open>Each of the exchanges gets a source, in the order of the hash map.\<close>

lemma default_sources:
  assumes "iteration_order ord"
  shows "\<exists>hs. server_sources ul ord default_instrument = okP hs \<and> length hs = NUM_SOURCES"
proof -
  have "\<And>s. in_source_mapping default_instrument s \<noteq> None"
    by (case_tac s) (auto simp: default_instrument_def instrument_new_def)
  then have fst: "map fst (source_mapping_iter ord default_instrument) = ord"
    by (induction ord) (auto simp: source_mapping_iter_def List.map_filter_simps split: option.splits)
  have "length ord = NUM_SOURCES"
    using assms distinct_card [of ord] by (simp add: iteration_order_def UNIV_source_id NUM_SOURCES_def)
  then have "length (source_mapping_iter ord default_instrument) = NUM_SOURCES"
    using arg_cong [OF fst, of length] by simp
  then show ?thesis
    using shipped_factories_ok [of SERVER_DEPTH ord ul default_instrument]
    by (auto simp: server_sources_def start_summary_sources_ok SERVER_DEPTH_def)
qed

subsection \<open>Properties\<close>

text \<open>C33: the configuration of any port, without an interface or with a printed IPv4 address, is that
  address and port; and when the address does not parse \<open>main\<close> fails with the text that does not,
  before the server is run.\<close>

theorem config_roundtrip:
  assumes "a < 256" "b < 256" "c < 256" "d < 256"
  shows "app_config_try_from \<lparr>cli_port = p, cli_listen_interface = None\<rparr> =
      Inr \<lparr>network = \<lparr>bind_addr = V4 [127, 0, 0, 1] (unat p)\<rparr>\<rparr> \<and>
    app_config_try_from \<lparr>cli_port = p, cli_listen_interface = Some (show_ipv4 a b c d)\<rparr> =
      Inr \<lparr>network = \<lparr>bind_addr = V4 [a, b, c, d] (unat p)\<rparr>\<rparr> \<and>
    (parse_socket_addr (addr_text cl) = None \<longrightarrow>
      server_main (Inr cl) (Inr ()) run = MainReturns (Inl (''Invalid bind address: '' @ addr_text cl)))"
proof -
  have local: "show_ipv4 127 0 0 1 = ''127.0.0.1''"
    by code_simp
  have p: "unat p < 65536" using unsigned_less [of p, where ?'a = nat] by simp
  show ?thesis
    using parse_show_ipv4 [OF assms p] parse_show_ipv4 [of 127 0 0 1 "unat p"] p local
    by (simp add: app_config_try_from_def server_main_def parsed_or_exit_def) (simp add: addr_text_def)
qed

theorem config_roundtrip_witness:
  "app_config_try_from \<lparr>cli_port = 8080, cli_listen_interface = Some (show_ipv4 0 0 0 0)\<rparr> =
     Inr \<lparr>network = \<lparr>bind_addr = V4 [0, 0, 0, 0] 8080\<rparr>\<rparr>"
  using config_roundtrip [of 0 0 0 0 8080] by simp

text \<open>The server can serve its default stream: in every state in which it is not shutting down, a
  request for the default book succeeds, whatever the iteration order of the hash map; if no feed
  is open for it yet, a new one gets a fresh publisher and a source task for each exchange.\<close>

theorem default_stream_opens:
  assumes "\<not> mg_shutting_down m" "iteration_order ord"
  shows "\<exists>fid m'. server_book_summary ul ord m = (okP fid, m') \<and> mg_feeds m' SYMBOL_ETH_BTC = Some fid \<and>
    mg_clients m' = mg_clients m @ [\<lparr>ct_feed = fid, ct_subscriber = subscriber_new\<rparr>] \<and>
    (mg_feeds m SYMBOL_ETH_BTC = None \<longrightarrow>
      fid = length (mg_heap m) \<and> length (mg_heap m') = Suc fid \<and>
      fd_publisher (mg_heap m' ! fid) = publisher_start SERVER_DEPTH \<and>
      fd_source_tasks (mg_heap m' ! fid) = NUM_SOURCES)"
proof -
  obtain fid m' where r: "server_book_summary ul ord m = (okP fid, m')" "mg_feeds m' SYMBOL_ETH_BTC = Some fid"
    "mg_clients m' = mg_clients m @ [\<lparr>ct_feed = fid, ct_subscriber = subscriber_new\<rparr>]"
    using default_request [OF assms(1), of ul ord] by blast
  moreover have "fid = length (mg_heap m) \<and>
      mg_heap m' = mg_heap m @ [new_feed default_instrument (publisher_start SERVER_DEPTH) NUM_SOURCES]"
    if "mg_feeds m SYMBOL_ETH_BTC = None"
  proof -
    obtain hs where "server_sources ul ord default_instrument = okP hs" "length hs = NUM_SOURCES"
      using default_sources [OF assms(2), of ul] by blast
    then show ?thesis
      using r(1) assms(1) that
      by (auto simp: server_book_summary_def book_summary_def open_summary_stream_def manager_open_def
          default_lookup Let_def)
  qed
  ultimately show ?thesis by (intro exI [of _ fid] exI [of _ m']) (auto simp: new_feed_def)
qed

theorem default_stream_opens_witness:
  "\<exists>fid m'. server_book_summary id [Bitstamp, Binance] manager_new = (okP fid, m') \<and>
    mg_feeds m' SYMBOL_ETH_BTC = Some fid \<and> fd_source_tasks (mg_heap m' ! fid) = NUM_SOURCES"
proof -
  have "iteration_order [Bitstamp, Binance]" "\<not> mg_shutting_down manager_new"
    by (auto simp: iteration_order_def UNIV_source_id manager_new_def)
  from default_stream_opens [OF this(2,1), of id] show ?thesis
    by (auto simp: manager_new_def)
qed

end
