(* ===== verification/Server_Lifecycle.thy ===== *)
theory Server_Lifecycle
  imports Shutdown_Signals Server_Config
begin

section \<open>The life of the server (aggserver/src/main.rs, aggserver/src/server.rs)\<close>

text \<open>
  The tasks of the whole process: \<open>run\<close>, the ctrl-c handler, the task \<open>Manager::new\<close> spawns, and the
  work of the manager's clients and feeds. Only the manager's task takes the two steps of its
  shutdown here, and requests arrive once \<open>run\<close> has begun to serve. When \<open>run\<close> has returned the other
  tasks go on, and hear the signal that a failing \<open>run\<close> sends, until \<open>main\<close> returns and drops the
  runtime with every task (\<open>sv_dropped\<close>); from then on nothing steps.
\<close>

datatype run_point =
    RunStarting            \<comment> \<open>the ctrl-c handler is spawned\<close>
  | RunManaged             \<comment> \<open>the manager is made\<close>
  | RunServing nat         \<comment> \<open>in \<open>run_grpc_server\<close> with this receiver\<close>
  | RunReturned "string + unit"

datatype manager_task = MtListening nat | MtFlagging | MtDraining | MtDone

record server =
  sv_signal :: "broadcast \<times> ctrl_c_handler"
  sv_run :: run_point
  sv_task :: "manager_task option"
  sv_manager :: manager
  sv_dropped :: bool

definition server_start :: server where
  "server_start =
     \<lparr>sv_signal = ctrl_c_shutdown_signal, sv_run = RunStarting, sv_task = None, sv_manager = manager_new,
      sv_dropped = False\<rparr>"

text \<open>
  \<open>run_grpc_server\<close>: tonic serves until it fails, which it may do at any time, or until the future
  \<open>shutdown.recv()\<close> has returned, whatever its result; \<open>r\<close> is what tonic reports. How long it
  takes open connections to end after that is up to tonic and the clients.
\<close>

definition run_grpc_server :: "broadcast \<Rightarrow> nat \<Rightarrow> string + unit \<Rightarrow> (string + unit) option" where
  "run_grpc_server ch rx r =
     (case r of
        Inl e \<Rightarrow> Some (Inl e)
      | Inr u \<Rightarrow> (case broadcast_recv ch rx of None \<Rightarrow> None | Some m \<Rightarrow> Some (Inr ())))"

text \<open>\<open>run\<close> from one wait, or one place where another task can run, to the next.\<close>

definition run_step :: "string + unit \<Rightarrow> server \<Rightarrow> server option" where
  "run_step r s =
     (let (ch, handler) = sv_signal s
      in case sv_run s of
           RunStarting \<Rightarrow>
             Some (s\<lparr>sv_run := RunManaged, sv_task := Some (MtListening (broadcast_subscribe ch)),
               sv_manager := manager_new\<rparr>)
         | RunManaged \<Rightarrow> Some (s\<lparr>sv_run := RunServing (broadcast_subscribe ch)\<rparr>)
         | RunServing rx \<Rightarrow>
             (case run_grpc_server ch rx r of
                None \<Rightarrow> None
              | Some result \<Rightarrow>
                  (let (sends, returned) = run_result result;
                       ch' = (if sends then broadcast_send ch else ch)
                   in Some (s\<lparr>sv_signal := (ch', handler), sv_run := RunReturned returned\<rparr>)))
         | RunReturned result \<Rightarrow> None)"

text \<open>The task of \<open>Manager::new\<close>: shut down if the first \<open>recv\<close> is \<open>Ok\<close>, and only then.\<close>

definition manager_task_step :: "string list \<Rightarrow> server \<Rightarrow> server option" where
  "manager_task_step order s =
     (case sv_task s of
        Some (MtListening rx) \<Rightarrow>
          (case broadcast_recv (fst (sv_signal s)) rx of
             None \<Rightarrow> None
           | Some (RecvOk, rx') \<Rightarrow> Some (s\<lparr>sv_task := Some MtFlagging\<rparr>)
           | Some (RecvLagged missed, rx') \<Rightarrow> Some (s\<lparr>sv_task := Some MtDone\<rparr>))
      | Some MtFlagging \<Rightarrow>
          Some (s\<lparr>sv_task := Some MtDraining, sv_manager := shutdown_flag (sv_manager s)\<rparr>)
      | Some MtDraining \<Rightarrow>
          Some (s\<lparr>sv_task := Some MtDone, sv_manager := shutdown_drain order (sv_manager s)\<rparr>)
      | _ \<Rightarrow> None)"

fun returned :: "run_point \<Rightarrow> bool" where
  "returned (RunReturned r) = True"
| "returned _ = False"

fun has_served :: "run_point \<Rightarrow> bool" where
  "has_served (RunServing rx) = True"
| "has_served (RunReturned r) = True"
| "has_served _ = False"

abbreviation server_work ::
  "(nat \<Rightarrow> nat \<Rightarrow> bool) \<Rightarrow> av_push \<Rightarrow> (string \<Rightarrow> string) \<Rightarrow> source_id list \<Rightarrow> manager \<Rightarrow> manager \<Rightarrow> bool" where
  "server_work ended av ul ord \<equiv>
     manager_work ended av SERVER_DEPTH (server_sources ul ord) build_instrument_map"

text \<open>\<open>server_life\<close> is what \<open>run\<close>, the handler, the manager's own task and the runtime do; \<open>work\<close> is
  what the tasks of the clients and feeds do.\<close>

inductive server_life :: "server \<Rightarrow> server \<Rightarrow> bool" where
  interrupt: "\<not> sv_dropped s \<Longrightarrow> ctrl_c_step c (sv_signal s) = Some sig \<Longrightarrow>
    server_life s (s\<lparr>sv_signal := sig\<rparr>)"
| run: "\<not> sv_dropped s \<Longrightarrow> run_step r s = Some s' \<Longrightarrow> server_life s s'"
| task: "\<not> sv_dropped s \<Longrightarrow> distinct order \<Longrightarrow> set order = dom (mg_feeds (sv_manager s)) \<Longrightarrow>
    manager_task_step order s = Some s' \<Longrightarrow> server_life s s'"
| drop: "\<not> sv_dropped s \<Longrightarrow> returned (sv_run s) \<Longrightarrow> server_life s (s\<lparr>sv_dropped := True\<rparr>)"

inductive server_step ::
  "av_push \<Rightarrow> (string \<Rightarrow> string) \<Rightarrow> source_id list \<Rightarrow> server \<Rightarrow> server \<Rightarrow> bool"
  for av :: av_push and ul :: "string \<Rightarrow> string" and ord :: "source_id list" where
  life: "server_life s s' \<Longrightarrow> server_step av ul ord s s'"
| work: "\<not> sv_dropped s \<Longrightarrow> has_served (sv_run s) \<Longrightarrow> server_work ended av ul ord (sv_manager s) m \<Longrightarrow>
    server_step av ul ord s (s\<lparr>sv_manager := m\<rparr>)"

lemmas server_step_run = server_life.run [THEN server_step.life]
lemmas server_step_task = server_life.task [THEN server_step.life]

inductive_cases server_lifeE: "server_life s s'"
inductive_cases server_stepE: "server_step av ul ord s s'"

definition server_reach :: "av_push \<Rightarrow> (string \<Rightarrow> string) \<Rightarrow> source_id list \<Rightarrow> server \<Rightarrow> bool" where
  "server_reach av ul ord s \<longleftrightarrow> (server_step av ul ord)\<^sup>*\<^sup>* server_start s"

subsection \<open>The invariant\<close>

text \<open>The messages sent, the receivers and the progress of the manager's task fit together.\<close>

definition task_ok :: "nat \<Rightarrow> manager_task \<Rightarrow> manager \<Rightarrow> bool" where
  "task_ok sent t m =
     (case t of
        MtListening rx \<Rightarrow> rx \<le> sent \<and> \<not> mg_shutting_down m
      | MtFlagging \<Rightarrow> 0 < sent \<and> \<not> mg_shutting_down m
      | MtDraining \<Rightarrow> 0 < sent \<and> mg_shutting_down m
      | MtDone \<Rightarrow> 0 < sent \<and> (if mg_shutting_down m then mg_feeds m = Map.empty else 1 < sent))"

definition run_ok :: "nat \<Rightarrow> run_point \<Rightarrow> bool" where
  "run_ok sent rp =
     (case rp of RunServing rx \<Rightarrow> rx \<le> sent | RunReturned (Inr u) \<Rightarrow> 0 < sent | _ \<Rightarrow> True)"

definition messages_sent :: "ctrl_c_handler \<Rightarrow> run_point \<Rightarrow> nat" where
  "messages_sent h rp =
     (if h = HandlerDone then 1 else 0) + (case rp of RunReturned (Inl e) \<Rightarrow> 1 | _ \<Rightarrow> 0)"

definition server_ok :: "server \<Rightarrow> bool" where
  "server_ok s \<longleftrightarrow>
     (let (ch, h) = sv_signal s
      in bc_capacity ch = 1 \<and> bc_sent ch = messages_sent h (sv_run s) \<and> run_ok (bc_sent ch) (sv_run s) \<and>
         (sv_task s = None \<longleftrightarrow> sv_run s = RunStarting) \<and>
         (case sv_task s of None \<Rightarrow> \<not> mg_shutting_down (sv_manager s)
          | Some t \<Rightarrow> task_ok (bc_sent ch) t (sv_manager s)))"

lemmas server_ok_simps = server_ok_def task_ok_def run_ok_def messages_sent_def Let_def

lemma task_ok_mono: "task_ok k t m \<Longrightarrow> k \<le> k' \<Longrightarrow> task_ok k' t m"
  by (auto simp: task_ok_def split: manager_task.splits if_splits)

lemma task_ok_work:
  assumes "server_work ended av ul ord m m'" "task_ok k t m"
  shows "task_ok k t m'"
  using assms work_shutting_down [OF assms(1)] by (simp add: task_ok_def split: manager_task.splits if_splits)

lemma ctrl_c_step_ok:
  assumes "server_ok s" "ctrl_c_step c (sv_signal s) = Some sig"
  shows "server_ok (s\<lparr>sv_signal := sig\<rparr>)"
proof -
  obtain ch where "sv_signal s = (ch, Listening)" "sig = (broadcast_send ch, HandlerDone)"
    using assms(2) by (cases "sv_signal s") (auto elim: ctrl_c_stepE)
  then show ?thesis
    using assms(1) task_ok_mono [of "bc_sent ch" _ "sv_manager s" "Suc (bc_sent ch)"]
    by (cases "sv_run s")
      (auto simp: server_ok_def run_ok_def messages_sent_def broadcast_send_def split: option.splits sum.splits)
qed

lemma run_step_ok:
  assumes "server_ok s" "run_step r s = Some s'"
  shows "server_ok s'"
proof -
  obtain ch h where sig: "sv_signal s = (ch, h)" by (cases "sv_signal s")
  show ?thesis
  proof (cases "sv_run s")
    case (RunServing rx)
    then show ?thesis
      using assms sig task_ok_mono [of "bc_sent ch" _ "sv_manager s" "Suc (bc_sent ch)"]
      by (auto simp: run_step_def run_grpc_server_def broadcast_recv_def broadcast_send_def server_ok_def
          run_ok_def messages_sent_def split: sum.splits option.splits if_splits)
  qed (use assms sig in \<open>auto simp: run_step_def server_ok_simps broadcast_subscribe_def manager_new_def\<close>)
qed

lemma manager_task_step_ok:
  assumes "server_ok s" "manager_task_step order s = Some s'"
  shows "server_ok s'"
proof -
  obtain ch h where sig: "sv_signal s = (ch, h)" by (cases "sv_signal s")
  obtain t where t: "sv_task s = Some t"
    using assms(2) by (cases "sv_task s") (simp_all add: manager_task_step_def)
  have "bc_capacity ch = 1" using assms(1) sig by (simp add: server_ok_def)
  then show ?thesis
    using assms sig t
    by (cases t) (auto simp: manager_task_step_def broadcast_recv_def server_ok_def task_ok_def
        shutdown_flag_def shutdown_drain_def split: if_splits)
qed

lemma server_ok_dropped [simp]: "server_ok (s\<lparr>sv_dropped := b\<rparr>) = server_ok s"
  by (cases "sv_task s") (simp_all add: server_ok_def)

lemma server_step_ok:
  assumes "server_step av ul ord s s'" "server_ok s"
  shows "server_ok s'"
  using assms
proof (induction rule: server_step.induct)
  case (life s s')
  then show ?case
  proof (induction rule: server_life.induct)
    case (drop s)
    then show ?case by simp
  qed (blast intro: ctrl_c_step_ok run_step_ok manager_task_step_ok)+
next
  case (work s ended m)
  then show ?case using task_ok_work [OF work(3)] work_shutting_down(1) [OF work(3)]
    by (auto simp: server_ok_def split: option.splits)
qed

lemma server_start_ok: "server_ok server_start"
  by (simp add: server_start_def ctrl_c_shutdown_signal_def broadcast_channel_def server_ok_simps
      manager_new_def)

lemma server_reach_ok: "server_reach av ul ord s \<Longrightarrow> server_ok s"
  unfolding server_reach_def
  by (induction rule: rtranclp_induct) (auto intro: server_step_ok server_start_ok)

text \<open>What the server does to its manager: nothing, or a step of the manager's shutdown, or it makes it.\<close>

lemma server_life_manager:
  assumes "server_life s s'" "server_ok s"
  shows "sv_manager s' = sv_manager s \<or> own_shutdown (sv_manager s) (sv_manager s') \<or>
    sv_run s = RunStarting \<and> sv_manager s' = manager_new"
  using assms
proof (induction rule: server_life.induct)
  case (run s r s')
  then show ?case
    by (auto simp: run_step_def Let_def split: prod.splits run_point.splits option.splits)
next
  case (task s order s')
  then show ?case
    by (auto simp: manager_task_step_def server_ok_def task_ok_def own_shutdown_def
        split: option.splits manager_task.splits recv_result.splits prod.splits)
qed simp_all

abbreviation server_manager_step ::
  "av_push \<Rightarrow> (string \<Rightarrow> string) \<Rightarrow> source_id list \<Rightarrow> manager \<Rightarrow> manager \<Rightarrow> bool" where
  "server_manager_step av ul ord \<equiv> manager_step av SERVER_DEPTH (server_sources ul ord) build_instrument_map"

lemma server_step_manager:
  assumes "server_step av ul ord s s'" "server_ok s"
  shows "(server_manager_step av ul ord)\<^sup>=\<^sup>= (sv_manager s) (sv_manager s') \<or>
    sv_run s = RunStarting \<and> sv_manager s' = manager_new"
  using assms
proof (induction rule: server_step.induct)
  case (life s s')
  from server_life_manager [OF this] show ?case by (auto intro: own_shutdown_step)
next
  case (work s ended m)
  then show ?case by (auto intro: manager_step.work)
qed

lemma server_manager_reach:
  assumes "server_reach av ul ord s"
  shows "manager_reach av SERVER_DEPTH (server_sources ul ord) build_instrument_map (sv_manager s)"
  using assms unfolding server_reach_def
proof (induction rule: rtranclp_induct)
  case base
  then show ?case by (simp add: server_start_def manager_reach_new)
next
  case (step s s')
  have "server_ok s" using step.hyps(1) by (simp add: server_reach_ok server_reach_def)
  from server_step_manager [OF step.hyps(2) this] show ?case
    using step.IH manager_reach_step manager_reach_new by auto
qed

lemma server_reach_step:
  "server_reach av ul ord s \<Longrightarrow> server_step av ul ord s s' \<Longrightarrow> server_reach av ul ord s'"
  by (simp add: server_reach_def)

lemma dropped_no_step: "sv_dropped s \<Longrightarrow> \<not> server_step av ul ord s s'"
  by (auto elim!: server_stepE server_lifeE)

subsection \<open>A server that misses the signal\<close>

text \<open>Once \<open>run\<close> serves with a receiver made after the only interrupt, it can only end with an error.\<close>

definition deaf :: "server \<Rightarrow> bool" where
  "deaf s \<longleftrightarrow> server_ok s \<and> snd (sv_signal s) = HandlerDone \<and>
     (sv_run s = RunServing (Suc 0) \<or> (\<exists>e. sv_run s = RunReturned (Inl e)))"

lemma manager_task_step_run:
  "manager_task_step order s = Some s' \<Longrightarrow> sv_run s' = sv_run s \<and> sv_signal s' = sv_signal s"
  by (auto simp: manager_task_step_def split: option.splits manager_task.splits recv_result.splits prod.splits)

lemma deaf_step:
  assumes "server_step av ul ord s s'" "deaf s"
  shows "deaf s'"
proof -
  have "server_ok s'" using assms server_step_ok by (auto simp: deaf_def)
  moreover have "snd (sv_signal s') = HandlerDone \<and>
      (sv_run s' = RunServing (Suc 0) \<or> (\<exists>e. sv_run s' = RunReturned (Inl e)))"
    using assms
  proof (induction rule: server_step.induct)
    case (life s s')
    then show ?case
    proof (induction rule: server_life.induct)
      case (interrupt s c sig)
      then show ?case by (cases "sv_signal s") (auto simp: deaf_def)
    next
      case (run s r s')
      then show ?case
        by (auto simp: deaf_def run_step_def run_grpc_server_def broadcast_recv_def server_ok_def messages_sent_def
            Let_def split: prod.splits sum.splits option.splits if_splits)
    next
      case (task s order s')
      then show ?case using manager_task_step_run [OF task(4)] by (simp add: deaf_def)
    qed (simp add: deaf_def)
  qed (simp add: deaf_def)
  ultimately show ?thesis by (simp add: deaf_def)
qed

lemma deaf_for_ever:
  assumes "(server_step av ul ord)\<^sup>*\<^sup>* s s'" "deaf s"
  shows "deaf s'"
  using assms(1) by (induction rule: rtranclp_induct) (auto intro: assms(2) deaf_step)

lemma deaf_refuses:
  assumes "deaf s"
  shows "run_step (Inr ()) s = None" "ctrl_c_step c (sv_signal s) = None"
  using assms
  by (cases "sv_signal s"; auto simp: deaf_def run_step_def run_grpc_server_def broadcast_recv_def server_ok_def
      messages_sent_def Let_def)+

lemma steps_manager:
  assumes "(server_step av ul ord)\<^sup>*\<^sup>* s s'" "server_ok s" "sv_run s \<noteq> RunStarting"
  shows "server_ok s' \<and> sv_run s' \<noteq> RunStarting \<and>
    (server_manager_step av ul ord)\<^sup>*\<^sup>* (sv_manager s) (sv_manager s')"
  using assms(1)
proof (induction rule: rtranclp_induct)
  case (step s' s'')
  have "sv_run s'' \<noteq> RunStarting"
    using step.hyps(2) step.IH
    by (auto elim!: server_stepE server_lifeE dest: manager_task_step_run
        simp: run_step_def Let_def split: prod.splits run_point.splits option.splits)
  then show ?case
    using step.IH server_step_ok [OF step.hyps(2)] server_step_manager [OF step.hyps(2)]
    by (auto intro: rtranclp.rtrancl_into_rtrancl)
qed (use assms(2,3) in simp)

text \<open>The channel after \<open>k\<close> messages, and the first steps of \<open>run\<close>.\<close>

definition sent_channel :: "nat \<Rightarrow> broadcast" where
  "sent_channel k = \<lparr>bc_capacity = 1, bc_sent = k\<rparr>"

definition server_at :: "ctrl_c_handler \<Rightarrow> run_point \<Rightarrow> manager_task \<Rightarrow> manager \<Rightarrow> server" where
  "server_at h rp t m =
     \<lparr>sv_signal = (sent_channel (if h = HandlerDone then 1 else 0), h), sv_run = rp, sv_task = Some t,
      sv_manager = m, sv_dropped = False\<rparr>"

lemma server_at_sel [simp]:
  "sv_run (server_at h rp t m) = rp" "sv_task (server_at h rp t m) = Some t"
  "sv_manager (server_at h rp t m) = m" "snd (sv_signal (server_at h rp t m)) = h"
  "sv_dropped (server_at h rp t m) = False"
  by (simp_all add: server_at_def)

lemmas server_at_simps = server_at_def sent_channel_def run_step_def broadcast_subscribe_def
  broadcast_send_def broadcast_recv_def run_grpc_server_def manager_task_step_def Let_def

lemma managed_reach: "server_reach av ul ord (server_at Listening RunManaged (MtListening 0) manager_new)"
proof -
  have "server_step av ul ord server_start (server_at Listening RunManaged (MtListening 0) manager_new)"
    by (rule server_step_run)
      (simp_all add: server_at_simps server_start_def ctrl_c_shutdown_signal_def broadcast_channel_def)
  then show ?thesis unfolding server_reach_def by (rule r_into_rtranclp)
qed

lemma serving_reach:
  "server_reach av ul ord (server_at Listening (RunServing 0) (MtListening 0) manager_new)"
  by (rule server_reach_step [OF managed_reach server_step_run]) (simp_all add: server_at_simps)

lemma interrupt_life: "server_life (server_at Listening rp t m) (server_at HandlerDone rp t m)"
proof -
  have "ctrl_c_step (Inr ()) (sent_channel 0, Listening) = Some (sent_channel 1, HandlerDone)"
    by (simp add: sent_channel_def broadcast_send_def)
  then show ?thesis
    using server_life.interrupt [of "server_at Listening rp t m" "Inr ()"] by (simp add: server_at_def)
qed

lemma interrupt_reach:
  "server_reach av ul ord (server_at Listening rp t m) \<Longrightarrow> server_reach av ul ord (server_at HandlerDone rp t m)"
  by (erule server_reach_step) (rule server_step.life [OF interrupt_life])

text \<open>The interrupt comes between \<open>Manager::new\<close> and the second \<open>subscribe\<close>.\<close>

definition drained :: manager where
  "drained = shutdown_drain [] (shutdown_flag manager_new)"

lemma deaf_reach: "server_reach av ul ord (server_at HandlerDone (RunServing 1) MtDone drained)"
proof -
  note R = server_reach_step
  let ?at = "server_at HandlerDone"
  have r1: "server_reach av ul ord (?at RunManaged (MtListening 0) manager_new)"
    by (rule interrupt_reach [OF managed_reach])
  have r2: "server_reach av ul ord (?at RunManaged MtFlagging manager_new)"
    by (rule R [OF r1], rule server_step_task [of _ "[]"]) (simp_all add: server_at_simps manager_new_def)
  have r3: "server_reach av ul ord (?at RunManaged MtDraining (shutdown_flag manager_new))"
    by (rule R [OF r2], rule server_step_task [of _ "[]"]) (simp_all add: server_at_simps manager_new_def)
  have r4: "server_reach av ul ord (?at RunManaged MtDone drained)"
    by (rule R [OF r3], rule server_step_task [of _ "[]"])
      (simp_all add: server_at_simps manager_new_def shutdown_flag_def drained_def)
  show ?thesis
    by (rule R [OF r4 server_step_run]) (simp_all add: server_at_simps)
qed

lemma deaf_server: "deaf (server_at HandlerDone (RunServing 1) MtDone drained)"
  using server_reach_ok [OF deaf_reach] by (simp add: deaf_def)

text \<open>A client has opened the default feed.\<close>

lemma open_feed:
  obtains fid m where "server_work (\<lambda>_ _. False) av ul ord manager_new m" "\<not> mg_shutting_down m"
    "mg_feeds m SYMBOL_ETH_BTC = Some fid" "finite (dom (mg_feeds m))"
    "server_reach av ul ord (server_at Listening (RunServing 0) (MtListening 0) m)"
proof -
  obtain fid m where m: "server_book_summary ul ord manager_new = (okP fid, m)"
      "mg_feeds m SYMBOL_ETH_BTC = Some fid"
    using default_request [of manager_new ul ord] by (auto simp: manager_new_def)
  have open_stream: "open_summary_stream SERVER_DEPTH (server_sources ul ord) build_instrument_map SYMBOL_ETH_BTC
      manager_new = (okP fid, m)"
    using m(1) by (simp add: server_book_summary_def book_summary_def server_service_def)
  then have fin: "finite (dom (mg_feeds m))"
    by (cases rule: open_summary_stream_cases) (simp_all add: manager_new_def)
  have w: "server_work (\<lambda>_ _. False) av ul ord manager_new m"
    by (rule manager_work.request [OF open_stream])
  have flag: "\<not> mg_shutting_down m" using work_shutting_down(1) [OF w] by (simp add: manager_new_def)
  have "server_step av ul ord (server_at Listening (RunServing 0) (MtListening 0) manager_new)
      (server_at Listening (RunServing 0) (MtListening 0) m)"
    using server_step.work [of "server_at Listening (RunServing 0) (MtListening 0) manager_new"] w
    by (simp add: server_at_def)
  from server_reach_step [OF serving_reach this] show ?thesis by (rule that [OF w flag m(2) fin])
qed

subsection \<open>Properties\<close>

text \<open>C34: in every reachable state of the process the manager is in a state it can reach by itself, so that
  all its invariants hold in the server; it shuts down only after a signal, which the ctrl-c handler or a
  failing \<open>run\<close> has sent; the server ends without an error only after the handler's; and when the manager's
  task has ended it has drained every feed, unless both signals were sent before it listened, in which
  case it was told that it lags and skipped its shutdown.\<close>

theorem server_shuts_down_only_on_signal:
  assumes "server_reach av ul ord s"
  shows "manager_reach av SERVER_DEPTH (server_sources ul ord) build_instrument_map (sv_manager s) \<and>
    (mg_shutting_down (sv_manager s) \<longrightarrow>
      snd (sv_signal s) = HandlerDone \<or> (\<exists>e. sv_run s = RunReturned (Inl e))) \<and>
    (sv_run s = RunReturned (Inr ()) \<longrightarrow> snd (sv_signal s) = HandlerDone) \<and>
    (sv_task s = Some MtDone \<longrightarrow>
      mg_shutting_down (sv_manager s) \<and> mg_feeds (sv_manager s) = Map.empty \<or>
      \<not> mg_shutting_down (sv_manager s) \<and> snd (sv_signal s) = HandlerDone \<and> (\<exists>e. sv_run s = RunReturned (Inl e)))"
proof -
  obtain ch h where sig: "sv_signal s = (ch, h)" by (cases "sv_signal s")
  have ok: "bc_sent ch = messages_sent h (sv_run s)" "run_ok (bc_sent ch) (sv_run s)"
    "case sv_task s of None \<Rightarrow> \<not> mg_shutting_down (sv_manager s)
      | Some t \<Rightarrow> task_ok (bc_sent ch) t (sv_manager s)"
    "sv_task s = None \<longleftrightarrow> sv_run s = RunStarting"
    using server_reach_ok [OF assms, unfolded server_ok_def sig Let_def prod.case] by blast+
  have sent: "0 < bc_sent ch" if "mg_shutting_down (sv_manager s)"
    using ok(3) that by (auto simp: task_ok_def split: option.splits manager_task.splits)
  have "h = HandlerDone \<or> (\<exists>e. sv_run s = RunReturned (Inl e))" if "0 < bc_sent ch"
    using ok(1) that by (auto simp: messages_sent_def split: run_point.splits sum.splits if_splits)
  moreover have "h = HandlerDone \<and> (\<exists>e. sv_run s = RunReturned (Inl e))" if "1 < bc_sent ch"
    using ok(1) that by (auto simp: messages_sent_def split: run_point.splits sum.splits if_splits)
  moreover have "h = HandlerDone" if "sv_run s = RunReturned (Inr ())"
    using ok(1,2) that by (auto simp: messages_sent_def run_ok_def split: if_splits)
  moreover have "if mg_shutting_down (sv_manager s) then mg_feeds (sv_manager s) = Map.empty else 1 < bc_sent ch"
    if "sv_task s = Some MtDone"
    using ok(3) that by (auto simp: task_ok_def)
  ultimately show ?thesis
    using server_manager_reach [OF assms] sent sig by (auto split: if_splits)
qed

theorem server_shuts_down_only_on_signal_witness:
  "manager_reach list_push SERVER_DEPTH (server_sources id [Binance]) build_instrument_map drained"
  using server_shuts_down_only_on_signal [OF deaf_reach [of list_push id "[Binance]"]]
  by (simp add: server_at_def)

text \<open>C35: a second signal can take the first one away: the shutdown channel holds one message, so when the
  server fails after an interrupt that the manager's task has not received yet, that task is told that it
  lags and ends without shutting down, with a feed still open and the manager not marked.\<close>

theorem lagging_manager_skips_shutdown:
  "\<exists>s fid. server_reach av ul ord s \<and> sv_run s = RunReturned (Inl e) \<and> snd (sv_signal s) = HandlerDone \<and>
    \<not> sv_dropped s \<and> sv_task s = Some MtDone \<and> (\<forall>order. manager_task_step order s = None) \<and>
    \<not> mg_shutting_down (sv_manager s) \<and> mg_feeds (sv_manager s) SYMBOL_ETH_BTC = Some fid"
proof -
  obtain fid m where m: "\<not> mg_shutting_down m" "mg_feeds m SYMBOL_ETH_BTC = Some fid"
      "finite (dom (mg_feeds m))"
      "server_reach av ul ord (server_at Listening (RunServing 0) (MtListening 0) m)"
    by (rule open_feed [of av ul ord])
  let ?s = "\<lambda>t. \<lparr>sv_signal = (sent_channel 2, HandlerDone), sv_run = RunReturned (Inl e), sv_task = Some t,
      sv_manager = m, sv_dropped = False\<rparr>"
  obtain order where order: "set order = dom (mg_feeds m)" "distinct order"
    using finite_distinct_list [OF m(3)] by auto
  have "server_reach av ul ord (?s (MtListening 0))"
    by (rule server_reach_step [OF interrupt_reach [OF m(4)] server_step_run [of _ "Inl e"]])
      (simp_all add: server_at_simps)
  then have "server_reach av ul ord (?s MtDone)"
    by (rule server_reach_step)
      (rule server_step_task [OF _ order(2)], simp_all add: order(1) server_at_simps)
  then show ?thesis using m(1,2)
    by (intro exI [of _ "?s MtDone"] exI [of _ fid]) (simp add: manager_task_step_def)
qed

text \<open>C36: a serving server can end without an error exactly when the handler has sent the signal after
  the server subscribed; a server that subscribed after the signal never ends without an error.\<close>

theorem server_stops_iff_signalled_later:
  assumes "server_reach av ul ord s" "sv_run s = RunServing rx"
  shows "((\<exists>s'. run_step (Inr ()) s = Some s' \<and> sv_run s' = RunReturned (Inr ())) \<longleftrightarrow>
      rx = 0 \<and> snd (sv_signal s) = HandlerDone) \<and>
    (rx \<noteq> 0 \<longrightarrow> (server_step av ul ord)\<^sup>*\<^sup>* s s' \<longrightarrow>
      sv_run s' = RunServing 1 \<or> (\<exists>e. sv_run s' = RunReturned (Inl e)))"
proof -
  note ok = server_reach_ok [OF assms(1)]
  have late: "deaf s" if "rx \<noteq> 0"
    using ok assms(2) that by (auto simp: deaf_def server_ok_simps split: prod.splits if_splits)
  have stops: "(\<exists>s'. run_step (Inr ()) s = Some s' \<and> sv_run s' = RunReturned (Inr ())) \<longleftrightarrow>
      rx = 0 \<and> snd (sv_signal s) = HandlerDone"
    using ok assms(2)
    by (auto simp: run_step_def run_grpc_server_def broadcast_recv_def server_ok_simps
        split: prod.splits if_splits)
  have "sv_run s' = RunServing 1 \<or> (\<exists>e. sv_run s' = RunReturned (Inl e))"
    if "rx \<noteq> 0" "(server_step av ul ord)\<^sup>*\<^sup>* s s'"
    using deaf_for_ever [OF that(2) late [OF that(1)]] by (simp add: deaf_def)
  with stops show ?thesis by (intro conjI impI)
qed

theorem server_stops_iff_signalled_later_witness:
  "(\<exists>s'. run_step (Inr ()) (server_at HandlerDone (RunServing 0) (MtListening 0) manager_new) = Some s' \<and>
     sv_run s' = RunReturned (Inr ())) \<and>
   \<not> (\<exists>s'. run_step (Inr ()) (server_at HandlerDone (RunServing 1) MtDone drained) = Some s' \<and>
     sv_run s' = RunReturned (Inr ()))"
proof -
  have r: "server_reach list_push id [] (server_at HandlerDone (RunServing 0) (MtListening 0) manager_new)"
    by (rule interrupt_reach [OF serving_reach])
  note s1 = conjunct1 [OF server_stops_iff_signalled_later [OF r server_at_sel(1)]]
  note s2 = conjunct1 [OF server_stops_iff_signalled_later
      [OF deaf_reach [of list_push id "[]"] server_at_sel(1)]]
  show ?thesis unfolding s1 s2 by simp
qed

text \<open>C37: an interrupt during start up can leave a server that is of no use for ever: it serves, and in every
  state that it can reach from there it refuses every request, for the default stream and for any symbol,
  no interrupt is heard any more and it cannot end without an error.\<close>

theorem early_interrupt_leaves_dead_server:
  "\<exists>s. server_reach av ul ord s \<and> sv_run s = RunServing 1 \<and>
    (\<forall>s'. (server_step av ul ord)\<^sup>*\<^sup>* s s' \<longrightarrow>
      run_step (Inr ()) s' = None \<and> (\<forall>c. ctrl_c_step c (sv_signal s') = None) \<and>
      fst (server_book_summary ul ord (sv_manager s')) =
        errP (GrpcInternal, ''Failed to open stream: Manager is shutting down'') \<and>
      (\<forall>symbol. fst (book_summary_for_symbol SERVER_DEPTH (server_sources ul ord) build_instrument_map symbol
          (sv_manager s')) =
        (if symbol = [] then errP (GrpcInvalidArgument, ''Symbol cannot be empty'')
         else errP (GrpcInternal, ''Failed to open stream: Manager is shutting down''))))"
proof (intro exI [of _ "server_at HandlerDone (RunServing 1) MtDone drained"] conjI allI impI)
  let ?s = "server_at HandlerDone (RunServing 1) MtDone drained"
  show "server_reach av ul ord ?s" by (rule deaf_reach)
  show "sv_run ?s = RunServing 1" by simp
  fix s' c symbol
  assume steps: "(server_step av ul ord)\<^sup>*\<^sup>* ?s s'"
  from deaf_for_ever [OF steps deaf_server]
  show "run_step (Inr ()) s' = None" "ctrl_c_step c (sv_signal s') = None" by (rule deaf_refuses)+
  have "(server_manager_step av ul ord)\<^sup>*\<^sup>* drained (sv_manager s')"
    using steps_manager [OF steps] deaf_server by (simp add: deaf_def)
  then have "mg_shutting_down (sv_manager s')"
    using steps_after_drain by (fastforce simp: drained_def shutdown_drain_def shutdown_flag_def)
  then show "fst (server_book_summary ul ord (sv_manager s')) =
      errP (GrpcInternal, ''Failed to open stream: Manager is shutting down'')"
    and "fst (book_summary_for_symbol SERVER_DEPTH (server_sources ul ord) build_instrument_map symbol
        (sv_manager s')) =
      (if symbol = [] then errP (GrpcInvalidArgument, ''Symbol cannot be empty'')
       else errP (GrpcInternal, ''Failed to open stream: Manager is shutting down''))"
    by (simp_all add: server_book_summary_def book_summary_def book_summary_for_symbol_def
        open_summary_stream_def manager_open_def)
qed

theorem early_interrupt_leaves_dead_server_witness:
  "\<exists>s. server_reach list_push id [Binance] s \<and> sv_run s = RunServing 1 \<and>
    fst (server_book_summary id [Binance] (sv_manager s)) =
      errP (GrpcInternal, ''Failed to open stream: Manager is shutting down'')"
  using early_interrupt_leaves_dead_server [of list_push id "[Binance]"] by blast

text \<open>C38: the server does not wait for its manager: it can end without an error, and with it every
  task, while a feed is still open (its client may have left already) and the manager has not begun to shut down.\<close>

theorem server_ends_before_manager_shutdown:
  "\<exists>s fid. server_reach av ul ord s \<and> sv_run s = RunReturned (Inr ()) \<and>
    \<not> mg_shutting_down (sv_manager s) \<and> mg_feeds (sv_manager s) SYMBOL_ETH_BTC = Some fid \<and>
    (\<forall>s'. \<not> server_step av ul ord s s')"
proof -
  obtain fid m where m: "\<not> mg_shutting_down m" "mg_feeds m SYMBOL_ETH_BTC = Some fid"
      "server_reach av ul ord (server_at Listening (RunServing 0) (MtListening 0) m)"
    by (rule open_feed [of av ul ord])
  let ?s = "server_at HandlerDone (RunReturned (Inr ())) (MtListening 0) m"
  have "server_reach av ul ord ?s"
    by (rule server_reach_step [OF interrupt_reach [OF m(3)] server_step_run [of _ "Inr ()"]])
      (simp_all add: server_at_simps)
  then have "server_reach av ul ord (?s\<lparr>sv_dropped := True\<rparr>)"
    by (rule server_reach_step) (rule server_step.life, rule server_life.drop, simp_all)
  then show ?thesis using m(1,2) dropped_no_step
    by (intro exI [of _ "?s\<lparr>sv_dropped := True\<rparr>"] exI [of _ fid]) simp
qed

end
