(* ===== verification/Server_Process.thy ===== *)
theory Server_Process
  imports Server_Lifecycle Service_Properties
begin

section \<open>The whole process (aggserver/src/main.rs with the service it runs)\<close>

text \<open>
  The life of the server and the running service as one process: the course of \<open>run\<close>, the ctrl-c
  handler and the task of the manager on one side, the requests, feeds, source tasks, exchanges,
  publishers and clients on the other, with the depth, the instruments and the factories of the
  binary. The service works once \<open>run\<close> serves, and until the runtime is dropped.
\<close>

record process =
  pr_server :: server
  pr_sources :: "feed_sources list"

definition pr_system :: "process \<Rightarrow> system" where
  "pr_system p = \<lparr>sys_manager = sv_manager (pr_server p), sys_sources = pr_sources p\<rparr>"

definition process_start :: process where
  "process_start = \<lparr>pr_server = server_start, pr_sources = []\<rparr>"

text \<open>What the tasks of the service do, without the two steps of the manager's own shutdown.\<close>

inductive system_work ::
  "(string \<Rightarrow> string) \<Rightarrow> 'j serde_json \<Rightarrow> wire \<Rightarrow> av_push \<Rightarrow> nat \<Rightarrow>
    (instrument \<Rightarrow> source_id list) \<Rightarrow> instrument_map \<Rightarrow> system \<Rightarrow> system \<Rightarrow> bool"
  for ul :: "string \<Rightarrow> string" and S :: "'j serde_json" and net :: wire
    and av :: av_push and n :: nat and ord :: "instrument \<Rightarrow> source_id list" and im :: instrument_map where
  request: "system_request ul n ord im symbol y = (r, y') \<Longrightarrow> system_work ul S net av n ord im y y'"
| manage: "manager_work (source_ended ul n ord y) av n (service_sources ul n ord) im (sys_manager y) m' \<Longrightarrow>
    feeds_managed (sys_manager y) m' \<Longrightarrow>
    system_work ul S net av n ord im y (y\<lparr>sys_manager := m'\<rparr>)"
| pipe: "fid < length (mg_heap (sys_manager y)) \<Longrightarrow>
    pipeline_move S net av n (pipeline_of y fid) p \<Longrightarrow>
    pl_publisher p = pl_publisher (pipeline_of y fid) \<or>
      publisher_moves av n (pl_publisher (pipeline_of y fid)) (pl_publisher p) \<Longrightarrow>
    system_work ul S net av n ord im y (set_pipeline fid p y)"

inductive process_step ::
  "(string \<Rightarrow> string) \<Rightarrow> 'j serde_json \<Rightarrow> wire \<Rightarrow> av_push \<Rightarrow> source_id list \<Rightarrow>
    process \<Rightarrow> process \<Rightarrow> bool"
  for ul :: "string \<Rightarrow> string" and S :: "'j serde_json" and net :: wire
    and av :: av_push and ord :: "source_id list" where
  life: "server_life (pr_server p) s \<Longrightarrow>
    process_step ul S net av ord p (p\<lparr>pr_server := s\<rparr>)"
| service: "\<not> sv_dropped (pr_server p) \<Longrightarrow> has_served (sv_run (pr_server p)) \<Longrightarrow>
    system_work ul S net av SERVER_DEPTH (\<lambda>_. ord) build_instrument_map (pr_system p) y \<Longrightarrow>
    process_step ul S net av ord p
      \<lparr>pr_server = (pr_server p)\<lparr>sv_manager := sys_manager y\<rparr>, pr_sources = sys_sources y\<rparr>"

definition process_reach ::
  "(string \<Rightarrow> string) \<Rightarrow> 'j serde_json \<Rightarrow> wire \<Rightarrow> av_push \<Rightarrow> source_id list \<Rightarrow> process \<Rightarrow> bool" where
  "process_reach ul S net av ord p \<longleftrightarrow> (process_step ul S net av ord)\<^sup>*\<^sup>* process_start p"

subsection \<open>The two sides of the process\<close>

lemma server_sources_service: "server_sources ul ord = service_sources ul SERVER_DEPTH (\<lambda>_. ord)"
  by (simp add: server_sources_def service_sources_def fun_eq_iff)

lemma system_reach_step:
  "system_reach ul S net av n ord im y \<Longrightarrow> system_step ul S net av n ord im y y' \<Longrightarrow>
    system_reach ul S net av n ord im y'"
  by (simp add: system_reach_def)

lemma system_work_step:
  assumes "system_work ul S net av n ord im y y'"
  shows "system_step ul S net av n ord im y y'"
  using assms by (induction rule: system_work.induct) (auto intro: system_step.intros)

lemma system_work_manager:
  assumes "system_work ul S net av n ord im y y'"
  shows "sys_manager y' = sys_manager y \<or>
    (\<exists>ended. manager_work ended av n (service_sources ul n ord) im (sys_manager y) (sys_manager y'))"
  using assms
proof (induction rule: system_work.induct)
  case (request symbol y r y')
  obtain r' m' where req: "open_summary_stream n (service_sources ul n ord) im symbol (sys_manager y) = (r', m')"
    by fastforce
  then have "sys_manager y' = m'" using request by (auto simp: system_request_def)
  then show ?case using manager_work.request [OF req] by blast
next
  case (pipe fid y p)
  show ?case
  proof (cases "pl_publisher p = pl_publisher (pipeline_of y fid)")
    case True
    then show ?thesis by (simp add: set_pipeline_def pipeline_of_def update_feed_def)
  next
    case False
    then have "publisher_moves av n (fd_publisher (mg_heap (sys_manager y) ! fid)) (pl_publisher p)"
      using pipe(3) by (simp add: pipeline_of_def)
    from manager_work.publisher [OF pipe(1) this, where cs = "service_sources ul n ord" and im = im]
    show ?thesis by (auto simp: set_pipeline_def)
  qed
qed auto

text \<open>Until \<open>Manager::new\<close> has been called there is no feed.\<close>

definition process_ok ::
  "(string \<Rightarrow> string) \<Rightarrow> 'j serde_json \<Rightarrow> wire \<Rightarrow> av_push \<Rightarrow> source_id list \<Rightarrow> process \<Rightarrow> bool" where
  "process_ok ul S net av ord p \<longleftrightarrow> server_reach av ul ord (pr_server p) \<and>
     system_reach ul S net av SERVER_DEPTH (\<lambda>_. ord) build_instrument_map (pr_system p) \<and>
     (sv_run (pr_server p) = RunStarting \<longrightarrow> pr_system p = system_new)"

lemma feeds_managed_same: "mg_heap m' = mg_heap m \<Longrightarrow> feeds_managed m m'"
  by (simp add: feeds_managed_def)

lemma server_life_starting:
  assumes "server_life s s'" "server_ok s" "sv_run s' = RunStarting"
  shows "sv_run s = RunStarting \<and> sv_manager s' = sv_manager s"
  using assms
proof (induction rule: server_life.induct)
  case (run s r s')
  then show ?case
    by (auto simp: run_step_def Let_def split: prod.splits run_point.splits option.splits)
next
  case (task s order s')
  then have "sv_task s = None"
    using manager_task_step_run [OF task(4)] by (simp add: server_ok_def split: prod.splits)
  then show ?case using task(4) by (simp add: manager_task_step_def)
qed auto

lemma own_shutdown_heap: "own_shutdown m m' \<Longrightarrow> mg_heap m' = mg_heap m"
  by (auto simp: own_shutdown_def shutdown_flag_def shutdown_drain_def)

lemma process_step_ok:
  assumes "process_step ul S net av ord p p'" "process_ok ul S net av ord p"
  shows "process_ok ul S net av ord p'"
  using assms
proof (induction rule: process_step.induct)
  case (life p s)
  let ?reach = "system_reach ul S net av SERVER_DEPTH (\<lambda>_. ord) build_instrument_map"
  have ok: "server_ok (pr_server p)" using life(2) server_reach_ok by (auto simp: process_ok_def)
  have new: "pr_system (p\<lparr>pr_server := s\<rparr>) = (pr_system p)\<lparr>sys_manager := sv_manager s\<rparr>"
    by (simp add: pr_system_def)
  have old: "?reach (pr_system p)" using life(2) by (simp add: process_ok_def)
  have start: "pr_system p = system_new" if "sv_run (pr_server p) = RunStarting"
    using life(2) that by (simp add: process_ok_def)
  from server_life_manager [OF life(1) ok]
  consider "sv_manager s = sys_manager (pr_system p)" | "own_shutdown (sys_manager (pr_system p)) (sv_manager s)"
    | "sv_run (pr_server p) = RunStarting" "sv_manager s = manager_new"
    by (auto simp: pr_system_def)
  then have "?reach ((pr_system p)\<lparr>sys_manager := sv_manager s\<rparr>)"
  proof cases
    case 1
    then show ?thesis using old by simp
  next
    case 2
    have managed: "feeds_managed (sys_manager (pr_system p)) (sv_manager s)"
      using own_shutdown_heap [OF 2] by (simp add: feeds_managed_same)
    show ?thesis
      by (rule system_reach_step [OF old system_step.manage [OF disjI2 [OF 2] managed]])
  next
    case 3
    then show ?thesis using start by (simp add: system_reach_def system_new_def)
  qed
  moreover have "server_reach av ul ord s"
    using life by (auto simp: process_ok_def intro: server_reach_step server_step.life)
  moreover have "pr_system (p\<lparr>pr_server := s\<rparr>) = system_new" if "sv_run s = RunStarting"
    using server_life_starting [OF life(1) ok that] start by (simp add: pr_system_def)
  ultimately show ?case unfolding process_ok_def new by simp
next
  case (service p y)
  have "sys_manager y = sv_manager (pr_server p) \<or>
      (\<exists>ended. server_work ended av ul ord (sv_manager (pr_server p)) (sys_manager y))"
    using system_work_manager [OF service(3)] by (simp add: pr_system_def server_sources_service)
  then have "server_reach av ul ord ((pr_server p)\<lparr>sv_manager := sys_manager y\<rparr>)"
  proof (elim disjE exE)
    fix ended
    assume "server_work ended av ul ord (sv_manager (pr_server p)) (sys_manager y)"
    from server_step.work [OF service(1,2) this] show ?thesis
      using service(4) by (auto simp: process_ok_def intro: server_reach_step)
  next
    assume "sys_manager y = sv_manager (pr_server p)"
    then have "(pr_server p)\<lparr>sv_manager := sys_manager y\<rparr> = pr_server p" by simp
    then show ?thesis using service(4) by (simp add: process_ok_def)
  qed
  moreover have "system_reach ul S net av SERVER_DEPTH (\<lambda>_. ord) build_instrument_map y"
    using service(4) system_work_step [OF service(3)]
    by (auto simp: process_ok_def intro: system_reach_step)
  moreover have "pr_system \<lparr>pr_server = (pr_server p)\<lparr>sv_manager := sys_manager y\<rparr>, pr_sources = sys_sources y\<rparr> = y"
    by (simp add: pr_system_def)
  ultimately show ?case using service(2) by (auto simp: process_ok_def)
qed

lemma process_reach_ok:
  assumes "process_reach ul S net av ord p"
  shows "process_ok ul S net av ord p"
  using assms unfolding process_reach_def
proof (induction rule: rtranclp_induct)
  case base
  then show ?case
    by (simp add: process_ok_def process_start_def pr_system_def server_reach_def system_reach_def
        system_new_def) (simp add: server_start_def)
next
  case (step p p')
  show ?case by (rule process_step_ok [OF step(2,3)])
qed

subsection \<open>The instruments of the feeds\<close>

text \<open>Every feed a manager has made is of an instrument of its map; the map of the binary has one.\<close>

lemma manager_work_instruments:
  assumes "manager_step av n cs im m m'" "\<forall>fd \<in> set (mg_heap m). fd_instrument fd \<in> ran im"
  shows "\<forall>fd \<in> set (mg_heap m'). fd_instrument fd \<in> ran im"
proof -
  have "length (mg_heap m') = length (mg_heap m) \<or>
      (\<exists>s i k. instrument_map_get im s = Some i \<and> mg_heap m' = mg_heap m @ [new_feed i (publisher_start n) k])"
    using assms(1)
  proof (induction rule: manager_step.induct)
    case (work m m')
    then show ?case
    proof (induction rule: manager_work.induct)
      case (request symbol m r m')
      then show ?case by (cases rule: open_summary_stream_cases) auto
    next
      case (client k m ev m')
      show ?case using client(2) by (cases rule: client_step_cases) auto
    next
      case (shut k m m')
      then show ?case by (auto simp: shutdown_step_def Let_def split: list.splits option.splits)
    qed simp_all
  qed (simp_all add: shutdown_flag_def shutdown_drain_def)
  then show ?thesis
  proof (elim disjE exE conjE)
    assume same: "length (mg_heap m') = length (mg_heap m)"
    then have "fd_instrument (mg_heap m' ! g) = fd_instrument (mg_heap m ! g)" if "g < length (mg_heap m)" for g
      using manager_step_heap [OF assms(1)] that by (simp add: heap_grows_def)
    then show ?thesis using assms(2) same by (simp add: all_set_conv_all_nth)
  next
    fix s i k
    assume "instrument_map_get im s = Some i" "mg_heap m' = mg_heap m @ [new_feed i (publisher_start n) k]"
    then show ?thesis using assms(2) by (auto simp: instrument_map_get_def new_feed_def intro: ranI)
  qed
qed

lemma manager_instruments:
  assumes "manager_reach av n cs im m" "fid < length (mg_heap m)"
  shows "fd_instrument (mg_heap m ! fid) \<in> ran im"
proof -
  have "\<forall>fd \<in> set (mg_heap m). fd_instrument fd \<in> ran im"
    using assms(1) unfolding manager_reach_def
  proof (induction rule: rtranclp_induct)
    case (step m m')
    show ?case by (rule manager_work_instruments [OF step(2,3)])
  qed (simp add: manager_new_def)
  then show ?thesis using assms(2) by simp
qed

lemma build_instrument_map_ran: "ran build_instrument_map = {default_instrument}"
  by (simp add: build_instrument_map_def instrument_map_new_def default_instrument_def Let_def ran_def)

subsection \<open>What a client of the binary is sent\<close>

text \<open>An exchange's part of a book: none yet, or a message of its feed for the one instrument, which the
  server at the address of the exchange sends.\<close>

definition exchange_book :: "'j serde_json \<Rightarrow> wire \<Rightarrow> source_id \<Rightarrow> contributor_snapshot \<Rightarrow> bool" where
  "exchange_book S net src s \<longleftrightarrow> s = snapshot_default SERVER_DEPTH \<or>
     (\<exists>message clock. 0 \<le> clock \<and>
        (case src of
           Bitstamp \<Rightarrow> wr_sends net ''wss://ws.bitstamp.net'' message \<and>
             parse_bitstamp_update S SERVER_DEPTH message ''order_book_ethbtc'' (word_of_int clock) = okP (Some s)
         | Binance \<Rightarrow> wr_sends net ''wss://stream.binance.com:9443/ws/ethbtc@depth20@100ms'' message \<and>
             binance_parse_orderbook_update S SERVER_DEPTH message (word_of_int clock) = okP s))"

lemma contributed_exchange_book:
  assumes "contributed ul S net SERVER_DEPTH default_instrument src s"
  shows "exchange_book S net src s"
proof -
  have "to_lowercase ul ''ethbtc'' = ''ethbtc''" "to_lowercase ul ''ETHBTC'' = ''ethbtc''"
    unfolding to_lowercase_def by code_simp+
  then show ?thesis
    using assms
    by (cases src) (auto simp: contributed_def delivered_def exchange_book_def exchange_parser_of_def
        exchange_address_def feed_key_def default_instrument_def instrument_new_def tryP_eq_ok
        binance_parser_def bitstamp_parser_def
        split: option.splits)
qed

lemma process_summary_sound:
  assumes "process_reach ul S net av ord p" "iteration_order ord" "arrayvec_push_spec av"
    and "ct \<in> set (mg_clients (sv_manager (pr_server p)))" "sm \<in> set (sb_sent (ct_subscriber ct))"
  shows "sound_summary ul S net av SERVER_DEPTH default_instrument sm"
proof -
  let ?y = "pr_system p"
  have reach: "system_reach ul S net av SERVER_DEPTH (\<lambda>_. ord) build_instrument_map ?y"
    using process_reach_ok [OF assms(1)] by (simp add: process_ok_def)
  have map: "symbols_match build_instrument_map"
    by (simp add: build_instrument_map_def symbols_match_new Let_def)
  have ct: "ct \<in> set (mg_clients (sys_manager ?y))" using assms(4) by (simp add: pr_system_def)
  have ok: "system_ok ul S net av SERVER_DEPTH (\<lambda>_. ord) build_instrument_map ?y"
    using system_reach_ok [OF reach] assms(2) by simp
  have "fd_instrument (mg_heap (sys_manager ?y) ! ct_feed ct) \<in> ran build_instrument_map"
    using manager_instruments [OF _ client_feed_known [OF ok map ct]] ok by (auto simp: system_ok_def)
  then have "fd_instrument (mg_heap (sys_manager ?y) ! ct_feed ct) = default_instrument"
    by (simp add: build_instrument_map_ran)
  moreover have "clients_sound ul S net av SERVER_DEPTH (sys_manager ?y)"
    using system_reach_sound [OF reach _ assms(3) map] assms(2) by simp
  ultimately show ?thesis using ct assms(5) by (auto simp: clients_sound_def)
qed

end
