(* ===== verification/Process_Run.thy ===== *)
theory Process_Run
  imports Server_Process
begin

section \<open>A run of the binary\<close>

text \<open>
  One run of the whole process from its start: the server comes up, a client asks for the default
  stream, the feed to Binance connects and reads one book, the source task passes it to the publisher,
  which merges it, and the task of the client sends the summary. The Bitstamp feed stays connecting.
\<close>

definition run_order :: "source_id list" where
  "run_order = [Bitstamp, Binance]"

lemma run_order_ok: "iteration_order run_order"
  by (auto simp: run_order_def iteration_order_def UNIV_source_id)

text \<open>The binary with one feed and one client.\<close>

definition run_system :: "pipeline \<Rightarrow> 64 word \<Rightarrow> subscriber \<Rightarrow> system" where
  "run_system p c sb =
     \<lparr>sys_manager = manager_new\<lparr>mg_feeds := [''ETH-BTC'' \<mapsto> 0],
        mg_heap := [(new_feed default_instrument (pl_publisher p) 2)\<lparr>fd_subscriptions := c\<rparr>],
        mg_clients := [\<lparr>ct_feed = 0, ct_subscriber = sb\<rparr>]\<rparr>,
      sys_sources = [pl_sources p]\<rparr>"

definition run_process :: "system \<Rightarrow> process" where
  "run_process y =
     \<lparr>pr_server = server_at Listening (RunServing 0) (MtListening 0) (sys_manager y), pr_sources = sys_sources y\<rparr>"

abbreviation run_work :: "system \<Rightarrow> system \<Rightarrow> bool" where
  "run_work \<equiv> system_work id example_json example_net list_push SERVER_DEPTH (\<lambda>_. run_order) build_instrument_map"

abbreviation run_reach :: "system \<Rightarrow> bool" where
  "run_reach y \<equiv> process_reach id example_json example_net list_push run_order (run_process y)"

lemma run_system_process: "pr_system (run_process y) = y"
  by (simp add: run_process_def pr_system_def)

lemma run_step_reach:
  assumes "run_reach y" "run_work y y'"
  shows "run_reach y'"
proof -
  have "process_step id example_json example_net list_push run_order (run_process y) (run_process y')"
    using process_step.service [where p = "run_process y" and ul = id and S = example_json
        and net = example_net and av = list_push and ord = run_order and y = y'] assms(2)
    by (simp add: run_system_process) (simp add: run_process_def server_at_def)
  with assms(1) show ?thesis by (auto simp: process_reach_def intro: rtranclp.rtrancl_into_rtrancl)
qed

text \<open>The server comes up.\<close>

lemma run_serving: "run_reach system_new"
proof -
  let ?step = "process_step id example_json example_net list_push run_order"
  let ?at = "\<lambda>rp. \<lparr>pr_server = server_at Listening rp (MtListening 0) manager_new, pr_sources = []\<rparr>"
  have "server_life server_start (server_at Listening RunManaged (MtListening 0) manager_new)"
    by (rule server_life.run)
      (simp_all add: server_at_simps server_start_def ctrl_c_shutdown_signal_def broadcast_channel_def)
  then have "?step process_start (?at RunManaged)"
    using process_step.life [where p = process_start and ul = id and S = example_json and net = example_net
        and av = list_push and ord = run_order]
    by (simp add: process_start_def)
  moreover have "server_life (server_at Listening RunManaged (MtListening 0) manager_new)
      (server_at Listening (RunServing 0) (MtListening 0) manager_new)"
    by (rule server_life.run) (simp_all add: server_at_simps)
  then have "?step (?at RunManaged) (?at (RunServing 0))"
    using process_step.life [where p = "?at RunManaged" and ul = id and S = example_json and net = example_net
        and av = list_push and ord = run_order]
    by simp
  ultimately show ?thesis
    by (simp add: process_reach_def run_process_def system_new_def)
qed

lemma run_pipe:
  assumes "run_reach (run_system p c sb)" "pipeline_move example_json example_net list_push SERVER_DEPTH p p'"
    and "pl_publisher p' = pl_publisher p \<or> publisher_moves list_push SERVER_DEPTH (pl_publisher p) (pl_publisher p')"
  shows "run_reach (run_system p' c sb)"
proof -
  have "pipeline_of (run_system p c sb) 0 = p" "set_pipeline 0 p' (run_system p c sb) = run_system p' c sb"
    by (simp_all add: pipeline_of_def set_pipeline_def run_system_def update_feed_def new_feed_def)
  then show ?thesis
    using run_step_reach [OF assms(1) system_work.pipe [of 0 _ _ _ _ _ p']] assms(2,3)
    by (simp add: run_system_def)
qed

lemma run_client:
  assumes "run_reach (run_system p c sb)"
    and "client_step 0 ev (sys_manager (run_system p c sb)) = Some (sys_manager (run_system p c' sb'))"
  shows "run_reach (run_system p c' sb')"
proof -
  let ?y = "run_system p c sb" and ?m = "sys_manager (run_system p c' sb')"
  have "manager_work (source_ended id SERVER_DEPTH (\<lambda>_. run_order) ?y) list_push SERVER_DEPTH (service_sources id SERVER_DEPTH (\<lambda>_. run_order))
      build_instrument_map (sys_manager ?y) ?m"
    by (rule manager_work.client [OF _ assms(2)]) (simp add: run_system_def)
  moreover have "feeds_managed (sys_manager ?y) ?m"
    by (simp add: feeds_managed_def run_system_def)
  ultimately have "run_work ?y (?y\<lparr>sys_manager := ?m\<rparr>)"
    by (rule system_work.manage)
  from run_step_reach [OF assms(1) this] show ?thesis by (simp add: run_system_def)
qed

subsection \<open>The default stream is opened\<close>

definition run_bitstamp :: feed_task where
  "run_bitstamp = \<lparr>ft_key = ''order_book_ethbtc'', ft_phase = Connecting ''wss://ws.bitstamp.net'',
     ft_address = '''', ft_feed = feed_new, ft_sent = []\<rparr>"

definition run_started :: feed_task where
  "run_started = \<lparr>ft_key = ''ethbtc'', ft_phase = Connecting (binance_url ''ethbtc''),
     ft_address = '''', ft_feed = feed_new, ft_sent = []\<rparr>"

definition run_pipeline :: "feed_task \<Rightarrow> nat \<Rightarrow> source_task_phase \<Rightarrow> publisher \<Rightarrow> pipeline" where
  "run_pipeline t seen ph pb =
     \<lparr>pl_sources = [Bitstamp \<mapsto> (run_bitstamp, Some (source_task_new feed_new)),
        Binance \<mapsto> (t, Some \<lparr>st_seen = seen, st_phase = ph\<rparr>)],
      pl_publisher = pb\<rparr>"

lemma run_pipeline_sel [simp]:
  "pl_sources (run_pipeline t seen ph pb) Binance = Some (t, Some \<lparr>st_seen = seen, st_phase = ph\<rparr>)"
  "pl_publisher (run_pipeline t seen ph pb) = pb"
  "(run_pipeline t seen ph pb)\<lparr>pl_publisher := pb'\<rparr> = run_pipeline t seen ph pb'"
  "set_source (run_pipeline t seen ph pb) Binance t' (Some \<lparr>st_seen = seen', st_phase = ph'\<rparr>) =
    run_pipeline t' seen' ph' pb"
  by (simp_all add: run_pipeline_def)

lemma run_lowercase: "to_lowercase id ''ethbtc'' = ''ethbtc''"
  by code_simp

lemma run_sources:
  "service_sources id SERVER_DEPTH (\<lambda>_. run_order) default_instrument =
    okP [(\<lparr>src_id = Bitstamp, src_task = run_bitstamp\<rparr>, source_task_new feed_new),
         (\<lparr>src_id = Binance, src_task = run_started\<rparr>, source_task_new feed_new)]"
  by (simp add: service_sources_def start_summary_sources_def shipped_factories_ok source_mapping_iter_def
      run_order_def default_instrument_def instrument_new_def List.map_filter_def spawn_source_task_def
      shipped_task_def example_lowercase run_lowercase run_started_def run_bitstamp_def task_new_def
      bitstamp_channel_def SERVER_DEPTH_def)

lemma run_requested:
  "system_request id SERVER_DEPTH (\<lambda>_. run_order) build_instrument_map ''ETH-BTC'' system_new =
    (okP 0, run_system (run_pipeline run_started 0 StChecking (publisher_start SERVER_DEPTH)) 0 subscriber_new)"
  by (simp add: system_request_def open_summary_stream_def manager_open_def system_new_def manager_new_def
      default_lookup [unfolded SYMBOL_ETH_BTC_def] run_sources Let_def sources_of_feed_def new_feed_def
      started_pipeline_def run_system_def pipeline_new_def run_pipeline_def source_task_new_def feed_new_def)

text \<open>The task of the client gets to its loop before there is a summary.\<close>

definition run_client_task :: "subscriber_phase \<Rightarrow> nat \<Rightarrow> summary list \<Rightarrow> subscriber" where
  "run_client_task ph seen ss = \<lparr>sb_phase = ph, sb_shutdown_from = 0, sb_seen = seen, sb_sent = ss\<rparr>"

lemmas run_client_simps = client_step_def run_system_def publish_step_def on_subscribe_def update_feed_def
  Let_def new_feed_def manager_new_def notify_grace_def run_client_task_def feed_view_of_def

lemma run_client_waits:
  assumes "run_reach (run_system p 0 subscriber_new)" "latest_summary (pl_publisher p) = Inr None"
    and "pb_version (pl_publisher p) = 0"
  shows "run_reach (run_system p 1 (run_client_task SbWaiting 0 []))"
proof -
  have "run_reach (run_system p 1 (run_client_task SbSubscribed 0 []))"
    by (rule run_client [OF assms(1), where ev = SbNext]) (simp add: run_client_simps subscriber_new_def)
  then have "run_reach (run_system p 1 (run_client_task SbReading 0 []))"
    by (rule run_client [where ev = SbNext]) (simp add: run_client_simps)
  then have "run_reach (run_system p 1 (run_client_task SbWatching 0 []))"
    by (rule run_client [where ev = SbNext]) (simp add: run_client_simps assms(2))
  then show ?thesis
    by (rule run_client [where ev = SbNext]) (simp add: run_client_simps assms(3))
qed

lemma run_opened:
  "run_reach (run_system (run_pipeline run_started 0 StChecking (publisher_start SERVER_DEPTH)) 1
     (run_client_task SbWaiting 0 []))"
proof -
  have "run_work system_new
      (run_system (run_pipeline run_started 0 StChecking (publisher_start SERVER_DEPTH)) 0 subscriber_new)"
    by (rule system_work.request [OF run_requested])
  from run_step_reach [OF run_serving this] show ?thesis
    by (rule run_client_waits) (simp_all add: publisher_start_def latest_summary_def)
qed

subsection \<open>A book arrives\<close>

definition run_book :: contributor_snapshot where
  "run_book = push_bid 10 (push_bid 10 (snapshot_new 10 Binance 7)
     0x4059000000000000 0x3FF0000000000000) 0x4058C00000000000 0x3FF0000000000000"

definition run_streaming :: feed_task where
  "run_streaming = \<lparr>ft_key = ''ethbtc'', ft_phase = Streaming,
     ft_address = binance_url ''ethbtc'', ft_feed = \<lparr>latest = Some (Inr run_book), watch_version = 1\<rparr>, ft_sent = [FramePing]\<rparr>"

lemma run_parse: "binance_parse_orderbook_update example_json 10 ''book'' 7 = okP run_book"
proof -
  have "json_side example_json (JObj [(''bids'', example_entries)]) ''bids'' =
      [JArr [JStr ''100'', JStr ''1''], JArr [JStr ''99'', JStr ''0''], JArr [JStr ''99'', JStr ''1'']]"
    by (simp add: json_side_def example_entries_def)
  then show ?thesis
    by (simp add: binance_parse_alt js_parse_def example_side(1) load_levels_def one_is_positive run_book_def)
qed

lemma run_exchange:
  "run_task (wired_step example_json example_net SERVER_DEPTH Binance) run_started binance_script = Some run_streaming"
  by (simp add: wired_step_def example_net_def exchange_step_def binance_script_def binance_step_def streaming_step_def binance_on_text_def
      nanos_now_def run_parse store_latest_def feed_new_def run_started_def run_streaming_def SERVER_DEPTH_def)

lemma run_merge: "\<exists>sm. to_proto list_push 10 (book_of 10 [run_book]) = Inr sm \<and> sm_bids sm \<noteq> []"
proof -
  have wf: "\<forall>s \<in> set [run_book]. snapshot_wf 10 s" by code_simp
  have num: "\<forall>s \<in> set [run_book]. amounts_are_numbers s" by code_simp
  have few: "\<not> too_many_levels 10 (book_of 10 [run_book])" by code_simp
  obtain sm where sm: "to_proto list_push 10 (book_of 10 [run_book]) = Inr sm"
    "summary_spec 10 (book_of 10 [run_book]) sm"
    using to_proto_outcome [OF book_of_wf [OF wf] list_push_spec] few book_of_numbers [OF num, of 10]
    by auto
  have bids: "all_bids (book_of 10 [run_book]) \<noteq> []" by code_simp
  have "sm_bids sm \<noteq> []"
    using side_spec_first [of bid_order 10 "all_bids (book_of 10 [run_book])" "sm_bids sm"]
      sm(2) bids by (auto simp: summary_spec_def)
  then show ?thesis using sm(1) by blast
qed

text \<open>The source task, the publisher and the task of the client pass the book on.\<close>

lemma run_source:
  assumes "run_reach (run_system (run_pipeline t seen ph pb) c sb)" "ev = StPoll \<or> ev = StChanged"
    and "source_task_step (ft_feed t) \<lparr>st_seen = seen, st_phase = ph\<rparr> ev = Some \<lparr>st_seen = seen', st_phase = ph'\<rparr>"
  shows "run_reach (run_system (run_pipeline t seen' ph' pb) c sb)"
proof -
  have "pipeline_move example_json example_net list_push SERVER_DEPTH (run_pipeline t seen ph pb) (run_pipeline t seen' ph' pb)"
    using pipeline_move.source [OF run_pipeline_sel(1) [of t seen ph pb] _ assms(3),
        where S = example_json and net = example_net and av = list_push and n = SERVER_DEPTH] assms(2)
    by auto
  from run_pipe [OF assms(1) this] show ?thesis by simp
qed

lemma run_fed:
  assumes "run_task (wired_step example_json example_net SERVER_DEPTH Binance) t evs = Some t'"
    and "run_reach (run_system (run_pipeline t seen ph pb) c sb)"
  shows "run_reach (run_system (run_pipeline t' seen ph pb) c sb)"
  using assms(1)
proof (induction rule: run_task_induct)
  case (step evs u ev u')
  have move: "pipeline_move example_json example_net list_push SERVER_DEPTH (run_pipeline u seen ph pb) (run_pipeline u' seen ph pb)"
    using pipeline_move.exchange [OF run_pipeline_sel(1) [of u seen ph pb] step(2), where av = list_push] by simp
  show ?case by (rule run_pipe [OF step(3) move]) simp
qed (rule assms(2))

definition run_sent :: "summary \<Rightarrow> publisher" where
  "run_sent sm = publish_result (Inr (Some sm))
     ((publisher_start SERVER_DEPTH)\<lparr>pb_phase := Running (book_of SERVER_DEPTH [run_book])\<rparr>)"

lemma run_delivers:
  "\<exists>sm. to_proto list_push SERVER_DEPTH (book_of SERVER_DEPTH [run_book]) = Inr sm \<and> sm_bids sm \<noteq> [] \<and>
    run_reach (run_system (run_pipeline run_streaming 1 StWaiting (run_sent sm)) 1
      (run_client_task SbWaiting 1 [sm]))"
proof -
  obtain sm where sm: "to_proto list_push SERVER_DEPTH (book_of SERVER_DEPTH [run_book]) = Inr sm" "sm_bids sm \<noteq> []"
    using run_merge unfolding SERVER_DEPTH_def by blast
  let ?new = "publisher_start SERVER_DEPTH"
  let ?R = "\<lambda>t seen ph pb. run_reach (run_system (run_pipeline t seen ph pb) 1 (run_client_task SbWaiting 0 []))"
  have "?R run_started 0 StWaiting ?new"
    by (rule run_source [OF run_opened, of StPoll]) (simp_all add: run_started_def feed_new_def)
  from run_fed [OF run_exchange this] have "?R run_streaming 0 StWaiting ?new" .
  then have "?R run_streaming 1 StChecking ?new"
    by (rule run_source [of _ _ _ _ _ _ StChanged]) (simp_all add: run_streaming_def)
  then have sending: "?R run_streaming 1 (StSending run_book) ?new"
    by (rule run_source [of _ _ _ _ _ _ StPoll]) (simp_all add: run_streaming_def)
  let ?pb = "?new\<lparr>pb_queue := [run_book]\<rparr>"
  have send: "source_send ?new run_book = Some (Inr ?pb)"
    by (simp add: source_send_def receiver_open_def publisher_start_def BACKLOG_SIZE_def)
  have "pipeline_move example_json example_net list_push SERVER_DEPTH
      (run_pipeline run_streaming 1 (StSending run_book) ?new) (run_pipeline run_streaming 1 StWaiting ?pb)"
    using pipeline_move.sent [OF run_pipeline_sel(1) [of run_streaming 1 "StSending run_book" ?new], of run_book
        ?pb "\<lparr>st_seen = 1, st_phase = StWaiting\<rparr>", where S = example_json and net = example_net and av = list_push and n = SERVER_DEPTH] send
    by simp
  from run_pipe [OF sending this] send have sent: "?R run_streaming 1 StWaiting ?pb"
    by (auto simp: publisher_moves_def)
  have "update_snapshot (combined_new SERVER_DEPTH) run_book = Inr (book_of SERVER_DEPTH [run_book])"
    using update_book_of [of SERVER_DEPTH "[]"] by (simp add: combined_new_book_of)
  then have merge: "publisher_step list_push SERVER_DEPTH ?pb RecvSnapshot = Some (run_sent sm)"
    using sm(1) by (simp add: publisher_start_def run_sent_def)
  have move: "pipeline_move example_json example_net list_push SERVER_DEPTH
      (run_pipeline run_streaming 1 StWaiting ?pb) (run_pipeline run_streaming 1 StWaiting (run_sent sm))"
    using pipeline_move.merge [of list_push SERVER_DEPTH "run_pipeline run_streaming 1 StWaiting ?pb"
        RecvSnapshot "run_sent sm", where S = example_json and net = example_net] merge by simp
  have "publisher_moves list_push SERVER_DEPTH ?pb (run_sent sm)"
    unfolding publisher_moves_def using merge by blast
  then have "?R run_streaming 1 StWaiting (run_sent sm)"
    by (intro run_pipe [OF sent move]) simp
  then have "run_reach (run_system (run_pipeline run_streaming 1 StWaiting (run_sent sm)) 1 (run_client_task SbChecking 1 []))"
    by (rule run_client [where ev = SbChanged])
      (simp add: run_client_simps run_sent_def publish_result_def publisher_start_def)
  then have "run_reach (run_system (run_pipeline run_streaming 1 StWaiting (run_sent sm)) 1
      (run_client_task (SbSending sm) 1 []))"
    by (rule run_client [where ev = SbNext])
      (simp add: run_client_simps run_sent_def publish_result_def latest_summary_def)
  then have "run_reach (run_system (run_pipeline run_streaming 1 StWaiting (run_sent sm)) 1
      (run_client_task SbWaiting 1 [sm]))"
    by (rule run_client [where ev = "SbSend (SendCompleted (Inr ()))"])
      (simp add: run_client_simps send_summary_def)
  with sm show ?thesis by blast
qed

subsection \<open>Properties\<close>

text \<open>C2: end to end in the binary: every summary a client is sent, in whatever order the tasks of the
  process run, is the merge at depth 10 of a book of Bitstamp's channel order\_book\_ethbtc and a book that
  Binance sends at its address for ethbtc, each parsed from one message or still empty; it meets the specification of a summary, and
  every level has a positive amount and names one of the two exchanges.\<close>

theorem binary_sends_sound_summaries:
  assumes "process_reach ul S net av ord p" "iteration_order ord" "arrayvec_push_spec av"
    and "ct \<in> set (mg_clients (sv_manager (pr_server p)))" "sm \<in> set (sb_sent (ct_subscriber ct))"
  shows "\<exists>a b. exchange_book S net Bitstamp a \<and> exchange_book S net Binance b \<and>
    to_proto av 10 \<lparr>co_sources = [a, b]\<rparr> = Inr sm \<and> summary_spec 10 \<lparr>co_sources = [a, b]\<rparr> sm \<and>
    (\<forall>l \<in> set (sm_bids sm @ sm_asks sm). f64_gt (lv_amount l) f64_zero \<and>
      lv_exchange l \<in> {''bitstamp'', ''binance''})"
proof -
  obtain a b where ab: "contributed ul S net SERVER_DEPTH default_instrument Bitstamp a"
      "contributed ul S net SERVER_DEPTH default_instrument Binance b"
      "to_proto av SERVER_DEPTH \<lparr>co_sources = [a, b]\<rparr> = Inr sm"
    and levels: "\<forall>l \<in> set (sm_bids sm @ sm_asks sm). f64_gt (lv_amount l) f64_zero \<and>
      (\<exists>src \<in> dom (in_source_mapping default_instrument). lv_exchange l = source_id_fmt src)"
    using process_summary_sound [OF assms] unfolding sound_summary_def by blast
  have wf: "snapshot_wf SERVER_DEPTH s" if "contributed ul S net SERVER_DEPTH default_instrument src s" for src s
    using that deliveredD(2) [of ul S net SERVER_DEPTH default_instrument src s] by (auto simp: contributed_def)
  have "combined_wf SERVER_DEPTH \<lparr>co_sources = [a, b]\<rparr>"
    using wf [OF ab(1)] wf [OF ab(2)] by (simp add: combined_wf_def NUM_SOURCES_def)
  from to_proto_ok [OF this assms(3) ab(3)]
  have spec: "summary_spec SERVER_DEPTH \<lparr>co_sources = [a, b]\<rparr> sm" .
  have "lv_exchange l \<in> {''bitstamp'', ''binance''}" if mem: "l \<in> set (sm_bids sm @ sm_asks sm)" for l
  proof -
    obtain src where "lv_exchange l = source_id_fmt src" using bspec [OF levels mem] by auto
    then show ?thesis by (cases src) simp_all
  qed
  then have all: "\<forall>l \<in> set (sm_bids sm @ sm_asks sm). f64_gt (lv_amount l) f64_zero \<and>
      lv_exchange l \<in> {''bitstamp'', ''binance''}" using bspec [OF levels] by simp
  show ?thesis
    by (rule exI [of _ a], rule exI [of _ b], intro conjI contributed_exchange_book [OF ab(1)]
        contributed_exchange_book [OF ab(2)] spec [unfolded SERVER_DEPTH_def] ab(3) [unfolded SERVER_DEPTH_def] all)
qed

theorem binary_sends_sound_summaries_witness:
  "\<exists>sm a b. to_proto list_push 10 \<lparr>co_sources = [a, b]\<rparr> = Inr sm \<and> exchange_book example_json example_net Binance b \<and>
    sm_bids sm \<noteq> [] \<and> run_reach (run_system (run_pipeline run_streaming 1 StWaiting (run_sent sm)) 1
      (run_client_task SbWaiting 1 [sm]))"
proof -
  obtain sm where sm: "sm_bids sm \<noteq> []"
    "run_reach (run_system (run_pipeline run_streaming 1 StWaiting (run_sent sm)) 1
      (run_client_task SbWaiting 1 [sm]))" (is "run_reach ?y")
    using run_delivers by blast
  have "\<lparr>ct_feed = 0, ct_subscriber = run_client_task SbWaiting 1 [sm]\<rparr> \<in>
      set (mg_clients (sv_manager (pr_server (run_process ?y))))"
    by (simp add: run_process_def run_system_def)
  from binary_sends_sound_summaries [OF sm(2) run_order_ok list_push_spec this, of sm]
  obtain a b where "to_proto list_push 10 \<lparr>co_sources = [a, b]\<rparr> = Inr sm" "exchange_book example_json example_net Binance b"
    by (auto simp: run_client_task_def)
  with sm show ?thesis by blast
qed

end
