(* ===== verification/Stranded_Tasks.thy ===== *)
theory Stranded_Tasks
  imports Process_Run
begin

section \<open>Tasks that wait for ever (service/manager.rs in the binary)\<close>

text \<open>
  Two ways in which a task of the binary is left behind by a shutdown. The shutdown of a feed waits for
  its source tasks one after another, and one that waits for a change of a source whose exchange task has
  ended never ends. A client whose task subscribes to a feed that has been shut down already waits for a
  signal that it has missed. Both are shown to last through every later step of the whole process.
\<close>

subsection \<open>What a step of the process does to the manager\<close>

definition manager_goes_on ::
  "av_push \<Rightarrow> (string \<Rightarrow> string) \<Rightarrow> source_id list \<Rightarrow> manager \<Rightarrow> manager \<Rightarrow> bool" where
  "manager_goes_on av ul ord m m' \<longleftrightarrow> m' = m \<or> (\<exists>ended. server_work ended av ul ord m m') \<or> own_shutdown m m'"

lemma process_step_manager:
  assumes "process_step ul S net av ord p p'" "process_ok ul S net av ord p" "sv_run (pr_server p) \<noteq> RunStarting"
  shows "sv_run (pr_server p') \<noteq> RunStarting"
    "manager_goes_on av ul ord (sv_manager (pr_server p)) (sv_manager (pr_server p'))"
proof -
  have "sv_run (pr_server p') \<noteq> RunStarting \<and>
      manager_goes_on av ul ord (sv_manager (pr_server p)) (sv_manager (pr_server p'))"
    using assms
  proof (induction rule: process_step.induct)
    case (life p s)
    have "server_ok (pr_server p)" using life(2) server_reach_ok by (auto simp: process_ok_def)
    from server_life_manager [OF life(1) this] server_life_starting [OF life(1) this] life(3) show ?case
      by (auto simp: manager_goes_on_def)
  next
    case (service p y)
    then show ?case
      using system_work_manager [OF service(3)] by (auto simp: manager_goes_on_def pr_system_def server_sources_service)
  qed
  then show "sv_run (pr_server p') \<noteq> RunStarting"
    "manager_goes_on av ul ord (sv_manager (pr_server p)) (sv_manager (pr_server p'))" by simp_all
qed

subsection \<open>A client of a closed feed\<close>

text \<open>A feed that has been closed: it is not in the map, its publisher has finished, and no shutdown will
  signal it again.\<close>

definition signalled :: "nat \<Rightarrow> shutdown_task \<Rightarrow> bool" where
  "signalled fid t \<longleftrightarrow>
     (fid \<in> set (sd_feeds t) \<longrightarrow> hd (sd_feeds t) = fid \<and> sd_phase t \<noteq> SdLocking \<and> fid \<notin> set (tl (sd_feeds t)))"

definition feed_closed :: "nat \<Rightarrow> manager \<Rightarrow> bool" where
  "feed_closed fid m \<longleftrightarrow> fid < length (mg_heap m) \<and> fid \<notin> ran (mg_feeds m) \<and>
     pb_phase (fd_publisher (mg_heap m ! fid)) = Finished \<and> (\<forall>t \<in> set (mg_shutdowns m). signalled fid t)"

text \<open>What a client of the feed sees of it.\<close>

abbreviation same_view :: "nat \<Rightarrow> manager \<Rightarrow> manager \<Rightarrow> bool" where
  "same_view fid m m' \<equiv> feed_view_of (mg_heap m' ! fid) = feed_view_of (mg_heap m ! fid)"

lemma finished_moves:
  assumes "publisher_moves av n pb pb'" "pb_phase pb = Finished"
  shows "pb_phase pb' = Finished \<and> pb_latest pb' = pb_latest pb \<and> pb_version pb' = pb_version pb"
  using assms unfolding publisher_moves_def
proof (elim disjE exE)
  fix ev
  assume "publisher_step av n pb ev = Some pb'"
  then show ?thesis using assms(2) by (cases ev) simp_all
qed (auto simp: source_send_def receiver_open_def store_handle_def wait_complete_def split: if_splits)

lemma signalled_append: "fid \<notin> set fs \<Longrightarrow> signalled fid \<lparr>sd_feeds = fs, sd_phase = ph\<rparr>"
  by (simp add: signalled_def)

lemma feed_shutdown_step_closed:
  assumes "feed_shutdown_step ended ph fd = Some (fd', ph')" "ph \<noteq> SdLocking"
    "pb_phase (fd_publisher fd) = Finished"
  shows "feed_view_of fd' = feed_view_of fd \<and> pb_phase (fd_publisher fd') = Finished \<and> ph' \<noteq> Some SdLocking"
  using assms
  by (induction ended ph fd rule: feed_shutdown_step.induct)
    (auto simp: feed_view_of_def latest_summary_def wait_complete_def split: if_splits)

lemma shutdown_step_closed:
  assumes "shutdown_step ended j m = Some m'" "j < length (mg_shutdowns m)" "feed_closed fid m"
  shows "feed_closed fid m' \<and> same_view fid m m'"
proof -
  let ?t = "mg_shutdowns m ! j"
  obtain g rest where feeds: "sd_feeds ?t = g # rest"
    using assms(1) by (auto simp: shutdown_step_def Let_def split: list.splits)
  obtain fd ph where step: "feed_shutdown_step (ended g) (sd_phase ?t) (mg_heap m ! g) = Some (fd, ph)"
    using assms(1) feeds by (auto simp: shutdown_step_def Let_def split: option.splits)
  define t' where "t' = (case ph of Some p \<Rightarrow> ?t\<lparr>sd_phase := p\<rparr> | None \<Rightarrow> \<lparr>sd_feeds = rest, sd_phase = SdLocking\<rparr>)"
  have m': "m' = update_feed g (\<lambda>_. fd) (m\<lparr>mg_shutdowns := (mg_shutdowns m)[j := t']\<rparr>)"
    using assms(1) feeds step by (simp add: shutdown_step_def Let_def t'_def)
  have old: "signalled fid ?t" using assms(2,3) by (simp add: feed_closed_def)
  have heap: "mg_heap m' ! fid = (if fid = g then fd else mg_heap m ! fid)"
    using assms(3) by (simp add: m' feed_closed_def update_feed_def nth_list_update)
  have "same_view fid m m' \<and> pb_phase (fd_publisher (mg_heap m' ! fid)) = Finished \<and> signalled fid t'"
  proof (cases "fid = g")
    case True
    then have "sd_phase ?t \<noteq> SdLocking" "fid \<notin> set rest" using old feeds by (auto simp: signalled_def)
    then show ?thesis
      using feed_shutdown_step_closed [OF step] assms(3) True feeds heap
      by (auto simp: feed_closed_def t'_def signalled_def split: option.splits)
  next
    case False
    then have "fid \<notin> set rest" using old feeds by (auto simp: signalled_def)
    then show ?thesis using False assms(3) feeds heap
      by (auto simp: feed_closed_def t'_def signalled_def split: option.splits)
  qed
  moreover have "\<forall>t \<in> set (mg_shutdowns m'). t = t' \<or> t \<in> set (mg_shutdowns m)"
    using set_update_subset_insert [of "mg_shutdowns m" j t'] by (auto simp: m')
  ultimately show ?thesis
    using assms(3) by (auto simp: feed_closed_def) (auto simp: m')
qed

text \<open>A client that waits on such a feed, having seen its last version and missed its signal.\<close>

definition client_stuck :: "nat \<Rightarrow> manager \<Rightarrow> bool" where
  "client_stuck k m \<longleftrightarrow> k < length (mg_clients m) \<and>
     (let ct = mg_clients m ! k; sb = ct_subscriber ct; v = feed_view_of (mg_heap m ! ct_feed ct)
      in feed_closed (ct_feed ct) m \<and> sb_phase sb = SbWaiting \<and> sb_seen sb = vw_version v \<and>
         sb_shutdown_from sb = vw_shutdowns v)"

lemma client_stuck_step: "client_stuck k m \<Longrightarrow> client_step k ev m = None"
  by (cases ev) (simp_all add: client_stuck_def client_step_def publish_step_def shutdown_pending_def Let_def)

lemma client_stuck_keeps:
  assumes "client_stuck k m" "k < length (mg_clients m')" "mg_clients m' ! k = mg_clients m ! k"
    "feed_closed (ct_feed (mg_clients m ! k)) m'" "same_view (ct_feed (mg_clients m ! k)) m m'"
  shows "client_stuck k m' \<and> mg_clients m' ! k = mg_clients m ! k"
  using assms by (simp add: client_stuck_def Let_def)

lemma feed_closed_other:
  assumes "feed_closed fid m" "mg_heap m' ! fid = mg_heap m ! fid" "length (mg_heap m) \<le> length (mg_heap m')"
    "fid \<notin> ran (mg_feeds m')" "\<forall>t \<in> set (mg_shutdowns m'). t \<in> set (mg_shutdowns m) \<or> fid \<notin> set (sd_feeds t)"
  shows "feed_closed fid m' \<and> same_view fid m m'"
  using assms by (auto simp: feed_closed_def signalled_def)

lemma ran_drop: "x \<in> ran (f(s := None)) \<Longrightarrow> x \<in> ran f"
  by (auto simp: ran_def split: if_splits)

lemma ran_map_filter: "x \<in> set (List.map_filter f xs) \<Longrightarrow> x \<in> ran f"
  by (induction xs) (auto simp: List.map_filter_simps intro: ranI split: option.splits)

lemma client_step_closed:
  assumes "client_step j ev m = Some m'" "client_stuck k m"
  shows "mg_clients m' ! k = mg_clients m ! k \<and> length (mg_clients m') = length (mg_clients m) \<and>
    feed_closed (ct_feed (mg_clients m ! k)) m' \<and> same_view (ct_feed (mg_clients m ! k)) m m'"
proof -
  let ?fid = "ct_feed (mg_clients m ! k)"
  have "j \<noteq> k" using assms client_stuck_step by fastforce
  have closed: "feed_closed ?fid m" using assms(2) by (simp add: client_stuck_def Let_def)
  from assms(1) show ?thesis
  proof (cases rule: client_step_cases)
    case (1 ct m1 sb)
    from 1(4) have rest: "mg_clients m' = (mg_clients m)[j := ct\<lparr>ct_subscriber := sb\<rparr>]"
      "mg_feeds m' = mg_feeds m" "mg_shutdowns m' = mg_shutdowns m"
      by (auto simp: 1(3) on_subscribe_def on_unsubscribe_def Let_def)
    from 1(4) consider "mg_heap m' = mg_heap m"
      | c where "mg_heap m' = (mg_heap m)[ct_feed ct := (mg_heap m ! ct_feed ct)\<lparr>fd_subscriptions := c\<rparr>]"
      by (force simp: 1(3))
    then have "length (mg_heap m') = length (mg_heap m) \<and>
        fd_publisher (mg_heap m' ! ?fid) = fd_publisher (mg_heap m ! ?fid) \<and>
        fd_shutdowns (mg_heap m' ! ?fid) = fd_shutdowns (mg_heap m ! ?fid)"
      using closed by cases (simp, cases "ct_feed ct = ?fid", auto simp: feed_closed_def)
    then show ?thesis using closed rest \<open>j \<noteq> k\<close>
      by (simp add: feed_closed_def feed_view_of_def)
  qed
qed

lemma publisher_moves_closed:
  assumes "publisher_moves av n (fd_publisher (mg_heap m ! g)) pb" "feed_closed fid m"
  shows "feed_closed fid (update_feed g (\<lambda>fd. fd\<lparr>fd_publisher := pb\<rparr>) m) \<and>
    same_view fid m (update_feed g (\<lambda>fd. fd\<lparr>fd_publisher := pb\<rparr>) m)"
proof (cases "g = fid")
  case True
  then show ?thesis
    using assms finished_moves [OF assms(1)]
    by (auto simp: feed_closed_def feed_view_of_def latest_summary_def update_feed_nth)
next
  case False
  then show ?thesis using assms(2) by (simp add: feed_closed_def update_feed_nth)
qed

lemma work_keeps_stuck:
  assumes "manager_work ended av n cs im m m'" "client_stuck k m"
  shows "client_stuck k m' \<and> mg_clients m' ! k = mg_clients m ! k"
  using assms
proof (induction rule: manager_work.induct)
  case (request symbol m r m')
  have k: "k < length (mg_clients m)" "feed_closed (ct_feed (mg_clients m ! k)) m"
    using request(2) by (simp_all add: client_stuck_def Let_def)
  from request(1) have "mg_shutdowns m' = mg_shutdowns m"
    by (cases rule: open_summary_stream_cases) simp_all
  moreover from request(1) k have "length (mg_heap m) \<le> length (mg_heap m')"
    "ct_feed (mg_clients m ! k) \<notin> ran (mg_feeds m')" "mg_clients m' ! k = mg_clients m ! k"
    "k < length (mg_clients m')"
    by (cases rule: open_summary_stream_cases; auto simp: feed_closed_def nth_append ran_def)+
  moreover have "mg_heap m' ! ct_feed (mg_clients m ! k) = mg_heap m ! ct_feed (mg_clients m ! k)"
    by (rule open_summary_stream_heap [OF request(1)]) (use k in \<open>simp add: feed_closed_def\<close>)
  ultimately show ?case
    using client_stuck_keeps [OF request(2)] feed_closed_other [OF k(2)] by simp
next
  case (client j m ev m')
  from client_step_closed [OF client(2,3)] client(3) show ?case
    by (intro client_stuck_keeps) (auto simp: client_stuck_def)
next
  case (publisher fid m pb)
  from publisher_moves_closed [OF publisher(2)] publisher(3) show ?case
    by (intro client_stuck_keeps) (auto simp: client_stuck_def Let_def)
next
  case (grace_fire j m)
  let ?m' = "remove_feed_if_unused (gr_feed (mg_grace m ! j)) (m\<lparr>mg_grace := drop_nth j (mg_grace m)\<rparr>)"
  have closed: "feed_closed (ct_feed (mg_clients m ! k)) m" "k < length (mg_clients m)"
    using grace_fire(2) by (simp_all add: client_stuck_def Let_def)
  have "ct_feed (mg_clients m ! k) \<notin> ran (mg_feeds ?m')" "\<forall>t \<in> set (mg_shutdowns ?m').
      t \<in> set (mg_shutdowns m) \<or> ct_feed (mg_clients m ! k) \<notin> set (sd_feeds t)"
    using closed(1)
    by (auto simp: remove_feed_if_unused_def Let_def feed_closed_def
        intro: ranI dest: ran_drop split: option.splits)
  then show ?case
    using closed feed_closed_other [OF closed(1), of ?m'] client_stuck_keeps [OF grace_fire(2), of ?m'] by simp
next
  case (shut j m m')
  from shutdown_step_closed [OF shut(2,1)] shutdown_step_heap(2) [OF shut(2)] shut(3) show ?case
    by (intro client_stuck_keeps) (auto simp: client_stuck_def Let_def)
qed (auto simp: client_stuck_def Let_def feed_closed_def)

lemma own_shutdown_keeps_stuck:
  assumes "own_shutdown m m'" "client_stuck k m"
  shows "client_stuck k m' \<and> mg_clients m' ! k = mg_clients m ! k"
proof -
  have closed: "feed_closed (ct_feed (mg_clients m ! k)) m" "k < length (mg_clients m)"
    using assms(2) by (simp_all add: client_stuck_def Let_def)
  have "mg_clients m' = mg_clients m" "mg_heap m' = mg_heap m"
    using assms(1) by (auto simp: own_shutdown_def shutdown_flag_def shutdown_drain_def)
  moreover have "ct_feed (mg_clients m ! k) \<notin> ran (mg_feeds m')"
    "\<forall>t \<in> set (mg_shutdowns m'). t \<in> set (mg_shutdowns m) \<or> ct_feed (mg_clients m ! k) \<notin> set (sd_feeds t)"
    using assms(1) closed(1)
    by (auto simp: own_shutdown_def shutdown_flag_def shutdown_drain_def feed_closed_def
        dest: ran_map_filter)
  ultimately show ?thesis
    using feed_closed_other [OF closed(1), of m'] closed(2) client_stuck_keeps [OF assms(2), of m'] by simp
qed

lemma process_keeps_stuck:
  assumes "(process_step ul S net av ord)\<^sup>*\<^sup>* p p'" "process_ok ul S net av ord p"
    "sv_run (pr_server p) \<noteq> RunStarting" "client_stuck k (sv_manager (pr_server p))"
  shows "client_stuck k (sv_manager (pr_server p')) \<and>
    mg_clients (sv_manager (pr_server p')) ! k = mg_clients (sv_manager (pr_server p)) ! k"
proof -
  from assms(1) have "process_ok ul S net av ord p' \<and> sv_run (pr_server p') \<noteq> RunStarting \<and>
      client_stuck k (sv_manager (pr_server p')) \<and>
      mg_clients (sv_manager (pr_server p')) ! k = mg_clients (sv_manager (pr_server p)) ! k"
  proof (induction rule: rtranclp_induct)
    case (step p' q)
    then have ok: "process_ok ul S net av ord p'" "sv_run (pr_server p') \<noteq> RunStarting"
      "client_stuck k (sv_manager (pr_server p'))" by simp_all
    note goes = process_step_manager [OF step(2) ok(1,2)]
    from goes(2) have "client_stuck k (sv_manager (pr_server q)) \<and>
        mg_clients (sv_manager (pr_server q)) ! k = mg_clients (sv_manager (pr_server p')) ! k"
      unfolding manager_goes_on_def
    proof (elim disjE exE)
      fix ended
      assume "server_work ended av ul ord (sv_manager (pr_server p')) (sv_manager (pr_server q))"
      from work_keeps_stuck [OF this ok(3)] show ?thesis .
    qed (use ok(3) own_shutdown_keeps_stuck in auto)
    then show ?case using step goes(1) process_step_ok [OF step(2) ok(1)] by simp
  qed (use assms in simp)
  then show ?thesis by simp
qed

subsection \<open>A shutdown that waits for a stranded source task\<close>

text \<open>The join handles of a feed of the binary are in the iteration order of its exchanges.\<close>

lemma default_handles:
  assumes "iteration_order ord"
  obtains hs where "server_sources ul ord default_instrument = okP hs" "map (src_id \<circ> fst) hs = ord"
proof -
  obtain hs where hs: "server_sources ul ord default_instrument = okP hs"
    using default_sources [OF assms] by blast
  let ?es = "source_mapping_iter ord default_instrument"
  have all: "in_source_mapping default_instrument s \<noteq> None" for s
    by (cases s) (auto simp: default_instrument_def instrument_new_def)
  then have fst: "map fst ?es = ord"
    by (induction ord) (auto simp: source_mapping_iter_def List.map_filter_simps split: option.splits)
  obtain ss where ss: "hs = map spawn_source_task ss"
    "map (entry_source (new_factory_map ul SERVER_DEPTH)) ?es = map okP ss"
    using hs by (auto simp: server_sources_def start_summary_sources_ok create_summary_sources_collect collect_sources_ok)
  have "\<forall>(s, y) \<in> set ?es. in_source_mapping default_instrument s = Some y"
    unfolding source_mapping_iter_set [OF assms] by simp
  then have "map src_id ss = ord"
    using started_sources_reach [of ?es default_instrument ul SERVER_DEPTH ss example_json example_net list_push] ss(2) assms fst
    by (simp add: iteration_order_def)
  then have "map (src_id \<circ> fst) hs = ord" by (simp add: ss(1) spawn_source_task_def comp_def)
  with hs show ?thesis by (rule that)
qed

text \<open>The source task waits for a change, has seen the last one, and the exchange task has ended.\<close>

definition source_stranded :: "source_id \<Rightarrow> feed_sources \<Rightarrow> bool" where
  "source_stranded src fs \<longleftrightarrow>
     (case fs src of
        Some (t, Some st) \<Rightarrow>
          ft_phase t \<in> {Stopped} \<union> range Died \<and> st_phase st = StWaiting \<and> st_seen st = watch_version (ft_feed t)
      | _ \<Rightarrow> False)"

lemma pipeline_move_stranded:
  assumes "pipeline_move S net av n p p'" "source_stranded src (pl_sources p)"
  shows "source_stranded src (pl_sources p')"
  using assms
proof (induction rule: pipeline_move.induct)
  case (exchange p src' t st ev t')
  then have step: "exchange_step S (wr_subscribe net) n src' t ev = Some t'" by (simp add: wired_stepD)
  have "src' \<noteq> src"
  proof
    assume "src' = src"
    then obtain q where "ft_phase t = Stopped \<or> ft_phase t = Died q"
      using exchange by (auto simp: source_stranded_def split: option.splits)
    then show False
      using step binance_feed.step_ended [of t q S n ev] bitstamp_feed.step_ended [of t q S "wr_subscribe net" n ev]
      by (cases src') (auto simp: exchange_step_def)
  qed
  then show ?case using exchange(3) by (simp add: source_stranded_def)
next
  case (source p src' t st ev st')
  then have "src' \<noteq> src" by (auto simp: source_stranded_def split: if_splits)
  then show ?case using source(4) by (simp add: source_stranded_def)
next
  case (sent p src' t st s pb st')
  then have "src' \<noteq> src" by (auto simp: source_stranded_def)
  then show ?case using sent(5) by (simp add: source_stranded_def)
next
  case (closed p src' t st s e st')
  then have "src' \<noteq> src" by (auto simp: source_stranded_def)
  then show ?case using closed(5) by (simp add: source_stranded_def)
qed simp_all

text \<open>The shutdown task \<open>k\<close> waits for the handle with \<open>j\<close> others after it, of a source stranded like that.\<close>

definition join_stuck :: "source_id list \<Rightarrow> nat \<Rightarrow> nat \<Rightarrow> nat list \<Rightarrow> nat \<Rightarrow> process \<Rightarrow> bool" where
  "join_stuck ord k fid rest j p \<longleftrightarrow>
     k < length (mg_shutdowns (sv_manager (pr_server p))) \<and>
     mg_shutdowns (sv_manager (pr_server p)) ! k = \<lparr>sd_feeds = fid # rest, sd_phase = SdJoining (Suc j)\<rparr> \<and>
     fid < length (mg_heap (sv_manager (pr_server p))) \<and> j < NUM_SOURCES \<and>
     source_stranded (rev ord ! j) (pr_sources p ! fid)"

lemma join_not_ended:
  assumes "join_stuck ord k fid rest j p" "process_ok ul S net av ord p" "iteration_order ord"
  shows "\<not> source_ended ul SERVER_DEPTH (\<lambda>_. ord) (pr_system p) fid j"
proof -
  have "manager_reach av SERVER_DEPTH (service_sources ul SERVER_DEPTH (\<lambda>_. ord)) build_instrument_map
      (sys_manager (pr_system p))"
    using assms(2,3) system_reach_ok [of ul S net av SERVER_DEPTH "\<lambda>_. ord" build_instrument_map "pr_system p"]
    by (simp add: process_ok_def system_ok_def)
  from manager_instruments [OF this, of fid] assms(1)
  have i: "fd_instrument (mg_heap (sys_manager (pr_system p)) ! fid) = default_instrument"
    by (simp add: build_instrument_map_ran join_stuck_def pr_system_def)
  obtain hs where hs: "server_sources ul ord default_instrument = okP hs" "map (src_id \<circ> fst) hs = ord"
    by (rule default_handles [OF assms(3)])
  have len: "j < length hs"
    using assms(1,3) distinct_card [of ord] arg_cong [OF hs(2), of length, unfolded length_map]
    by (simp add: join_stuck_def iteration_order_def UNIV_source_id NUM_SOURCES_def)
  have "src_id (fst (rev hs ! j)) = rev (map (src_id \<circ> fst) hs) ! j"
    using len by (simp add: rev_map)
  then have "src_id (fst (rev hs ! j)) = rev ord ! j" by (simp only: hs(2))
  then show ?thesis
    using assms(1) hs(1) i
    by (auto simp: source_ended_def join_stuck_def source_stranded_def server_sources_service pr_system_def
        split: option.splits)
qed

lemma work_keeps_join:
  assumes "manager_work ended av n cs im m m'" "k < length (mg_shutdowns m)"
    "mg_shutdowns m ! k = \<lparr>sd_feeds = fid # rest, sd_phase = SdJoining (Suc j)\<rparr>" "\<not> ended fid j"
  shows "k < length (mg_shutdowns m') \<and> mg_shutdowns m' ! k = mg_shutdowns m ! k"
  using assms
proof (induction rule: manager_work.induct)
  case (request symbol m r m')
  then show ?case by (cases rule: open_summary_stream_cases) simp_all
next
  case (client i m ev m')
  from client(2) show ?case
    by (cases rule: client_step_cases) (use client(3) in \<open>auto simp: on_subscribe_def on_unsubscribe_def Let_def\<close>)
next
  case (grace_fire i m)
  then show ?case by (auto simp: remove_feed_if_unused_def Let_def nth_append split: option.splits)
next
  case (shut i m m')
  then have "i \<noteq> k" by (auto simp: shutdown_step_def)
  then show ?case
    using shut(2,3) by (auto simp: shutdown_step_def Let_def split: list.splits option.splits)
qed simp_all

lemma own_shutdown_keeps_join:
  assumes "own_shutdown m m'" "k < length (mg_shutdowns m)"
  shows "k < length (mg_shutdowns m') \<and> mg_shutdowns m' ! k = mg_shutdowns m ! k"
  using assms by (auto simp: own_shutdown_def shutdown_flag_def shutdown_drain_def nth_append)

lemma system_work_join:
  assumes "system_work ul S net av SERVER_DEPTH (\<lambda>_. ord) im y y'"
    "length (sys_sources y) = length (mg_heap (sys_manager y))" "fid < length (mg_heap (sys_manager y))"
    "k < length (mg_shutdowns (sys_manager y))"
    "mg_shutdowns (sys_manager y) ! k = \<lparr>sd_feeds = fid # rest, sd_phase = SdJoining (Suc j)\<rparr>"
    "source_stranded src (sys_sources y ! fid)" "\<not> source_ended ul SERVER_DEPTH (\<lambda>_. ord) y fid j"
  shows "k < length (mg_shutdowns (sys_manager y')) \<and>
    mg_shutdowns (sys_manager y') ! k = mg_shutdowns (sys_manager y) ! k \<and>
    fid < length (mg_heap (sys_manager y')) \<and> source_stranded src (sys_sources y' ! fid)"
  using assms
proof (induction rule: system_work.induct)
  case (request symbol y r y')
  obtain r' m' where req: "open_summary_stream SERVER_DEPTH (service_sources ul SERVER_DEPTH (\<lambda>_. ord)) im symbol
      (sys_manager y) = (r', m')" by fastforce
  have "mg_shutdowns m' = mg_shutdowns (sys_manager y)" "length (mg_heap (sys_manager y)) \<le> length (mg_heap m')"
    using req by (cases rule: open_summary_stream_cases; simp)+
  then show ?case using request by (auto simp: system_request_def req nth_append)
next
  case (manage y m')
  from work_keeps_join [OF manage(1,5,6,8)] manage show ?case by (simp add: feeds_managed_def)
next
  case (pipe g y p)
  have "source_stranded src (pl_sources p)" if "g = fid"
    by (rule pipeline_move_stranded [OF pipe(2)]) (use pipe(8) that in \<open>simp add: pipeline_of_def\<close>)
  then show ?case
    using pipe by (cases "g = fid") (simp_all add: set_pipeline_def)
qed

lemma server_life_join:
  assumes "server_life s s'" "server_ok s" "k < length (mg_shutdowns (sv_manager s))"
    "fid < length (mg_heap (sv_manager s))" "sv_run s \<noteq> RunStarting"
  shows "k < length (mg_shutdowns (sv_manager s')) \<and>
    mg_shutdowns (sv_manager s') ! k = mg_shutdowns (sv_manager s) ! k \<and> fid < length (mg_heap (sv_manager s'))"
  using server_life_manager [OF assms(1,2)]
proof (elim disjE)
  assume own: "own_shutdown (sv_manager s) (sv_manager s')"
  show ?thesis using own_shutdown_keeps_join [OF own assms(3)] own_shutdown_heap [OF own] assms(4) by simp
qed (use assms(3-) in simp_all)

lemma process_step_join:
  assumes "process_step ul S net av ord p p'" "process_ok ul S net av ord p" "iteration_order ord"
    "join_stuck ord k fid rest j p"
  shows "join_stuck ord k fid rest j p'"
  using assms
proof (induction rule: process_step.induct)
  case (life p s)
  have ok: "server_ok (pr_server p)" using life(2) server_reach_ok by (auto simp: process_ok_def)
  have "sv_run (pr_server p) \<noteq> RunStarting"
    using life(2,4) by (auto simp: process_ok_def join_stuck_def pr_system_def system_new_def manager_new_def)
  with server_life_join [OF life(1) ok, of k fid] life(4) show ?case by (simp add: join_stuck_def)
next
  case (service p y)
  have "system_ok ul S net av SERVER_DEPTH (\<lambda>_. ord) build_instrument_map (pr_system p)"
    using service(4,5) by (auto simp: process_ok_def intro: system_reach_ok)
  then have len: "length (pr_sources p) = length (mg_heap (sv_manager (pr_server p)))"
    by (simp add: system_ok_def pr_system_def)
  from system_work_join [OF service(3), of fid k rest j "rev ord ! j"] join_not_ended [OF service(6,4,5)]
    service(6) len
  show ?case by (simp add: join_stuck_def) (simp add: pr_system_def)
qed

subsection \<open>Runs of the binary up to a shutdown\<close>

definition process_at :: "ctrl_c_handler \<Rightarrow> manager_task \<Rightarrow> manager \<Rightarrow> feed_sources list \<Rightarrow> process" where
  "process_at h t m srcs = \<lparr>pr_server = server_at h (RunServing 0) t m, pr_sources = srcs\<rparr>"

lemma process_at_sel [simp]:
  "sv_manager (pr_server (process_at h t m srcs)) = m" "pr_sources (process_at h t m srcs) = srcs"
  "pr_server (process_at h t m srcs) = server_at h (RunServing 0) t m"
  "pr_system (process_at h t m srcs) = \<lparr>sys_manager = m, sys_sources = srcs\<rparr>"
  by (simp_all add: process_at_def pr_system_def)

lemma at_life:
  assumes "process_reach ul S net av ord (process_at h t m srcs)"
    "server_life (server_at h (RunServing 0) t m) (server_at h' (RunServing 0) t' m')"
  shows "process_reach ul S net av ord (process_at h' t' m' srcs)"
proof -
  have "process_step ul S net av ord (process_at h t m srcs) (process_at h' t' m' srcs)"
    using process_step.life [of "process_at h t m srcs"] assms(2) by (simp add: process_at_def)
  with assms(1) show ?thesis by (auto simp: process_reach_def intro: rtranclp.rtrancl_into_rtrancl)
qed

lemma at_work_step:
  assumes "system_work ul S net av SERVER_DEPTH (\<lambda>_. ord) build_instrument_map
      \<lparr>sys_manager = m, sys_sources = srcs\<rparr> \<lparr>sys_manager = m', sys_sources = srcs'\<rparr>"
  shows "process_step ul S net av ord (process_at h t m srcs) (process_at h t m' srcs')"
  using process_step.service [where p = "process_at h t m srcs" and y = "\<lparr>sys_manager = m', sys_sources = srcs'\<rparr>"
      and ul = ul and S = S and net = net and av = av and ord = ord] assms
  by simp (simp add: process_at_def server_at_def)

lemma at_work:
  assumes "process_reach ul S net av ord (process_at h t m srcs)"
    "system_work ul S net av SERVER_DEPTH (\<lambda>_. ord) build_instrument_map
      \<lparr>sys_manager = m, sys_sources = srcs\<rparr> \<lparr>sys_manager = m', sys_sources = srcs'\<rparr>"
  shows "process_reach ul S net av ord (process_at h t m' srcs')"
  using assms(1) at_work_step [OF assms(2), of h t]
  by (auto simp: process_reach_def intro: rtranclp.rtrancl_into_rtrancl)

lemma at_manage:
  assumes "process_reach ul S net av ord (process_at h t m srcs)"
    "manager_work (source_ended ul SERVER_DEPTH (\<lambda>_. ord) \<lparr>sys_manager = m, sys_sources = srcs\<rparr>) av SERVER_DEPTH
      (service_sources ul SERVER_DEPTH (\<lambda>_. ord)) build_instrument_map m m'"
    "feeds_managed m m'"
  shows "process_reach ul S net av ord (process_at h t m' srcs)"
  by (rule at_work [OF assms(1)])
    (use system_work.manage [of ul SERVER_DEPTH "\<lambda>_. ord" "\<lparr>sys_manager = m, sys_sources = srcs\<rparr>"] assms(2,3) in simp)

text \<open>The server comes up, and an interrupt makes the manager shut down.\<close>

lemma at_start: "process_reach ul S net av ord (process_at Listening (MtListening 0) manager_new [])"
proof -
  let ?step = "process_step ul S net av ord"
  let ?p = "\<lparr>pr_server = server_at Listening RunManaged (MtListening 0) manager_new, pr_sources = []\<rparr>"
  have "server_life server_start (server_at Listening RunManaged (MtListening 0) manager_new)"
    by (rule server_life.run)
      (simp_all add: server_at_simps server_start_def ctrl_c_shutdown_signal_def broadcast_channel_def)
  then have 1: "?step process_start ?p"
    using process_step.life [where p = process_start] by (simp add: process_start_def)
  have "server_life (server_at Listening RunManaged (MtListening 0) manager_new)
      (server_at Listening (RunServing 0) (MtListening 0) manager_new)"
    by (rule server_life.run) (simp_all add: server_at_simps)
  then have 2: "?step ?p (process_at Listening (MtListening 0) manager_new [])"
    using process_step.life [where p = ?p] by (simp add: process_at_def)
  show ?thesis
    unfolding process_reach_def by (rule rtranclp.rtrancl_into_rtrancl [OF r_into_rtranclp [of ?step, OF 1] 2])
qed

lemma at_shutdown:
  assumes "process_reach ul S net av ord (process_at Listening (MtListening 0) m srcs)"
    "distinct order" "set order = dom (mg_feeds m)"
  shows "process_reach ul S net av ord (process_at HandlerDone MtDone (shutdown_drain order (shutdown_flag m)) srcs)"
proof -
  let ?at = "\<lambda>t m. process_reach ul S net av ord (process_at HandlerDone t m srcs)"
  have "?at (MtListening 0) m" by (rule at_life [OF assms(1) interrupt_life])
  then have "?at MtFlagging m"
    by (rule at_life, intro server_life.task [of _ order]) (simp_all add: server_at_simps assms)
  then have "?at MtDraining (shutdown_flag m)"
    by (rule at_life, intro server_life.task [of _ order]) (simp_all add: server_at_simps assms)
  then show ?thesis
    by (rule at_life, intro server_life.task [of _ order])
      (simp_all add: server_at_simps assms, simp_all add: shutdown_flag_def assms)
qed

text \<open>The default feed is opened; it is being shut down by the manager's own shutdown.\<close>

definition opened_feed :: "publisher \<Rightarrow> feed" where
  "opened_feed pb = new_feed default_instrument pb NUM_SOURCES"

definition opened_manager :: "feed \<Rightarrow> subscriber \<Rightarrow> manager" where
  "opened_manager fd sb =
     manager_new\<lparr>mg_feeds := [''ETH-BTC'' \<mapsto> 0], mg_heap := [fd], mg_clients := [\<lparr>ct_feed = 0, ct_subscriber = sb\<rparr>]\<rparr>"

definition ending_manager :: "feed \<Rightarrow> subscriber \<Rightarrow> shutdown_phase \<Rightarrow> manager" where
  "ending_manager fd sb ph =
     manager_new\<lparr>mg_shutting_down := True, mg_heap := [fd], mg_clients := [\<lparr>ct_feed = 0, ct_subscriber = sb\<rparr>],
       mg_shutdowns := [\<lparr>sd_feeds = [0], sd_phase = ph\<rparr>]\<rparr>"

lemmas ending_simps = ending_manager_def opened_manager_def manager_new_def update_feed_def Let_def

lemma opened_ends:
  "shutdown_drain [''ETH-BTC''] (shutdown_flag (opened_manager fd sb)) = ending_manager fd sb SdLocking"
  by (simp add: ending_simps shutdown_drain_def shutdown_flag_def List.map_filter_simps)

lemma at_opened:
  assumes "iteration_order ord"
  shows "process_reach ul S net av ord (process_at Listening (MtListening 0)
    (opened_manager (opened_feed (publisher_start SERVER_DEPTH)) subscriber_new)
    [sources_of_feed ul SERVER_DEPTH (\<lambda>_. ord) (opened_feed (publisher_start SERVER_DEPTH))])"
proof (rule at_work [OF at_start])
  obtain hs where hs: "service_sources ul SERVER_DEPTH (\<lambda>_. ord) default_instrument = okP hs" "length hs = NUM_SOURCES"
    using default_sources [OF assms, of ul] by (auto simp: server_sources_service)
  have "system_request ul SERVER_DEPTH (\<lambda>_. ord) build_instrument_map ''ETH-BTC''
      \<lparr>sys_manager = manager_new, sys_sources = []\<rparr> =
    (okP 0, \<lparr>sys_manager = opened_manager (opened_feed (publisher_start SERVER_DEPTH)) subscriber_new,
      sys_sources = [sources_of_feed ul SERVER_DEPTH (\<lambda>_. ord) (opened_feed (publisher_start SERVER_DEPTH))]\<rparr>)"
    by (simp add: system_request_def open_summary_stream_def manager_open_def manager_new_def opened_manager_def
        default_lookup [unfolded SYMBOL_ETH_BTC_def] hs Let_def opened_feed_def)
  then show "system_work ul S net av SERVER_DEPTH (\<lambda>_. ord) build_instrument_map
      \<lparr>sys_manager = manager_new, sys_sources = []\<rparr>
      \<lparr>sys_manager = opened_manager (opened_feed (publisher_start SERVER_DEPTH)) subscriber_new,
        sys_sources = [sources_of_feed ul SERVER_DEPTH (\<lambda>_. ord) (opened_feed (publisher_start SERVER_DEPTH))]\<rparr>"
    by (rule system_work.request)
qed

text \<open>The shutdown of the feed signals it and closes its publisher.\<close>

lemma at_closing:
  assumes "process_reach ul S net av ord (process_at Listening (MtListening 0) (opened_manager fd sb) srcs)"
    "\<not> fd_guarded fd"
  shows "process_reach ul S net av ord (process_at HandlerDone MtDone
    (ending_manager (feed_shutdown fd) sb (SdJoining (fd_source_tasks fd))) srcs)"
proof -
  have "process_reach ul S net av ord (process_at HandlerDone MtDone (ending_manager fd sb SdLocking) srcs)"
    using at_shutdown [OF assms(1), of "[''ETH-BTC'']"] unfolding opened_ends by (simp add: opened_manager_def)
  then show ?thesis
  proof (rule at_manage)
    let ?ended = "source_ended ul SERVER_DEPTH (\<lambda>_. ord) \<lparr>sys_manager = ending_manager fd sb SdLocking, sys_sources = srcs\<rparr>"
    have "shutdown_step ?ended 0 (ending_manager fd sb SdLocking) =
        Some (ending_manager (feed_shutdown fd) sb (SdJoining (fd_source_tasks fd)))"
      using assms(2) by (simp add: shutdown_step_def ending_simps)
    then show "manager_work ?ended av SERVER_DEPTH (service_sources ul SERVER_DEPTH (\<lambda>_. ord)) build_instrument_map
        (ending_manager fd sb SdLocking) (ending_manager (feed_shutdown fd) sb (SdJoining (fd_source_tasks fd)))"
      by (intro manager_work.shut [of 0]) (simp_all add: ending_manager_def)
    show "feeds_managed (ending_manager fd sb SdLocking)
        (ending_manager (feed_shutdown fd) sb (SdJoining (fd_source_tasks fd)))"
      by (simp add: feeds_managed_def ending_manager_def feed_shutdown_def publisher_control_def)
  qed
qed

lemma ending_publisher:
  assumes "publisher_step av SERVER_DEPTH (fd_publisher fd) ev = Some pb"
  shows "system_work ul S net av SERVER_DEPTH (\<lambda>_. ord) build_instrument_map
      \<lparr>sys_manager = ending_manager fd sb ph, sys_sources = [fs]\<rparr>
      \<lparr>sys_manager = ending_manager (fd\<lparr>fd_publisher := pb\<rparr>) sb ph, sys_sources = [fs]\<rparr>"
proof -
  let ?y = "\<lparr>sys_manager = ending_manager fd sb ph, sys_sources = [fs]\<rparr>"
  have p: "pipeline_of ?y 0 = \<lparr>pl_sources = fs, pl_publisher = fd_publisher fd\<rparr>"
    by (simp add: pipeline_of_def ending_manager_def)
  have "system_work ul S net av SERVER_DEPTH (\<lambda>_. ord) build_instrument_map ?y
      (set_pipeline 0 ((pipeline_of ?y 0)\<lparr>pl_publisher := pb\<rparr>) ?y)"
  proof (rule system_work.pipe)
    show "pipeline_move S net av SERVER_DEPTH (pipeline_of ?y 0) ((pipeline_of ?y 0)\<lparr>pl_publisher := pb\<rparr>)"
      by (rule pipeline_move.merge) (use assms in \<open>simp add: p\<close>)
    show "0 < length (mg_heap (sys_manager ?y))" by (simp add: ending_manager_def)
  qed (use assms in \<open>auto simp: p publisher_moves_def\<close>)
  then show ?thesis
    by (simp add: set_pipeline_def pipeline_of_def ending_simps)
qed

lemma at_client:
  assumes "process_reach ul S net av ord (process_at h t (ending_manager fd sb ph) srcs)"
    "publish_step (feed_view_of fd) sb SbNext = Some sb'" "sb_phase sb \<noteq> SbEnding"
  shows "process_reach ul S net av ord (process_at h t
    (ending_manager (if sb_phase sb = SbStart then fd\<lparr>fd_subscriptions := fd_subscriptions fd + 1\<rparr> else fd) sb' ph) srcs)"
    (is "process_reach ul S net av ord (process_at h t ?m' srcs)")
proof (rule at_manage [OF assms(1)])
  have "client_step 0 SbNext (ending_manager fd sb ph) = Some ?m'"
    using assms(2,3) by (simp add: client_step_def ending_simps on_subscribe_def notify_grace_def)
  then show "manager_work (source_ended ul SERVER_DEPTH (\<lambda>_. ord)
        \<lparr>sys_manager = ending_manager fd sb ph, sys_sources = srcs\<rparr>) av SERVER_DEPTH
      (service_sources ul SERVER_DEPTH (\<lambda>_. ord)) build_instrument_map (ending_manager fd sb ph) ?m'"
    by (intro manager_work.client [of 0]) (simp add: ending_manager_def)
  show "feeds_managed (ending_manager fd sb ph) ?m'"
    by (simp add: feeds_managed_def ending_manager_def)
qed

text \<open>The feed is signalled and its publisher has finished before the task of the client is polled.\<close>

definition late_feed :: "64 word \<Rightarrow> feed" where
  "late_feed c =
     (feed_shutdown (opened_feed (publisher_start SERVER_DEPTH)))
       \<lparr>fd_subscriptions := c, fd_publisher := publish_result (Inl SummaryShutdown)
          ((publisher_start SERVER_DEPTH)\<lparr>pb_phase := Finished\<rparr>)\<rparr>"

definition late_client :: "subscriber_phase \<Rightarrow> nat \<Rightarrow> subscriber" where
  "late_client ph seen = \<lparr>sb_phase = ph, sb_shutdown_from = 1, sb_seen = seen, sb_sent = []\<rparr>"

definition late_manager :: manager where
  "late_manager = ending_manager (late_feed 1) (late_client SbWaiting 1) (SdJoining NUM_SOURCES)"

lemmas late_simps = late_feed_def late_client_def feed_shutdown_def opened_feed_def new_feed_def
  publish_result_def publisher_start_def publisher_close_def receiver_open_def feed_view_of_def latest_summary_def

lemma at_late:
  assumes "iteration_order ord"
  shows "\<exists>fs. process_reach ul S net av ord (process_at HandlerDone MtDone late_manager [fs])"
proof -
  let ?fd = "opened_feed (publisher_start SERVER_DEPTH)"
  obtain fs where fs: "process_reach ul S net av ord
      (process_at Listening (MtListening 0) (opened_manager ?fd subscriber_new) [fs])"
    using at_opened [OF assms, of ul S net av] by blast
  let ?at = "\<lambda>fd sb. process_reach ul S net av ord (process_at HandlerDone MtDone (ending_manager fd sb (SdJoining NUM_SOURCES)) [fs])"
  have "?at (feed_shutdown ?fd) subscriber_new"
    using at_closing [OF fs] by (simp add: opened_feed_def new_feed_def)
  then have "?at (late_feed 0) subscriber_new"
    by (rule back_subst [where P = "\<lambda>fd. ?at fd subscriber_new",
          OF at_work [OF _ ending_publisher [where ev = RecvShutdown and pb = "fd_publisher (late_feed 0)"]]])
      (simp_all add: late_simps)
  then have "?at (late_feed 1) (subscriber_new\<lparr>sb_phase := SbSubscribed\<rparr>)"
    by (rule back_subst [where P = "\<lambda>fd. ?at fd (subscriber_new\<lparr>sb_phase := SbSubscribed\<rparr>)", OF at_client])
      (simp_all add: publish_step_def subscriber_new_def late_feed_def)
  then have "?at (late_feed 1) (late_client SbReading 0)"
    by (rule back_subst [where P = "\<lambda>fd. ?at fd (late_client SbReading 0)", OF at_client])
      (simp_all add: publish_step_def subscriber_new_def late_simps)
  then have "?at (late_feed 1) (late_client SbWatching 0)"
    by (rule back_subst [where P = "\<lambda>fd. ?at fd (late_client SbWatching 0)", OF at_client])
      (simp_all add: publish_step_def late_simps)
  then have "?at (late_feed 1) (late_client SbWaiting 1)"
    by (rule back_subst [where P = "\<lambda>fd. ?at fd (late_client SbWaiting 1)", OF at_client])
      (simp_all add: publish_step_def late_simps)
  then show ?thesis unfolding late_manager_def by blast
qed

lemma late_stuck: "client_stuck 0 late_manager"
  by (simp add: client_stuck_def feed_closed_def signalled_def late_manager_def ending_simps late_simps)

text \<open>Steps of the tasks of the exchanges and sources of the feed.\<close>

lemma at_sources:
  assumes "process_reach ul S net av ord (process_at h t m [fs])" "mg_heap m = [fd]"
    "pipeline_move S net av SERVER_DEPTH \<lparr>pl_sources = fs, pl_publisher = fd_publisher fd\<rparr>
      \<lparr>pl_sources = fs', pl_publisher = fd_publisher fd\<rparr>"
  shows "process_reach ul S net av ord (process_at h t m [fs'])"
proof (rule at_work [OF assms(1)])
  let ?y = "\<lparr>sys_manager = m, sys_sources = [fs]\<rparr>" and ?p = "\<lparr>pl_sources = fs', pl_publisher = fd_publisher fd\<rparr>"
  have p: "pipeline_of ?y 0 = \<lparr>pl_sources = fs, pl_publisher = fd_publisher fd\<rparr>"
    by (simp add: pipeline_of_def assms(2))
  have "system_work ul S net av SERVER_DEPTH (\<lambda>_. ord) build_instrument_map ?y (set_pipeline 0 ?p ?y)"
    by (rule system_work.pipe) (simp_all add: p assms(2,3))
  moreover have same: "m\<lparr>mg_heap := [fd]\<rparr> = m" using assms(2) by (cases m) simp
  ultimately show "system_work ul S net av SERVER_DEPTH (\<lambda>_. ord) build_instrument_map ?y
      \<lparr>sys_manager = m, sys_sources = [fs']\<rparr>"
    by (simp add: set_pipeline_def update_feed_def assms(2) same)
qed

definition bitstamp_at :: "phase \<Rightarrow> string \<Rightarrow> ws_frame list \<Rightarrow> feed_task" where
  "bitstamp_at ph address frames = run_bitstamp\<lparr>ft_phase := ph, ft_address := address, ft_sent := frames\<rparr>"

definition stranded_sources :: "feed_task \<Rightarrow> source_task_phase \<Rightarrow> feed_sources" where
  "stranded_sources t ph =
     [Bitstamp \<mapsto> (t, Some \<lparr>st_seen = 0, st_phase = ph\<rparr>), Binance \<mapsto> (run_started, Some (source_task_new feed_new))]"

abbreviation at_run :: "ctrl_c_handler \<Rightarrow> manager_task \<Rightarrow> manager \<Rightarrow> feed_task \<Rightarrow> source_task_phase \<Rightarrow> bool" where
  "at_run h t m ft ph \<equiv> process_reach id example_json example_net list_push run_order
     (process_at h t m [stranded_sources ft ph])"

lemma run_exchange_step:
  assumes "at_run h t m ft ph" "mg_heap m = [fd]" "wired_step example_json example_net SERVER_DEPTH Bitstamp ft ev = Some ft'"
  shows "at_run h t m ft' ph"
proof (rule at_sources [OF assms(1,2)])
  show "pipeline_move example_json example_net list_push SERVER_DEPTH
      \<lparr>pl_sources = stranded_sources ft ph, pl_publisher = fd_publisher fd\<rparr>
      \<lparr>pl_sources = stranded_sources ft' ph, pl_publisher = fd_publisher fd\<rparr>"
    using pipeline_move.exchange [of "\<lparr>pl_sources = stranded_sources ft ph, pl_publisher = fd_publisher fd\<rparr>" Bitstamp ft
        "Some \<lparr>st_seen = 0, st_phase = ph\<rparr>" example_json example_net SERVER_DEPTH ev ft' list_push] assms(3)
    by (simp add: stranded_sources_def fun_upd_twist)
qed

lemma run_source_waits:
  assumes "at_run h t m ft StChecking" "mg_heap m = [fd]" "latest (ft_feed ft) = None"
  shows "at_run h t m ft StWaiting"
proof (rule at_sources [OF assms(1,2)])
  show "pipeline_move example_json example_net list_push SERVER_DEPTH
      \<lparr>pl_sources = stranded_sources ft StChecking, pl_publisher = fd_publisher fd\<rparr>
      \<lparr>pl_sources = stranded_sources ft StWaiting, pl_publisher = fd_publisher fd\<rparr>"
    using pipeline_move.source [of "\<lparr>pl_sources = stranded_sources ft StChecking, pl_publisher = fd_publisher fd\<rparr>"
        Bitstamp ft "\<lparr>st_seen = 0, st_phase = StChecking\<rparr>" StPoll _ example_json example_net list_push SERVER_DEPTH] assms(3)
    by (simp add: stranded_sources_def fun_upd_twist)
qed

lemma run_stranded_sources:
  "sources_of_feed id SERVER_DEPTH (\<lambda>_. run_order) (opened_feed pb) = stranded_sources run_bitstamp StChecking"
  by (simp add: sources_of_feed_def opened_feed_def new_feed_def run_sources started_pipeline_def pipeline_new_def
      stranded_sources_def source_task_new_def feed_new_def)

text \<open>Bitstamp is connected when the interrupt comes; its task stops, and its source task still waits.\<close>

lemma at_stranded:
  "at_run HandlerDone MtDone
    (ending_manager (feed_shutdown (opened_feed (publisher_start SERVER_DEPTH))) subscriber_new (SdJoining 2))
    (bitstamp_at Stopped ''wss://ws.bitstamp.net'' [FrameText ''order_book_ethbtc'']) StWaiting"
proof -
  let ?fd = "opened_feed (publisher_start SERVER_DEPTH)" and ?url = "''wss://ws.bitstamp.net''"
  let ?m = "opened_manager ?fd subscriber_new"
  note defs = bitstamp_at_def run_bitstamp_def wired_step_def exchange_step_def bitstamp_step_def example_net_def
  have heap: "mg_heap ?m = [?fd]" by (simp add: opened_manager_def)
  have "at_run Listening (MtListening 0) ?m run_bitstamp StChecking"
    by (rule at_opened [OF run_order_ok, where ul = id, unfolded run_stranded_sources])
  then have "at_run Listening (MtListening 0) ?m (bitstamp_at Subscribing ?url []) StChecking"
    by (rule run_exchange_step [OF _ heap, where ev = "ConnectDone (Inr ())"]) (simp add: defs)
  then have "at_run Listening (MtListening 0) ?m (bitstamp_at Streaming ?url [FrameText ''order_book_ethbtc'']) StChecking"
    by (rule run_exchange_step [OF _ heap, where ev = "SubscribeDone (Inr ())"]) (simp add: defs)
  then have "at_run Listening (MtListening 0) ?m (bitstamp_at Streaming ?url [FrameText ''order_book_ethbtc'']) StWaiting"
    by (rule run_source_waits [OF _ heap]) (simp add: bitstamp_at_def run_bitstamp_def feed_new_def)
  from at_closing [OF this] have closing: "at_run HandlerDone MtDone (ending_manager (feed_shutdown ?fd) subscriber_new (SdJoining 2))
      (bitstamp_at Streaming ?url [FrameText ''order_book_ethbtc'']) StWaiting"
    by (simp add: opened_feed_def new_feed_def NUM_SOURCES_def)
  show ?thesis
    by (rule run_exchange_step [OF closing, where ev = ShutdownRecv])
      (simp add: ending_manager_def, simp add: defs streaming_step_def)
qed

lemma process_keeps_join:
  assumes "(process_step ul S net av ord)\<^sup>*\<^sup>* p p'" "process_ok ul S net av ord p" "iteration_order ord"
    "join_stuck ord k fid rest j p"
  shows "join_stuck ord k fid rest j p'"
proof -
  from assms(1) have "process_ok ul S net av ord p' \<and> join_stuck ord k fid rest j p'"
  proof (induction rule: rtranclp_induct)
    case (step p' q)
    then show ?case
      using process_step_ok [OF step(2)] process_step_join [OF step(2) _ assms(3)] by simp
  qed (use assms in simp)
  then show ?thesis by simp
qed

lemma process_closing_feed:
  assumes "process_reach ul S net av ord p" "k < length (mg_shutdowns (sv_manager (pr_server p)))"
    "sd_feeds (mg_shutdowns (sv_manager (pr_server p)) ! k) = fid # rest"
  shows "fid < length (mg_heap (sv_manager (pr_server p)))"
proof -
  have "manager_reach av SERVER_DEPTH (server_sources ul ord) build_instrument_map (sv_manager (pr_server p))"
    using process_reach_ok [OF assms(1)] by (auto simp: process_ok_def intro: server_manager_reach)
  then have "manager_ok (sv_manager (pr_server p))"
    by (rule manager_reach_ok) (simp add: build_instrument_map_def symbols_match_new Let_def)
  moreover have "fid \<in> known_feeds (sv_manager (pr_server p))"
    using assms(2,3) nth_mem by (fastforce simp: known_feeds_def closing_feeds_def)
  ultimately show ?thesis by (rule manager_okD(1))
qed

subsection \<open>Properties\<close>

text \<open>C30: a shutdown of the manager waits for ever: when a feed is being shut down and the handle that is
  awaited belongs to a source whose exchange task has ended and whose source task waits with the last
  change seen, then in every later state of the process the shutdown still waits for that handle, so
  that the feeds behind it are never shut down. The handles are awaited in the order in which the hash
  map of the instrument is iterated.\<close>

theorem shutdown_waits_for_ever:
  assumes "process_reach ul S net av ord p" "iteration_order ord"
    and "k < length (mg_shutdowns (sv_manager (pr_server p)))" "j < length ord"
    and "mg_shutdowns (sv_manager (pr_server p)) ! k = \<lparr>sd_feeds = fid # rest, sd_phase = SdJoining (Suc j)\<rparr>"
    and "(pr_sources p ! fid) (rev ord ! j) = Some (t, Some st)"
    and "ft_phase t = Stopped \<or> ft_phase t = Died e"
    and "st_phase st = StWaiting" "st_seen st = watch_version (ft_feed t)"
    and "(process_step ul S net av ord)\<^sup>*\<^sup>* p p'"
  shows "k < length (mg_shutdowns (sv_manager (pr_server p'))) \<and>
    mg_shutdowns (sv_manager (pr_server p')) ! k = \<lparr>sd_feeds = fid # rest, sd_phase = SdJoining (Suc j)\<rparr>"
proof -
  have "fid < length (mg_heap (sv_manager (pr_server p)))"
    by (rule process_closing_feed [OF assms(1,3)]) (simp add: assms(5))
  moreover have "length ord = NUM_SOURCES"
    using assms(2) distinct_card [of ord] by (simp add: iteration_order_def UNIV_source_id NUM_SOURCES_def)
  ultimately have "join_stuck ord k fid rest j p"
    using assms(3-9) by (auto simp: join_stuck_def source_stranded_def)
  from process_keeps_join [OF assms(10) process_reach_ok [OF assms(1)] assms(2) this]
  show ?thesis by (simp add: join_stuck_def)
qed

text \<open>The witness: Bitstamp is connected when the interrupt comes; later the publisher has finished too.\<close>

theorem shutdown_waits_for_ever_witness:
  "\<exists>p p'. process_reach id example_json example_net list_push run_order p \<and>
    (process_step id example_json example_net list_push run_order)\<^sup>*\<^sup>* p p' \<and>
    pb_phase (fd_publisher (mg_heap (sv_manager (pr_server p')) ! 0)) = Finished \<and>
    mg_shutdowns (sv_manager (pr_server p')) ! 0 = \<lparr>sd_feeds = [0], sd_phase = SdJoining 2\<rparr>"
proof -
  let ?step = "process_step id example_json example_net list_push run_order"
  let ?fd = "feed_shutdown (opened_feed (publisher_start SERVER_DEPTH))" and ?pb = "fd_publisher (late_feed 0)"
  let ?t = "bitstamp_at Stopped ''wss://ws.bitstamp.net'' [FrameText ''order_book_ethbtc'']"
  let ?at = "\<lambda>fd. process_at HandlerDone MtDone (ending_manager fd subscriber_new (SdJoining 2))
    [stranded_sources ?t StWaiting]"
  have "publisher_step list_push SERVER_DEPTH (fd_publisher ?fd) RecvShutdown = Some ?pb"
    by (simp add: late_simps)
  from r_into_rtranclp [of ?step, OF at_work_step [OF ending_publisher [OF this]]]
  have steps: "?step\<^sup>*\<^sup>* (?at ?fd) (?at (?fd\<lparr>fd_publisher := ?pb\<rparr>))" .
  have "mg_shutdowns (sv_manager (pr_server (?at (?fd\<lparr>fd_publisher := ?pb\<rparr>)))) ! 0 =
      \<lparr>sd_feeds = [0], sd_phase = SdJoining (Suc 1)\<rparr>"
    using shutdown_waits_for_ever [OF at_stranded run_order_ok, where k = 0 and j = 1 and t = ?t
        and st = "\<lparr>st_seen = 0, st_phase = StWaiting\<rparr>", OF _ _ _ _ _ _ _ steps]
    by (simp add: ending_manager_def run_order_def stranded_sources_def bitstamp_at_def run_bitstamp_def feed_new_def)
  then have "mg_shutdowns (sv_manager (pr_server (?at (?fd\<lparr>fd_publisher := ?pb\<rparr>)))) ! 0 =
      \<lparr>sd_feeds = [0], sd_phase = SdJoining 2\<rparr>" by (simp add: numeral_2_eq_2)
  moreover have "pb_phase (fd_publisher (mg_heap (sv_manager (pr_server (?at (?fd\<lparr>fd_publisher := ?pb\<rparr>)))) ! 0)) = Finished"
    by (simp add: ending_manager_def late_simps)
  ultimately show ?thesis using at_stranded steps by blast
qed

text \<open>C29: in the binary a client can be left waiting for ever. In some reachable state, in which the server
  still serves, the feed of the first client has been shut down and its publisher has finished; the task
  of the client subscribed too late to see either, and in no later state of the process does it have
  a step.\<close>

theorem shutdown_can_strand_a_client:
  assumes "iteration_order ord"
  shows "\<exists>p ct. process_reach ul S net av ord p \<and> sv_run (pr_server p) = RunServing 0 \<and>
    \<not> sv_dropped (pr_server p) \<and>
    mg_clients (sv_manager (pr_server p)) = [ct] \<and> sb_phase (ct_subscriber ct) = SbWaiting \<and>
    fd_shutdowns (mg_heap (sv_manager (pr_server p)) ! ct_feed ct) = 1 \<and>
    pb_phase (fd_publisher (mg_heap (sv_manager (pr_server p)) ! ct_feed ct)) = Finished \<and>
    (\<forall>p'. (process_step ul S net av ord)\<^sup>*\<^sup>* p p' \<longrightarrow>
      mg_clients (sv_manager (pr_server p')) ! 0 = ct \<and> (\<forall>ev. client_step 0 ev (sv_manager (pr_server p')) = None))"
proof -
  obtain fs where reach: "process_reach ul S net av ord (process_at HandlerDone MtDone late_manager [fs])"
    (is "process_reach _ _ _ _ _ ?p") using at_late [OF assms] by blast
  have later: "mg_clients (sv_manager (pr_server p')) ! 0 = \<lparr>ct_feed = 0, ct_subscriber = late_client SbWaiting 1\<rparr> \<and>
      client_step 0 ev (sv_manager (pr_server p')) = None"
    if "(process_step ul S net av ord)\<^sup>*\<^sup>* ?p p'" for p' ev
    using process_keeps_stuck [OF that process_reach_ok [OF reach], of 0] late_stuck client_stuck_step
    by (simp add: late_manager_def ending_manager_def)
  show ?thesis
    by (rule exI [of _ ?p], rule exI [of _ "\<lparr>ct_feed = 0, ct_subscriber = late_client SbWaiting 1\<rparr>"])
      (use reach later in \<open>simp add: late_manager_def ending_manager_def late_simps\<close>)
qed

theorem shutdown_can_strand_a_client_witness:
  "\<exists>p ct. process_reach id example_json example_net list_push run_order p \<and> mg_clients (sv_manager (pr_server p)) = [ct] \<and>
    sb_phase (ct_subscriber ct) = SbWaiting \<and> client_step 0 SbChanged (sv_manager (pr_server p)) = None \<and>
    client_step 0 SbShutdown (sv_manager (pr_server p)) = None"
  using shutdown_can_strand_a_client [OF run_order_ok, of id example_json example_net list_push] by blast

end
