(* ===== verification/Test_Harness.thy ===== *)
theory Test_Harness
  imports Agg_Prelude
begin

section \<open>Tests as computations\<close>

text \<open>
  A test of the repository is a computation that panics when an assertion fails and returns \<open>()\<close>
  when it passes. Here are the assertions, indexing and the two kinds of \<open>expect\<close>.
\<close>

definition assert_that :: "bool \<Rightarrow> panic + unit" where
  "assert_that b = (if b then Inr () else Inl AssertFailed)"

definition assert_all :: "bool list \<Rightarrow> panic + unit" where
  "assert_all bs = foldP (\<lambda>_ b. assert_that b) () bs"

lemma assert_all_simps [simp]:
  "assert_all [] = Inr ()"
  "assert_all (True # bs) = assert_all bs"
  "assert_all (False # bs) = Inl AssertFailed"
  by (simp_all add: assert_all_def assert_that_def)

definition index_at :: "'a list \<Rightarrow> nat \<Rightarrow> panic + 'a" where
  "index_at xs i = (if i < length xs then Inr (xs ! i) else Inl IndexOutOfBounds)"

text \<open>\<open>expect\<close> of a \<open>Result\<close> and of an \<open>Option\<close>.\<close>

definition expect_ok :: "panic + ('e + 'a) \<Rightarrow> panic + 'a" where
  "expect_ok m = bindP m (\<lambda>r. case r of Inl e \<Rightarrow> Inl UnwrapErr | Inr a \<Rightarrow> Inr a)"

definition expect_some :: "'a option \<Rightarrow> panic + 'a" where
  "expect_some x = (case x of None \<Rightarrow> Inl UnwrapNone | Some a \<Rightarrow> Inr a)"

end
