(* ===== verification/F64_Eval.thy ===== *)
theory F64_Eval
  imports F64_Decimal
begin

section \<open>Literals and conversions of doubles\<close>

text \<open>
  A literal of the program is the double nearest to it, as is what its text parses to; an integer
  is converted to the double nearest to it; a sum is the difference to the negated number, the one
  rounding of which it shares. \<open>decimal_pattern_eval\<close> evaluates the pattern of a decimal number on
  small integers.
\<close>

definition f64_lit :: "string \<Rightarrow> f64" where
  "f64_lit s = (case f64_from_str s of Inr x \<Rightarrow> x | Inl e \<Rightarrow> f64_nan)"

definition f64_from_nat :: "nat \<Rightarrow> f64" where
  "f64_from_nat n = f64_make False (round_pattern (n * 2 ^ 1074) 1)"

definition f64_negate :: "f64 \<Rightarrow> f64" where
  "f64_negate x = x + 0x8000000000000000"

definition f64_plus :: "f64 \<Rightarrow> f64 \<Rightarrow> f64" where
  "f64_plus a b = f64_minus a (f64_negate b)"

lemma decimal_pattern_eval:
  assumes "e \<le> 0" "2 ^ 52 \<le> m * 2 ^ 60 div 10 ^ nat (- e)"
  shows "decimal_pattern m e =
    min (2047 * 2 ^ 52)
      ((nbits (m * 2 ^ 60 div 10 ^ nat (- e)) + 961) * 2 ^ 52 +
        round_div_even (m * 2 ^ 60) (10 ^ nat (- e) * 2 ^ (nbits (m * 2 ^ 60 div 10 ^ nat (- e)) - 53)))"
proof -
  let ?q = "10 ^ nat (- e) :: nat"
  have "decimal_pattern m e = round_pattern (m * 2 ^ 1074) ?q"
    using assms(1) by (cases "e = 0") (simp_all add: decimal_pattern_def)
  also have "m * 2 ^ 1074 = (m * 2 ^ 60) * 2 ^ 1014"
    by (simp only: mult.assoc flip: power_add) simp
  also have "round_pattern \<dots> ?q =
    min (2047 * 2 ^ 52) ((nbits (m * 2 ^ 60 div ?q) - 53 + 1014) * 2 ^ 52
      + round_div_even (m * 2 ^ 60) (?q * 2 ^ (nbits (m * 2 ^ 60 div ?q) - 53)))"
    using assms(2) by (intro round_pattern_scale) simp_all
  also have "nbits (m * 2 ^ 60 div ?q) - 53 + 1014 = nbits (m * 2 ^ 60 div ?q) + 961"
    using nbits_le_iff [of "m * 2 ^ 60 div ?q" 52] assms(2) by simp
  finally show ?thesis .
qed

lemma decimal_pattern_0: "decimal_pattern 0 e = 0"
  by (simp add: decimal_pattern_def)

lemma f64_from_nat_decimal: "f64_from_nat n = f64_make False (decimal_pattern n 0)"
  by (simp add: f64_from_nat_def decimal_pattern_def)

lemmas float_text = f64_lit_def f64_from_str_def parse_decimal_def is_digit_def digits_val_def
  parse_exponent_def Let_def ascii_lower_def

lemmas float_bits = f64_from_nat_decimal decimal_pattern_0 decimal_pattern_eval round_div_even_def
  f64_make_def

lemmas float_exact = f64_finite_def f64_compute f64_val_def f64_mag_def pattern_mag_def

end
