(* ===== verification/Merge_Tests.thy ===== *)
theory Merge_Tests
  imports Test_Harness Combined_Properties F64_Eval Source_Factories
begin

section \<open>The tests of the merge (mod tests of aggserver/src/service/model.rs)\<close>

text \<open>
  The program's own unit tests of the order book merge, written against the model: a test is a
  computation that panics when an assertion fails and returns \<open>()\<close> when it passes. That each of
  them passes is proved by evaluating it, so the model is held against the same cases as the code.
\<close>

subsection \<open>Fixtures\<close>

record mock_source =
  mk_source_id :: source_id

definition mock_source_new :: "source_id \<Rightarrow> mock_source" where
  "mock_source_new source_id = \<lparr>mk_source_id = source_id\<rparr>"

definition factory_map_contains :: "'src factory_map \<Rightarrow> source_id \<Rightarrow> bool" where
  "factory_map_contains fm source_id \<longleftrightarrow> fm source_id \<noteq> None"

definition snapshot_with_bid :: "nat \<Rightarrow> source_id \<Rightarrow> nano_time \<Rightarrow> f64 \<Rightarrow> f64 \<Rightarrow> contributor_snapshot" where
  "snapshot_with_bid n source time price amount = push_bid n (snapshot_new n source time) price amount"

definition snapshot_with_ask :: "nat \<Rightarrow> source_id \<Rightarrow> nano_time \<Rightarrow> f64 \<Rightarrow> f64 \<Rightarrow> contributor_snapshot" where
  "snapshot_with_ask n source time price amount = push_ask n (snapshot_new n source time) price amount"

definition snapshot_with_levels ::
  "nat \<Rightarrow> source_id \<Rightarrow> nano_time \<Rightarrow> (f64 \<times> f64) list \<Rightarrow> (f64 \<times> f64) list \<Rightarrow> contributor_snapshot" where
  "snapshot_with_levels n source time bids asks =
     fold (\<lambda>(p, a) s. push_ask n s p a) asks
       (fold (\<lambda>(p, a) s. push_bid n s p a) bids (snapshot_new n source time))"

subsection \<open>Tests of to_proto\<close>

definition test_to_proto_n1 :: "av_push \<Rightarrow> panic + unit" where
  "test_to_proto_n1 av =
     bindP (update_snapshot (combined_new 5) (snapshot_with_bid 5 Binance 1 (f64_lit ''100.0'') (f64_lit ''1.0'')))
       (\<lambda>combined.
     bindP (update_snapshot combined (snapshot_with_ask 5 Bitstamp 1 (f64_lit ''101.0'') (f64_lit ''1.0'')))
       (\<lambda>combined.
     bindP (to_proto av 5 combined) (\<lambda>summary.
     bindP (assert_all [length (sm_bids summary) = 1, length (sm_asks summary) = 1]) (\<lambda>_.
     bindP (index_at (sm_bids summary) 0) (\<lambda>bid.
     bindP (index_at (sm_asks summary) 0) (\<lambda>ask.
       assert_all
         [f64_eq (lv_price bid) (f64_lit ''100.0''), f64_eq (lv_price ask) (f64_lit ''101.0''),
          f64_eq (sm_spread summary) (f64_lit ''1.0''), sm_arrival_time summary = 1]))))))"

definition test_depth_limit_respected :: "av_push \<Rightarrow> panic + unit" where
  "test_depth_limit_respected av =
     (let bids = map (\<lambda>i. (f64_minus (f64_lit ''100.0'') (f64_from_nat i), f64_lit ''1.0'')) [0..<10];
          asks = map (\<lambda>i. (f64_plus (f64_lit ''100.0'') (f64_from_nat i), f64_lit ''1.0'')) [0..<10]
      in bindP (update_snapshot (combined_new 3) (snapshot_with_levels 3 Binance 1 bids asks)) (\<lambda>combined.
         bindP (to_proto av 3 combined) (\<lambda>summary.
           assert_all [length (sm_bids summary) = 3, length (sm_asks summary) = 3])))"

definition test_latest_time_reflects_max :: "av_push \<Rightarrow> panic + unit" where
  "test_latest_time_reflects_max av =
     bindP (update_snapshot (combined_new 5) (snapshot_with_bid 5 Binance 5 (f64_lit ''100.0'') (f64_lit ''1.0'')))
       (\<lambda>combined.
     bindP (update_snapshot combined (snapshot_with_ask 5 Bitstamp 10 (f64_lit ''101.0'') (f64_lit ''1.0'')))
       (\<lambda>combined.
     bindP (to_proto av 5 combined) (\<lambda>summary. assert_all [sm_arrival_time summary = 10])))"

definition test_levels_sorted_by_amount_within_price :: "av_push \<Rightarrow> panic + unit" where
  "test_levels_sorted_by_amount_within_price av =
     (let snap1 = push_bid 5 (snapshot_new 5 Binance 1) (f64_lit ''100.0'') (f64_lit ''1.0'')
      in bindP (update_snapshot (combined_new 5) snap1) (\<lambda>combined.
        (let snap2 = push_bid 5 (snapshot_new 5 Bitstamp 2) (f64_lit ''100.0'') (f64_lit ''2.0'')
         in bindP (update_snapshot combined snap2) (\<lambda>combined.
            bindP (to_proto av 5 combined) (\<lambda>summary.
            bindP (index_at (sm_bids summary) 0) (\<lambda>first.
            bindP (assert_all [f64_eq (lv_amount first) (f64_lit ''2.0'')]) (\<lambda>_.
            bindP (index_at (sm_bids summary) 1) (\<lambda>second.
              assert_all [f64_eq (lv_amount second) (f64_lit ''1.0'')]))))))))"

definition test_empty_combined_summary_yields_nan_spread :: "av_push \<Rightarrow> panic + unit" where
  "test_empty_combined_summary_yields_nan_spread av =
     bindP (to_proto av 5 (combined_new 5)) (\<lambda>summary.
       assert_all [sm_bids summary = [], sm_asks summary = [], is_nan (sm_spread summary),
         sm_arrival_time summary = 0])"

definition test_spread_only_bids_or_asks :: "av_push \<Rightarrow> panic + unit" where
  "test_spread_only_bids_or_asks av =
     bindP (update_snapshot (combined_new 5) (snapshot_with_bid 5 Binance 1 (f64_lit ''100.0'') (f64_lit ''1.0'')))
       (\<lambda>combined.
     bindP (to_proto av 5 combined) (\<lambda>summary.
     bindP (assert_all [is_nan (sm_spread summary)]) (\<lambda>_.
     bindP (update_snapshot (combined_new 5) (snapshot_with_ask 5 Binance 1 (f64_lit ''105.0'') (f64_lit ''1.0'')))
       (\<lambda>combined.
     bindP (to_proto av 5 combined) (\<lambda>summary. assert_all [is_nan (sm_spread summary)])))))"

definition test_overwrites_existing_snapshot :: "av_push \<Rightarrow> panic + unit" where
  "test_overwrites_existing_snapshot av =
     bindP (update_snapshot (combined_new 5) (snapshot_with_bid 5 Binance 1 (f64_lit ''100.0'') (f64_lit ''1.0'')))
       (\<lambda>combined.
     bindP (update_snapshot combined (snapshot_with_ask 5 Binance 2 (f64_lit ''105.0'') (f64_lit ''1.0'')))
       (\<lambda>combined.
     bindP (to_proto av 5 combined) (\<lambda>summary.
       assert_all [sm_bids summary = [], length (sm_asks summary) = 1, sm_arrival_time summary = 2])))"

definition test_factorymap_contains :: "panic + unit" where
  "test_factorymap_contains =
     (let factory_map = factory_map_from_vec
        [(Binance, \<lambda>_. okP (mock_source_new Binance)), (Bitstamp, \<lambda>_. okP (mock_source_new Bitstamp))]
      in assert_all [factory_map_contains factory_map Binance, factory_map_contains factory_map Bitstamp])"

subsection \<open>Tests of spread_from\<close>

definition spread_from_valid_bid_and_ask :: "panic + unit" where
  "spread_from_valid_bid_and_ask =
     (let bid = \<lparr>lv_exchange = ''Binance'', lv_price = f64_lit ''100.0'', lv_amount = f64_lit ''1.0''\<rparr>;
          ask = \<lparr>lv_exchange = ''Bitstamp'', lv_price = f64_lit ''105.0'', lv_amount = f64_lit ''1.0''\<rparr>
      in assert_all [f64_eq (spread_from (Some bid) (Some ask)) (f64_lit ''5.0'')])"

definition spread_from_zero_bid_price :: "panic + unit" where
  "spread_from_zero_bid_price =
     (let bid = \<lparr>lv_exchange = ''Binance'', lv_price = f64_lit ''0.0'', lv_amount = f64_lit ''1.0''\<rparr>;
          ask = \<lparr>lv_exchange = ''Bitstamp'', lv_price = f64_lit ''105.0'', lv_amount = f64_lit ''1.0''\<rparr>
      in assert_all [is_nan (spread_from (Some bid) (Some ask))])"

definition spread_from_zero_ask_price :: "panic + unit" where
  "spread_from_zero_ask_price =
     (let bid = \<lparr>lv_exchange = ''Binance'', lv_price = f64_lit ''100.0'', lv_amount = f64_lit ''1.0''\<rparr>;
          ask = \<lparr>lv_exchange = ''Bitstamp'', lv_price = f64_lit ''0.0'', lv_amount = f64_lit ''1.0''\<rparr>
      in assert_all [is_nan (spread_from (Some bid) (Some ask))])"

definition spread_from_missing_bid :: "panic + unit" where
  "spread_from_missing_bid =
     (let ask = \<lparr>lv_exchange = ''Bitstamp'', lv_price = f64_lit ''105.0'', lv_amount = f64_lit ''1.0''\<rparr>
      in assert_all [is_nan (spread_from None (Some ask))])"

definition spread_from_missing_ask :: "panic + unit" where
  "spread_from_missing_ask =
     (let bid = \<lparr>lv_exchange = ''Binance'', lv_price = f64_lit ''100.0'', lv_amount = f64_lit ''1.0''\<rparr>
      in assert_all [is_nan (spread_from (Some bid) None)])"

definition spread_from_missing_both :: "panic + unit" where
  "spread_from_missing_both = assert_all [is_nan (spread_from None None)]"

subsection \<open>The literals of the tests\<close>

lemma literals:
  "f64_lit ''0.0'' = 0" "f64_lit ''1.0'' = 0x3FF0000000000000" "f64_lit ''2.0'' = 0x4000000000000000"
  "f64_lit ''5.0'' = 0x4014000000000000" "f64_lit ''100.0'' = 0x4059000000000000"
  "f64_lit ''101.0'' = 0x4059400000000000" "f64_lit ''105.0'' = 0x405A400000000000"
  by (simp add: float_text, simp add: float_bits)+

lemma conversions:
  "f64_from_nat 0 = 0" "f64_from_nat (Suc 0) = 0x3FF0000000000000" "f64_from_nat (Suc (Suc 0)) = 0x4000000000000000"
  by (simp_all add: float_bits)

lemma differences:
  "f64_minus 0x4059000000000000 0 = 0x4059000000000000"
  "f64_minus 0x4059000000000000 0x3FF0000000000000 = 0x4058C00000000000"
  "f64_minus 0x4059000000000000 0x4000000000000000 = 0x4058800000000000"
  "f64_minus 0x4059400000000000 0x4059000000000000 = 0x3FF0000000000000"
  "f64_minus 0x405A400000000000 0x4059000000000000 = 0x4014000000000000"
  "f64_plus 0x4059000000000000 0 = 0x4059000000000000"
  "f64_plus 0x4059000000000000 0x3FF0000000000000 = 0x4059400000000000"
  "f64_plus 0x4059000000000000 0x4000000000000000 = 0x4059800000000000"
  unfolding f64_plus_def f64_negate_def
  by (rule f64_minus_exact; simp add: float_exact)+

text \<open>The tests that need no merge are evaluated as they are.\<close>

lemmas run_test = literals conversions differences Let_def

lemma factory_test: "test_factorymap_contains = Inr ()"
  by (simp add: test_factorymap_contains_def factory_map_from_vec_def factory_map_contains_def run_test)

lemma spread_tests:
  "spread_from_valid_bid_and_ask = Inr ()"
  "spread_from_zero_bid_price = Inr ()"
  "spread_from_zero_ask_price = Inr ()"
  "spread_from_missing_bid = Inr ()"
  "spread_from_missing_ask = Inr ()"
  "spread_from_missing_both = Inr ()"
  subgoal by (simp add: spread_from_valid_bid_and_ask_def run_test) (simp add: f64_compute)
  subgoal by (simp add: spread_from_zero_bid_price_def run_test) (simp add: f64_compute)
  subgoal by (simp add: spread_from_zero_ask_price_def run_test) (simp add: f64_compute)
  by (simp_all add: spread_from_missing_bid_def spread_from_missing_ask_def spread_from_missing_both_def
      run_test)

lemmas run_update = update_snapshot_def combined_new_def NUM_SOURCES_def snapshot_with_bid_def
  snapshot_with_ask_def push_bid_def push_ask_def snapshot_new_def levels_new_def levels_push_def
  snapshot_default_def levels_default_def numeral_eq_Suc run_test

lemmas run_merge = to_proto_def snapshot_is_empty_def levels_depth_def levels_as_slice_def
  add_levels_def level_proto_def bid_key_new_def ask_key_new_def collect_side_def
  sort_unstable_by_def amount_cmp_def source_id_default_def index_at_def run_test f64_compute int_cmp_def

lemma merge_tests:
  assumes "arrayvec_push_spec av"
  shows "test_to_proto_n1 av = Inr ()" "test_depth_limit_respected av = Inr ()"
    "test_latest_time_reflects_max av = Inr ()"
    "test_levels_sorted_by_amount_within_price av = Inr ()"
    "test_empty_combined_summary_yields_nan_spread av = Inr ()"
    "test_spread_only_bids_or_asks av = Inr ()" "test_overwrites_existing_snapshot av = Inr ()"
proof -
  have av: "av cap xs x = (if length xs < cap then Inr (xs @ [x]) else Inl CapacityExceeded)" for cap xs x
    using assms by (simp add: arrayvec_push_spec_def)
  show "test_to_proto_n1 av = Inr ()"
    by (simp add: test_to_proto_n1_def run_test, simp add: run_update, simp add: run_merge av)
  show "test_depth_limit_respected av = Inr ()"
    by (simp add: test_depth_limit_respected_def snapshot_with_levels_def upt_conv_Cons run_test, simp add: run_update, simp add: run_merge av)
  show "test_latest_time_reflects_max av = Inr ()"
    by (simp add: test_latest_time_reflects_max_def run_test, simp add: run_update, simp add: run_merge av)
  show "test_levels_sorted_by_amount_within_price av = Inr ()"
    by (simp add: test_levels_sorted_by_amount_within_price_def run_test, simp add: run_update, simp add: run_merge av)
  show "test_empty_combined_summary_yields_nan_spread av = Inr ()"
    by (simp add: test_empty_combined_summary_yields_nan_spread_def run_test, simp add: run_update, simp add: run_merge av)
  show "test_spread_only_bids_or_asks av = Inr ()"
    by (simp add: test_spread_only_bids_or_asks_def run_test, simp add: run_update, simp add: run_merge av)
  show "test_overwrites_existing_snapshot av = Inr ()"
    by (simp add: test_overwrites_existing_snapshot_def run_test, simp add: run_update, simp add: run_merge av)
qed

subsection \<open>The suite\<close>

definition merge_suite :: "av_push \<Rightarrow> (panic + unit) list" where
  "merge_suite av =
     [test_to_proto_n1 av, test_depth_limit_respected av, test_latest_time_reflects_max av,
      test_levels_sorted_by_amount_within_price av, test_empty_combined_summary_yields_nan_spread av,
      test_spread_only_bids_or_asks av, test_overwrites_existing_snapshot av, test_factorymap_contains,
      spread_from_valid_bid_and_ask, spread_from_zero_bid_price, spread_from_zero_ask_price,
      spread_from_missing_bid, spread_from_missing_ask, spread_from_missing_both]"

lemma merge_suite_passes:
  assumes "arrayvec_push_spec av"
  shows "list_all (\<lambda>test. test = Inr ()) (merge_suite av)"
  by (simp add: merge_suite_def merge_tests [OF assms] factory_test spread_tests)

end
