(* ===== verification/Parser_Tests.thy ===== *)
theory Parser_Tests
  imports Test_Harness F64_Eval Parser_Properties
begin

section \<open>The tests of the parsers (mod tests of sources/binance.rs and sources/bitstamp.rs)\<close>

text \<open>
  The unit tests of the two message parsers. The texts of the tests are the program's, with their
  line breaks. What serde\_json makes of a text is a parameter of the model; \<open>reads_samples\<close> says
  that it returns the JSON value each of the texts denotes and that the accessors are those of a
  JSON value.
\<close>

definition lines_text :: "string list \<Rightarrow> string" where
  "lines_text ls = concat (map (\<lambda>l. CHR 0x0A # l) ls)"

text \<open>\<open>str::replace\<close>: every occurrence that does not overlap an earlier one.\<close>

function str_replace :: "string \<Rightarrow> string \<Rightarrow> string \<Rightarrow> string" where
  "str_replace from to s =
     (if s = [] \<or> from = [] then s
      else if take (length from) s = from then to @ str_replace from to (drop (length from) s)
      else hd s # str_replace from to (tl s))"
  by auto
termination by (relation "measure (\<lambda>(from, to, s). length s)") auto

declare str_replace.simps [simp del]

text \<open>The views of a snapshot that only the tests have.\<close>

definition view_source_id :: "contributor_snapshot \<Rightarrow> source_id" where
  "view_source_id s = cs_source_id s"

definition view_bids :: "contributor_snapshot \<Rightarrow> panic + price_level list" where
  "view_bids s =
     (if cl_depth (cs_bids s) \<le> length (cl_levels (cs_bids s))
      then Inr (take (cl_depth (cs_bids s)) (cl_levels (cs_bids s))) else Inl IndexOutOfBounds)"

definition view_asks :: "contributor_snapshot \<Rightarrow> panic + price_level list" where
  "view_asks s =
     (if cl_depth (cs_asks s) \<le> length (cl_levels (cs_asks s))
      then Inr (take (cl_depth (cs_asks s)) (cl_levels (cs_asks s))) else Inl IndexOutOfBounds)"

definition assert_level :: "price_level list \<Rightarrow> nat \<Rightarrow> string \<Rightarrow> string \<Rightarrow> panic + unit" where
  "assert_level ls i price amount =
     bindP (index_at ls i) (\<lambda>l.
       assert_all [f64_eq (pl_price l) (f64_lit price), f64_eq (pl_amount l) (f64_lit amount)])"

subsection \<open>Binance\<close>

definition BINANCE_SAMPLE :: string where
  \<open>BINANCE_SAMPLE = lines_text
     [''    {'',
      ''      "bids": [["0.062", "7.5"], ["0.0619", "2.3"]],'',
      ''      "asks": [["0.063", "1.7"], ["0.064", "0.4"]]'',
      ''    }'',
      ''    '']\<close>

definition test_parse_binance_update_valid :: "'j serde_json \<Rightarrow> panic + unit" where
  "test_parse_binance_update_valid S =
     bindP (expect_ok (binance_parse_orderbook_update S 2 BINANCE_SAMPLE 0)) (\<lambda>snapshot.
     bindP (assert_all [view_source_id snapshot = Binance]) (\<lambda>_.
     bindP (view_bids snapshot) (\<lambda>bids.
     bindP (assert_all [length bids = 2]) (\<lambda>_.
     bindP (assert_level bids 0 ''0.062'' ''7.5'') (\<lambda>_.
     bindP (assert_level bids 1 ''0.0619'' ''2.3'') (\<lambda>_.
     bindP (view_asks snapshot) (\<lambda>asks.
     bindP (assert_all [length asks = 2]) (\<lambda>_.
     bindP (assert_level asks 0 ''0.063'' ''1.7'') (\<lambda>_.
       assert_level asks 1 ''0.064'' ''0.4'')))))))))"

definition BINANCE_EMPTY :: string where
  \<open>BINANCE_EMPTY = ''{"b": [], "a": []}''\<close>

definition test_parse_binance_update_empty :: "'j serde_json \<Rightarrow> panic + unit" where
  "test_parse_binance_update_empty S =
     bindP (expect_ok (binance_parse_orderbook_update S 5 BINANCE_EMPTY 0)) (\<lambda>snapshot.
     bindP (view_bids snapshot) (\<lambda>bids.
     bindP (assert_all [bids = []]) (\<lambda>_.
     bindP (view_asks snapshot) (\<lambda>asks.
       assert_all [asks = []]))))"

definition BINANCE_SMALL :: string where
  \<open>BINANCE_SMALL = lines_text
     [''        {'',
      ''          "bids": [["0.05", "3.0"]],'',
      ''          "asks": [["0.06", "4.0"]]'',
      ''        }'',
      ''        '']\<close>

definition test_parse_binance_update_partial_depth :: "'j serde_json \<Rightarrow> panic + unit" where
  "test_parse_binance_update_partial_depth S =
     bindP (expect_ok (binance_parse_orderbook_update S 5 BINANCE_SMALL 0)) (\<lambda>snapshot.
     bindP (view_bids snapshot) (\<lambda>bids.
     bindP (assert_all [length bids = 1]) (\<lambda>_.
     bindP (view_asks snapshot) (\<lambda>asks.
     bindP (assert_all [length asks = 1]) (\<lambda>_.
     bindP (assert_level bids 0 ''0.05'' ''3.0'') (\<lambda>_.
       assert_level asks 0 ''0.06'' ''4.0''))))))"

subsection \<open>Bitstamp\<close>

definition BITSTAMP_SAMPLE :: string where
  \<open>BITSTAMP_SAMPLE = lines_text
     [''    {'',
      ''      "event": "data",'',
      ''      "channel": "order_book_ethbtc",'',
      ''      "data": {'',
      ''        "timestamp": "1629384756",'',
      ''        "bids": [["0.032", "5.0"], ["0.0319", "1.2"]],'',
      ''        "asks": [["0.033", "3.1"], ["0.034", "0.7"]]'',
      ''      }'',
      ''    }'']\<close>

definition test_parse_bitstamp_update_valid :: "'j serde_json \<Rightarrow> panic + unit" where
  "test_parse_bitstamp_update_valid S =
     bindP (expect_ok (parse_bitstamp_update S 2 BITSTAMP_SAMPLE ''order_book_ethbtc'' 0)) (\<lambda>result.
     bindP (expect_some result) (\<lambda>snapshot.
     bindP (assert_all [view_source_id snapshot = Bitstamp]) (\<lambda>_.
     bindP (view_bids snapshot) (\<lambda>bids.
     bindP (assert_all [length bids = 2]) (\<lambda>_.
     bindP (assert_level bids 0 ''0.032'' ''5.0'') (\<lambda>_.
     bindP (assert_level bids 1 ''0.0319'' ''1.2'') (\<lambda>_.
     bindP (view_asks snapshot) (\<lambda>asks.
     bindP (assert_all [length asks = 2]) (\<lambda>_.
     bindP (assert_level asks 0 ''0.033'' ''3.1'') (\<lambda>_.
       assert_level asks 1 ''0.034'' ''0.7''))))))))))"

definition test_parse_bitstamp_update_wrong_channel :: "'j serde_json \<Rightarrow> panic + unit" where
  "test_parse_bitstamp_update_wrong_channel S =
     bindP (expect_ok (parse_bitstamp_update S 2 BITSTAMP_SAMPLE ''order_book_btcusd'' 0)) (\<lambda>result.
       assert_all [result = None])"

definition wrong_event :: string where
  \<open>wrong_event = str_replace ''"event": "data"'' ''"event": "other"'' BITSTAMP_SAMPLE\<close>

definition test_parse_bitstamp_update_wrong_event :: "'j serde_json \<Rightarrow> panic + unit" where
  "test_parse_bitstamp_update_wrong_event S =
     bindP (expect_ok (parse_bitstamp_update S 2 wrong_event ''order_book_ethbtc'' 0)) (\<lambda>result.
       assert_all [result = None])"

subsection \<open>What the texts denote\<close>

definition json_entry :: "string \<Rightarrow> string \<Rightarrow> json" where
  "json_entry price amount = JArr [JStr price, JStr amount]"

definition binance_sample_json :: json where
  "binance_sample_json =
     JObj [(''bids'', JArr [json_entry ''0.062'' ''7.5'', json_entry ''0.0619'' ''2.3'']),
           (''asks'', JArr [json_entry ''0.063'' ''1.7'', json_entry ''0.064'' ''0.4''])]"

definition bitstamp_sample_json :: "string \<Rightarrow> json" where
  "bitstamp_sample_json event =
     JObj [(''event'', JStr event), (''channel'', JStr ''order_book_ethbtc''),
           (''data'', JObj
             [(''timestamp'', JStr ''1629384756''),
              (''bids'', JArr [json_entry ''0.032'' ''5.0'', json_entry ''0.0319'' ''1.2'']),
              (''asks'', JArr [json_entry ''0.033'' ''3.1'', json_entry ''0.034'' ''0.7''])])]"

definition BITSTAMP_OTHER :: string where
  \<open>BITSTAMP_OTHER = lines_text
     [''    {'',
      ''      "event": "other",'',
      ''      "channel": "order_book_ethbtc",'',
      ''      "data": {'',
      ''        "timestamp": "1629384756",'',
      ''        "bids": [["0.032", "5.0"], ["0.0319", "1.2"]],'',
      ''        "asks": [["0.033", "3.1"], ["0.034", "0.7"]]'',
      ''      }'',
      ''    }'']\<close>

definition reads_samples :: "json serde_json \<Rightarrow> bool" where
  "reads_samples S \<longleftrightarrow>
     js_get S = json_get \<and> js_as_array S = json_array \<and> js_as_str S = json_str \<and>
     js_at_idx S = json_idx \<and> js_at_key S = json_key \<and>
     js_from_str S BINANCE_SAMPLE = Inr binance_sample_json \<and>
     js_from_str S BINANCE_EMPTY = Inr (JObj [(''b'', JArr []), (''a'', JArr [])]) \<and>
     js_from_str S BINANCE_SMALL =
       Inr (JObj [(''bids'', JArr [json_entry ''0.05'' ''3.0'']), (''asks'', JArr [json_entry ''0.06'' ''4.0''])]) \<and>
     js_from_str S BITSTAMP_SAMPLE = Inr (bitstamp_sample_json ''data'') \<and>
     js_from_str S BITSTAMP_OTHER = Inr (bitstamp_sample_json ''other'')"

subsection \<open>Evaluation\<close>

lemma numbers:
  "f64_from_str ''0.062'' = Inr 0x3FAFBE76C8B43958"
  "f64_from_str ''7.5'' = Inr 0x401E000000000000"
  "f64_from_str ''0.0619'' = Inr 0x3FAFB15B573EAB36"
  "f64_from_str ''2.3'' = Inr 0x4002666666666666"
  "f64_from_str ''0.063'' = Inr 0x3FB020C49BA5E354"
  "f64_from_str ''1.7'' = Inr 0x3FFB333333333333"
  "f64_from_str ''0.064'' = Inr 0x3FB0624DD2F1A9FC"
  "f64_from_str ''0.4'' = Inr 0x3FD999999999999A"
  "f64_from_str ''0.05'' = Inr 0x3FA999999999999A"
  "f64_from_str ''3.0'' = Inr 0x4008000000000000"
  "f64_from_str ''0.06'' = Inr 0x3FAEB851EB851EB8"
  "f64_from_str ''4.0'' = Inr 0x4010000000000000"
  "f64_from_str ''0.032'' = Inr 0x3FA0624DD2F1A9FC"
  "f64_from_str ''5.0'' = Inr 0x4014000000000000"
  "f64_from_str ''0.0319'' = Inr 0x3FA05532617C1BDA"
  "f64_from_str ''1.2'' = Inr 0x3FF3333333333333"
  "f64_from_str ''0.033'' = Inr 0x3FA0E5604189374C"
  "f64_from_str ''3.1'' = Inr 0x4008CCCCCCCCCCCD"
  "f64_from_str ''0.034'' = Inr 0x3FA16872B020C49C"
  "f64_from_str ''0.7'' = Inr 0x3FE6666666666666"
  by (simp add: float_text, simp add: float_bits)+

lemma f64_eq_self: "f64_gt x f64_zero \<Longrightarrow> f64_eq x x"
  by (simp add: f64_gt_iff f64_eq_iff)

lemma numbers_positive:
  "f64_gt 0x3FAFBE76C8B43958 f64_zero"
  "f64_gt 0x401E000000000000 f64_zero"
  "f64_gt 0x3FAFB15B573EAB36 f64_zero"
  "f64_gt 0x4002666666666666 f64_zero"
  "f64_gt 0x3FB020C49BA5E354 f64_zero"
  "f64_gt 0x3FFB333333333333 f64_zero"
  "f64_gt 0x3FB0624DD2F1A9FC f64_zero"
  "f64_gt 0x3FD999999999999A f64_zero"
  "f64_gt 0x3FA999999999999A f64_zero"
  "f64_gt 0x4008000000000000 f64_zero"
  "f64_gt 0x3FAEB851EB851EB8 f64_zero"
  "f64_gt 0x4010000000000000 f64_zero"
  "f64_gt 0x3FA0624DD2F1A9FC f64_zero"
  "f64_gt 0x4014000000000000 f64_zero"
  "f64_gt 0x3FA05532617C1BDA f64_zero"
  "f64_gt 0x3FF3333333333333 f64_zero"
  "f64_gt 0x3FA0E5604189374C f64_zero"
  "f64_gt 0x4008CCCCCCCCCCCD f64_zero"
  "f64_gt 0x3FA16872B020C49C f64_zero"
  "f64_gt 0x3FE6666666666666 f64_zero"
  by (simp_all add: f64_compute)

lemma wrong_event_text: "wrong_event = BITSTAMP_OTHER"
  unfolding wrong_event_def BITSTAMP_OTHER_def BITSTAMP_SAMPLE_def lines_text_def
  by code_simp

lemma literal_values: "f64_from_str s = Inr x \<Longrightarrow> f64_lit s = x"
  by (simp add: f64_lit_def)

lemmas run_parse = binance_parse_orderbook_update_def parse_bitstamp_update_def js_parse_def
  load_levels_def binance_entry_def bitstamp_entry_def parse_f64_def numbers numbers_positive unwrap_or_def Let_def
  binance_sample_json_def bitstamp_sample_json_def json_entry_def json_key_def
  snapshot_new_def levels_new_def push_bid_def push_ask_def levels_push_def numeral_eq_Suc

lemmas run_views = expect_ok_def expect_some_def view_source_id_def view_bids_def view_asks_def
  assert_level_def index_at_def numbers [THEN literal_values]
  numbers_positive numbers_positive [THEN f64_eq_self]

lemma parser_tests:
  assumes "reads_samples S"
  shows "test_parse_binance_update_valid S = Inr ()" "test_parse_binance_update_empty S = Inr ()"
    "test_parse_binance_update_partial_depth S = Inr ()" "test_parse_bitstamp_update_valid S = Inr ()"
    "test_parse_bitstamp_update_wrong_channel S = Inr ()"
    "test_parse_bitstamp_update_wrong_event S = Inr ()"
proof -
  note S = assms [unfolded reads_samples_def]
  show "test_parse_binance_update_empty S = Inr ()"
    by (simp add: test_parse_binance_update_empty_def S run_parse run_views)
  show "test_parse_binance_update_partial_depth S = Inr ()"
    by (simp add: test_parse_binance_update_partial_depth_def S run_parse, simp add: run_views)
  show "test_parse_binance_update_valid S = Inr ()"
    by (simp add: test_parse_binance_update_valid_def S run_parse, simp add: run_views)
  show "test_parse_bitstamp_update_valid S = Inr ()"
    by (simp add: test_parse_bitstamp_update_valid_def S run_parse, simp add: run_views)
  show "test_parse_bitstamp_update_wrong_channel S = Inr ()"
    by (simp add: test_parse_bitstamp_update_wrong_channel_def S run_parse run_views)
  show "test_parse_bitstamp_update_wrong_event S = Inr ()"
    by (simp add: test_parse_bitstamp_update_wrong_event_def wrong_event_text S run_parse run_views)
qed

subsection \<open>The suite\<close>

definition parser_suite :: "'j serde_json \<Rightarrow> (panic + unit) list" where
  "parser_suite S =
     [test_parse_binance_update_valid S, test_parse_binance_update_empty S,
      test_parse_binance_update_partial_depth S, test_parse_bitstamp_update_valid S,
      test_parse_bitstamp_update_wrong_channel S, test_parse_bitstamp_update_wrong_event S]"

lemma parser_suite_passes:
  assumes "reads_samples S"
  shows "list_all (\<lambda>test. test = Inr ()) (parser_suite S)"
  by (simp add: parser_suite_def parser_tests [OF assms])

text \<open>A reader that knows the samples.\<close>

definition sample_reader :: "json serde_json" where
  "sample_reader =
     \<lparr>js_from_str = (\<lambda>m.
        if m = BINANCE_SAMPLE then Inr binance_sample_json
        else if m = BINANCE_EMPTY then Inr (JObj [(''b'', JArr []), (''a'', JArr [])])
        else if m = BINANCE_SMALL then
          Inr (JObj [(''bids'', JArr [json_entry ''0.05'' ''3.0'']), (''asks'', JArr [json_entry ''0.06'' ''4.0''])])
        else if m = BITSTAMP_SAMPLE then Inr (bitstamp_sample_json ''data'')
        else if m = BITSTAMP_OTHER then Inr (bitstamp_sample_json ''other'')
        else Inl ''expected value''),
      js_get = json_get, js_as_array = json_array, js_as_str = json_str,
      js_at_idx = json_idx, js_at_key = json_key\<rparr>"

lemma samples_distinct:
  "distinct [BITSTAMP_OTHER, BITSTAMP_SAMPLE, BINANCE_SMALL, BINANCE_EMPTY, BINANCE_SAMPLE]"
  by code_simp

lemma sample_reader_reads: "reads_samples sample_reader"
  using samples_distinct by (simp add: reads_samples_def sample_reader_def)

end
