(* ===== verification/Common_Tests.thy ===== *)
theory Common_Tests
  imports Test_Harness Instruments Server_Config Shutdown_Signals
begin

section \<open>The tests of sources.rs, instrument.rs, shutdown.rs and config.rs\<close>

text \<open>
  The unit tests of the shared crate and of the server's configuration. \<open>socket_addr_string\<close> is the
  standard library's \<open>Display\<close> of a socket address, IPv6 with its longest run of two or more zero
  groups left out.
\<close>

subsection \<open>Printing a socket address\<close>

fun show_hex :: "nat \<Rightarrow> string" where
  "show_hex n =
     (let d = n mod 16; c = char_of (if d < 10 then 48 + d else 87 + d)
      in if n < 16 then [c] else show_hex (n div 16) @ [c])"

declare show_hex.simps [simp del]

definition join_with :: "string \<Rightarrow> string list \<Rightarrow> string" where
  "join_with sep ss = (case ss of [] \<Rightarrow> [] | s # r \<Rightarrow> s @ concat (map (\<lambda>x. sep @ x) r))"

definition show_groups :: "nat list \<Rightarrow> string" where
  "show_groups gs = join_with '':'' (map show_hex gs)"

definition zeros_from :: "nat list \<Rightarrow> nat \<Rightarrow> nat" where
  "zeros_from gs i = length (takeWhile (\<lambda>g. g = 0) (drop i gs))"

text \<open>The start of the longest run of zeros, the first of several.\<close>

definition longest_zeros :: "nat list \<Rightarrow> nat" where
  "longest_zeros gs =
     fold (\<lambda>i best. if zeros_from gs best < zeros_from gs i then i else best) [0..<length gs] 0"

definition show_ipv6 :: "nat list \<Rightarrow> string" where
  "show_ipv6 gs =
     (if take 6 gs = [0, 0, 0, 0, 0, 0xFFFF]
      then ''::ffff:'' @ show_ipv4 (gs ! 6 div 256) (gs ! 6 mod 256) (gs ! 7 div 256) (gs ! 7 mod 256)
      else (let start = longest_zeros gs; len = zeros_from gs start
            in if len > 1
               then show_groups (take start gs) @ ''::'' @ show_groups (drop (start + len) gs)
               else show_groups gs))"

fun socket_addr_string :: "socket_addr \<Rightarrow> string" where
  "socket_addr_string (V4 gs port) = join_with ''.'' (map show_nat gs) @ '':'' @ show_nat port"
| "socket_addr_string (V6 gs scope port) =
     ''['' @ show_ipv6 gs @ (if scope = 0 then '''' else ''%'' @ show_nat scope) @ '']:'' @ show_nat port"

subsection \<open>sources.rs\<close>

definition test_display :: "panic + unit" where
  "test_display =
     assert_all [source_id_fmt Bitstamp = ''bitstamp'', source_id_fmt Binance = ''binance'']"

definition test_from_str_success :: "(string \<Rightarrow> string) \<Rightarrow> panic + unit" where
  "test_from_str_success ul =
     bindP (expect_ok (Inr (source_id_from_str ul ''bitstamp''))) (\<lambda>a.
     bindP (assert_all [a = Bitstamp]) (\<lambda>_.
     bindP (expect_ok (Inr (source_id_from_str ul ''Bitstamp''))) (\<lambda>b.
     bindP (assert_all [b = Bitstamp]) (\<lambda>_.
     bindP (expect_ok (Inr (source_id_from_str ul ''BINANCE''))) (\<lambda>c.
       assert_all [c = Binance])))))"

definition test_from_str_failure :: "(string \<Rightarrow> string) \<Rightarrow> panic + unit" where
  "test_from_str_failure ul =
     (case source_id_from_str ul ''kraken'' of
        Inr _ \<Rightarrow> assert_all [False]
      | Inl e \<Rightarrow> assert_all [source_id_parse_error_fmt e = ''Invalid source ID: '' @ [CHR 0x27] @ ''kraken'' @ [CHR 0x27]])"

definition test_from_source_id_to_usize :: "panic + unit" where
  "test_from_source_id_to_usize =
     (let bitstamp_index = usize_from Bitstamp; binance_index = usize_from Binance
      in assert_all [bitstamp_index = 0, binance_index = 1])"

definition test_default :: "panic + unit" where
  "test_default = (let default_source = source_id_default in assert_all [default_source = Bitstamp])"

subsection \<open>instrument.rs\<close>

definition test_instrument_map_find_success :: "panic + unit" where
  "test_instrument_map_find_success =
     (let btc_sources = [\<lparr>ss_source = Bitstamp, ss_symbol = ''BTC/USD''\<rparr>,
                         \<lparr>ss_source = Binance, ss_symbol = ''XBT/USDT''\<rparr>];
          eth_sources = [\<lparr>ss_source = Bitstamp, ss_symbol = ''ETH/USD''\<rparr>,
                         \<lparr>ss_source = Binance, ss_symbol = ''ETH/USDT''\<rparr>];
          instruments = [instrument_new ''BTC'' btc_sources, instrument_new ''ETH'' eth_sources];
          instrument_map = instrument_map_new instruments;
          btc = instrument_map_get instrument_map ''BTC'';
          eth = instrument_map_get instrument_map ''ETH''
      in bindP (assert_all [btc \<noteq> None]) (\<lambda>_.
         bindP (expect_some btc) (\<lambda>btc.
         bindP (assert_all [in_symbol btc = ''BTC'', in_source_mapping btc Binance = Some ''XBT/USDT'']) (\<lambda>_.
         bindP (assert_all [eth \<noteq> None]) (\<lambda>_.
         bindP (expect_some eth) (\<lambda>eth.
           assert_all [in_symbol eth = ''ETH'', in_source_mapping eth Bitstamp = Some ''ETH/USD'']))))))"

definition test_instrument_map_find_not_found :: "panic + unit" where
  "test_instrument_map_find_not_found =
     (let instrument_map = instrument_map_new []
      in assert_all [instrument_map_get instrument_map ''DOGE'' = None])"

subsection \<open>shutdown.rs\<close>

text \<open>
  The test runs on the current thread, so the handler that \<open>ctrl_c_shutdown_signal\<close> spawned does not
  run before the test awaits, and \<open>recv\<close> finds the message without waiting.
\<close>

definition test_ctrl_c_shutdown_signal_manual :: "panic + unit" where
  "test_ctrl_c_shutdown_signal_manual =
     (let (shutdown_tx, handler) = ctrl_c_shutdown_signal;
          shutdown_rx = broadcast_subscribe shutdown_tx;
          shutdown_tx = broadcast_send shutdown_tx;
          result = broadcast_recv shutdown_tx shutdown_rx
      in assert_all [case result of Some (RecvOk, _) \<Rightarrow> True | _ \<Rightarrow> False])"

subsection \<open>config.rs\<close>

definition test_valid_cli_conversion :: "panic + unit" where
  "test_valid_cli_conversion =
     (let cli = \<lparr>cli_port = 8080, cli_listen_interface = None\<rparr>
      in bindP (expect_ok (Inr (app_config_try_from cli))) (\<lambda>config.
           assert_all [socket_addr_string (bind_addr (network config)) = ''127.0.0.1:8080'']))"

definition test_valid_cli_conversion_with_interface :: "panic + unit" where
  "test_valid_cli_conversion_with_interface =
     (let cli = \<lparr>cli_port = 8080, cli_listen_interface = Some ''0.0.0.0''\<rparr>
      in bindP (expect_ok (Inr (app_config_try_from cli))) (\<lambda>config.
           assert_all [socket_addr_string (bind_addr (network config)) = ''0.0.0.0:8080'']))"

definition test_app_config_error_display :: "panic + unit" where
  "test_app_config_error_display =
     (let err = InvalidBindAddr ''bad_addr''; msg = app_config_error_fmt err
      in assert_all [msg = ''Invalid bind address: bad_addr''])"

subsection \<open>Evaluation\<close>

lemma lower_case:
  "to_lowercase ul ''bitstamp'' = ''bitstamp''" "to_lowercase ul ''Bitstamp'' = ''bitstamp''"
  "to_lowercase ul ''BINANCE'' = ''binance''" "to_lowercase ul ''kraken'' = ''kraken''"
  unfolding to_lowercase_def by code_simp+

lemma source_tests:
  "test_display = Inr ()" "test_from_str_success ul = Inr ()" "test_from_str_failure ul = Inr ()"
  "test_from_source_id_to_usize = Inr ()" "test_default = Inr ()"
  by (simp_all add: test_display_def test_from_str_success_def test_from_str_failure_def
      test_from_source_id_to_usize_def test_default_def source_id_default_def expect_ok_def
      source_id_from_str_def lower_case)

lemma instrument_tests:
  "test_instrument_map_find_success = Inr ()" "test_instrument_map_find_not_found = Inr ()"
  by (simp_all add: test_instrument_map_find_success_def test_instrument_map_find_not_found_def
      instrument_map_new_def instrument_map_get_def instrument_new_def expect_some_def Let_def)

lemma shutdown_test: "test_ctrl_c_shutdown_signal_manual = Inr ()"
  by (simp add: test_ctrl_c_shutdown_signal_manual_def ctrl_c_shutdown_signal_def
      broadcast_channel_def broadcast_subscribe_def broadcast_send_def broadcast_recv_def)

lemma digit_chars:
  "digit_char 0 = CHR ''0''" "digit_char 1 = CHR ''1''" "digit_char 2 = CHR ''2''"
  "digit_char 7 = CHR ''7''" "digit_char 8 = CHR ''8''"
  by code_simp+

lemma decimals:
  "show_nat 8080 = ''8080''" "show_nat 127 = ''127''" "show_nat 0 = ''0''" "show_nat 1 = ''1''"
  by (simp_all add: show_nat.simps [of 8080] show_nat.simps [of 808] show_nat.simps [of 80]
      show_nat.simps [of 8] show_nat.simps [of 127] show_nat.simps [of 12] show_nat.simps [of 1]
      show_nat.simps [of 0] digit_chars del: One_nat_def)

lemma config_texts:
  "addr_text \<lparr>cli_port = 8080, cli_listen_interface = None\<rparr> = ''127.0.0.1:8080''"
  "addr_text \<lparr>cli_port = 8080, cli_listen_interface = Some ''0.0.0.0''\<rparr> = ''0.0.0.0:8080''"
  by (simp_all add: addr_text_def decimals)

lemma config_addresses:
  "parse_socket_addr ''127.0.0.1:8080'' = Some (V4 [127, 0, 0, 1] 8080)"
  "parse_socket_addr ''0.0.0.0:8080'' = Some (V4 [0, 0, 0, 0] 8080)"
  using parse_show_ipv4 [of 127 0 0 1 8080] parse_show_ipv4 [of 0 0 0 0 8080]
  unfolding show_ipv4_def decimals by simp_all

lemma config_strings:
  "socket_addr_string (V4 [127, 0, 0, 1] 8080) = ''127.0.0.1:8080''"
  "socket_addr_string (V4 [0, 0, 0, 0] 8080) = ''0.0.0.0:8080''"
  unfolding socket_addr_string.simps list.map decimals join_with_def by simp_all

lemma config_tests:
  "test_valid_cli_conversion = Inr ()" "test_valid_cli_conversion_with_interface = Inr ()"
  "test_app_config_error_display = Inr ()"
  by (simp_all add: test_valid_cli_conversion_def test_valid_cli_conversion_with_interface_def
      test_app_config_error_display_def app_config_try_from_def config_texts config_addresses
      config_strings [unfolded One_nat_def] expect_ok_def del: socket_addr_string.simps)

subsection \<open>The suite\<close>

definition common_suite :: "(string \<Rightarrow> string) \<Rightarrow> (panic + unit) list" where
  "common_suite ul =
     [test_display, test_from_str_success ul, test_from_str_failure ul, test_from_source_id_to_usize,
      test_default, test_instrument_map_find_success, test_instrument_map_find_not_found,
      test_ctrl_c_shutdown_signal_manual, test_valid_cli_conversion,
      test_valid_cli_conversion_with_interface, test_app_config_error_display]"

lemma common_suite_passes: "list_all (\<lambda>test. test = Inr ()) (common_suite ul)"
  by (simp add: common_suite_def source_tests instrument_tests shutdown_test config_tests)

end
