(* ===== verification/Format_Tests.thy ===== *)
theory Format_Tests
  imports Test_Harness F64_Eval Client
begin

section \<open>The test of the client's output (mod tests of aggclient/src/format.rs)\<close>

text \<open>
  The expected text is compared character by character, so the test fixes the decimal digits that
  the nearest doubles of the literals print, the alignment and the line breaks. Under test the clock
  of the module is a constant; the text of a duration is made by the crate humantime, an argument.
\<close>

definition test_clock :: nano_time where
  "test_clock = 1000000000"

definition expected_text :: string where
  "expected_text = concat (map (\<lambda>line. line @ newline)
     [''Latency to now 0s:'',
      ''Spread: 1.23456789'',
      ''Bids:'',
      ''  109.12345678 :     1.0000 [exchangeA]'',
      ''  108.87654321 :     2.0000 [exchangeB]'',
      ''Asks:'',
      ''  110.12345678 :     1.5000 [exchangeA]'',
      ''  111.87654321 :     2.5000 [exchangeB]''])"

definition test_display_summary_formatting :: "(nat \<Rightarrow> string) \<Rightarrow> bool \<Rightarrow> panic + unit" where
  "test_display_summary_formatting format_duration overflow_checks =
     (let summary = \<lparr>
        sm_spread = f64_lit ''1.23456789'',
        sm_bids =
          [\<lparr>lv_exchange = ''exchangeA'', lv_price = f64_lit ''109.12345678'', lv_amount = f64_lit ''1.0''\<rparr>,
           \<lparr>lv_exchange = ''exchangeB'', lv_price = f64_lit ''108.87654321'', lv_amount = f64_lit ''2.0''\<rparr>],
        sm_asks =
          [\<lparr>lv_exchange = ''exchangeA'', lv_price = f64_lit ''110.12345678'', lv_amount = f64_lit ''1.5''\<rparr>,
           \<lparr>lv_exchange = ''exchangeB'', lv_price = f64_lit ''111.87654321'', lv_amount = f64_lit ''2.5''\<rparr>],
        sm_arrival_time = test_clock\<rparr>
      in bindP (display_summary overflow_checks format_duration (uint test_clock) summary) (\<lambda>output.
           assert_all [output = expected_text]))"

subsection \<open>Printing a normal double\<close>

lemma exponent_split: "1 \<le> e \<Longrightarrow> e \<le> 1074 \<Longrightarrow> (1074 :: nat) = (1075 - e) + (e - 1)"
  by simp

text \<open>A normal double below \<open>2 ^ 53\<close> prints from its fraction on small integers.\<close>

lemma f64_make_fields:
  assumes "p < 2 ^ 63"
  shows "f64_low (f64_make False p) = int p" "\<not> f64_neg (f64_make False p)"
proof -
  have "uint (f64_make False p) = int p"
    using assms by (simp only: f64_make_def if_False add_0_right uint_word_of_int) simp
  then show "f64_low (f64_make False p) = int p" "\<not> f64_neg (f64_make False p)"
    using assms by (simp_all add: f64_low_def f64_neg_def)
qed

lemma f64_fmt_normal:
  assumes "p < 1075 * 2 ^ 52" "2 ^ 52 \<le> p" "0 < prec"
    and n: "n = round_div_even ((2 ^ 52 + p mod 2 ^ 52) * 10 ^ prec) (2 ^ (1075 - p div 2 ^ 52))"
  shows "f64_fmt prec (f64_make False p) = show_nat (n div 10 ^ prec) @ ''.'' @ fixed_digits prec n"
proof -
  let ?x = "f64_make False p"
  let ?e = "p div 2 ^ 52" and ?m = "2 ^ 52 + p mod 2 ^ 52"
  have small: "p < 2 ^ 63" using assms(1) by simp
  note low = f64_make_fields [OF small]
  have e: "1 \<le> ?e" "?e \<le> 1074" using assms(1,2) by simp_all
  have "f64_exp ?x = int ?e" by (simp add: f64_exp_def low zdiv_int)
  then have kind: "\<not> is_nan ?x" "\<not> is_inf ?x" using e by (simp_all add: is_nan_def is_inf_def)
  have "f64_mag ?x = int (?m * 2 ^ (?e - 1))"
  proof -
    have "int p div 2 ^ 52 = int ?e" "int p mod 2 ^ 52 = int (p mod 2 ^ 52)"
      by (simp_all add: zdiv_int zmod_int)
    moreover have "nat (int ?e - 1) = ?e - 1" by simp
    ultimately show ?thesis using e by (simp add: f64_mag_def pattern_mag_def low Let_def)
  qed
  then have "nat (f64_mag ?x) * 10 ^ prec = (?m * 10 ^ prec) * 2 ^ (?e - 1)"
    by (simp only: nat_int mult_ac)
  moreover have "(2 :: nat) ^ 1074 = 2 ^ (1075 - ?e) * 2 ^ (?e - 1)"
    using e by (metis power_add exponent_split)
  ultimately have "scaled_mag prec ?x = n"
    unfolding scaled_mag_def n by (simp only: round_div_even_cancel zero_less_power zero_less_numeral)
  then show ?thesis using kind low(2) assms(3) by (simp add: f64_fmt_def)
qed

lemma fixed_digits_numeral:
  "fixed_digits (numeral k) n = fixed_digits (pred_numeral k) (n div 10) @ [digit_char (n mod 10)]"
  by (subst numeral_eq_Suc) (rule fixed_digits.simps(2))

lemma show_nat_steps:
  "n < 10 \<Longrightarrow> show_nat n = [digit_char n]"
  "10 \<le> n \<Longrightarrow> show_nat n = show_nat (n div 10) @ [digit_char (n mod 10)]"
  by (subst show_nat.simps, simp)+

lemma digit_texts:
  "digit_char 0 = CHR ''0''" "digit_char 1 = CHR ''1''" "digit_char (Suc 0) = CHR ''1''"
  "digit_char 2 = CHR ''2''" "digit_char 3 = CHR ''3''" "digit_char 4 = CHR ''4''"
  "digit_char 5 = CHR ''5''" "digit_char 6 = CHR ''6''" "digit_char 7 = CHR ''7''"
  "digit_char 8 = CHR ''8''" "digit_char 9 = CHR ''9''"
  by code_simp+

lemmas printed = fixed_digits_numeral show_nat_steps digit_texts

lemma patterns:
  "decimal_pattern 123456789 (- 8) = 4608238818662014491"
  "decimal_pattern 10912345678 (- 8) = 4637379297550804082"
  "decimal_pattern 10887654321 (- 8) = 4637361922552962758"
  "decimal_pattern 11012345678 (- 8) = 4637449666294981746"
  "decimal_pattern 11187654321 (- 8) = 4637573028785495750"
  "decimal_pattern 10 (- 1) = 4607182418800017408"
  "decimal_pattern 20 (- 1) = 4611686018427387904"
  "decimal_pattern 15 (- 1) = 4609434218613702656"
  "decimal_pattern 25 (- 1) = 4612811918334230528"
  by (simp_all add: decimal_pattern_eval round_div_even_def)

lemma format_literals:
  "f64_lit ''1.23456789'' = f64_make False 4608238818662014491"
  "f64_lit ''109.12345678'' = f64_make False 4637379297550804082"
  "f64_lit ''108.87654321'' = f64_make False 4637361922552962758"
  "f64_lit ''110.12345678'' = f64_make False 4637449666294981746"
  "f64_lit ''111.87654321'' = f64_make False 4637573028785495750"
  "f64_lit ''1.0'' = f64_make False 4607182418800017408"
  "f64_lit ''2.0'' = f64_make False 4611686018427387904"
  "f64_lit ''1.5'' = f64_make False 4609434218613702656"
  "f64_lit ''2.5'' = f64_make False 4612811918334230528"
  by (simp_all add: float_text patterns)

lemma printed_literals:
  "f64_fmt 8 (f64_lit ''1.23456789'') = ''1.23456789''"
  "f64_fmt 8 (f64_lit ''109.12345678'') = ''109.12345678''"
  "f64_fmt 8 (f64_lit ''108.87654321'') = ''108.87654321''"
  "f64_fmt 8 (f64_lit ''110.12345678'') = ''110.12345678''"
  "f64_fmt 8 (f64_lit ''111.87654321'') = ''111.87654321''"
  "f64_fmt 4 (f64_lit ''1.0'') = ''1.0000''"
  "f64_fmt 4 (f64_lit ''2.0'') = ''2.0000''"
  "f64_fmt 4 (f64_lit ''1.5'') = ''1.5000''"
  "f64_fmt 4 (f64_lit ''2.5'') = ''2.5000''"
  by (simp_all add: format_literals f64_fmt_normal [OF _ _ _ refl] round_div_even_def printed)

subsection \<open>Evaluation\<close>

lemma four_spaces: "replicate 4 CHR '' '' = ''    ''"
  by (simp add: numeral_eq_Suc)

lemma display_summary_test:
  assumes "format_duration 0 = ''0s''"
  shows "test_display_summary_formatting format_duration overflow_checks = Inr ()"
  by (simp add: test_display_summary_formatting_def display_summary_def nanos_now_def latency_def
      nanos_pretty_def test_clock_def expected_text_def level_line_def pad_left_def newline_def
      printed_literals four_spaces assms)

end
