(* ===== verification/Service_Tests.thy ===== *)
theory Service_Tests
  imports Merge_Tests Server_Lifecycle Whole_System
begin

section \<open>The tests of the publisher, the manager and the service\<close>

text \<open>
  The asynchronous unit tests. While such a test sleeps or waits the tasks it has started run in an
  order it does not control, so a test is the set of its outcomes over all orders: \<open>Some r\<close> for a
  test that returns \<open>r\<close>, \<open>None\<close> for one that waits for ever. A sleep ends when the tasks it is meant
  for have done what they can, the timers that are shorter than it having fired; the others may have
  run or not. The test of a summary that reaches a client relies on the single thread of its runtime
  and is not here: with any other interleaving the client can miss the summary.
\<close>

subsection \<open>publisher.rs\<close>

definition dummy_snapshot :: "nat \<Rightarrow> source_id \<Rightarrow> f64 \<Rightarrow> f64 \<Rightarrow> contributor_snapshot" where
  "dummy_snapshot n source price amount = push_bid n (snapshot_new n source 123456) price amount"

text \<open>The task of \<open>local_run\<close> and the guard task run until neither has a step left.\<close>

inductive publisher_task :: "av_push \<Rightarrow> nat \<Rightarrow> publisher \<Rightarrow> publisher \<Rightarrow> bool"
  for av :: av_push and n :: nat where
  run: "publisher_step av n pb ev = Some pb' \<Longrightarrow> publisher_task av n pb pb'"
| guard: "\<not> pb_handle pb \<Longrightarrow> publisher_task av n pb (store_handle pb)"

definition publisher_sleep :: "av_push \<Rightarrow> nat \<Rightarrow> publisher \<Rightarrow> publisher set" where
  "publisher_sleep av n pb =
     {pb'. (publisher_task av n)\<^sup>*\<^sup>* pb pb' \<and> (\<forall>x. \<not> publisher_task av n pb' x)}"

fun await_summary :: "av_push \<Rightarrow> nat \<Rightarrow> nat \<Rightarrow> publisher \<Rightarrow> (panic + unit) option set" where
  "await_summary av 0 rx pb = {Some (Inl AssertFailed)}"
| "await_summary av (Suc k) rx pb =
     (\<Union>pb' \<in> publisher_sleep av 5 pb.
        if pb_version pb' = rx then {None}
        else (case latest_summary pb' of
                Inr (Some s) \<Rightarrow>
                  if sm_bids s \<noteq> []
                  then {Some (bindP (index_at (sm_bids s) 0) (\<lambda>b.
                    assert_all [f64_eq (lv_price b) (f64_lit ''100.0''), f64_eq (lv_amount b) (f64_lit ''1.0'')]))}
                  else await_summary av k (pb_version pb') pb'
              | _ \<Rightarrow> await_summary av k (pb_version pb') pb'))"

definition publisher_receives_and_updates_summary :: "av_push \<Rightarrow> (panic + unit) option set" where
  "publisher_receives_and_updates_summary av =
     (let publisher = publisher_start 5;
          update = dummy_snapshot 5 Binance (f64_lit ''100.0'') (f64_lit ''1.0'')
      in case source_send publisher update of
           None \<Rightarrow> {None}
         | Some (Inl e) \<Rightarrow> {Some (Inl UnwrapErr)}
         | Some (Inr publisher) \<Rightarrow> await_summary av 5 (pb_version publisher) publisher)"

definition publisher_shutdown_triggers_summary_error :: "av_push \<Rightarrow> (panic + unit) option set" where
  "publisher_shutdown_triggers_summary_error av =
     (let publisher = publisher_start 5;
          rx = pb_version publisher;
          publisher = publisher_close publisher
      in (\<lambda>pb. if pb_version pb = rx then None
            else Some (assert_all [\<exists>e. latest_summary pb = Inl e])) ` publisher_sleep av 5 publisher)"

definition publisher_wait_complete_joins_successfully :: "av_push \<Rightarrow> (panic + unit) option set" where
  "publisher_wait_complete_joins_successfully av =
     (let publisher = publisher_close (publisher_start 5)
      in (\<lambda>pb. case wait_complete pb of
            None \<Rightarrow> None
          | Some (result, pb') \<Rightarrow> Some (assert_all [\<exists>u. result = Inr u])) ` publisher_sleep av 5 publisher)"

text \<open>A task with one thing to do, next to the guard: there is one state in which the sleep ends.\<close>

lemma publisher_sleep_once:
  assumes step: "\<And>ev x. publisher_step av n pb ev = Some x \<longleftrightarrow> ev = e \<and> x = pb'"
    and step': "\<And>ev x. publisher_step av n (store_handle pb) ev = Some x \<longleftrightarrow> ev = e \<and> x = store_handle pb'"
    and ended: "\<And>ev. publisher_step av n pb' ev = None" "\<And>ev. publisher_step av n (store_handle pb') ev = None"
    and handle: "\<not> pb_handle pb" "\<not> pb_handle pb'"
  shows "publisher_sleep av n pb = {store_handle pb'}"
proof -
  have stored: "pb_handle (store_handle x)" for x by (simp add: store_handle_def)
  have from_stored: "publisher_task av n (store_handle pb) x \<longleftrightarrow> x = store_handle pb'" for x
    by (auto simp: publisher_task.simps step' stored)
  have from_done: "publisher_task av n pb' x \<longleftrightarrow> x = store_handle pb'" for x
    by (auto simp: publisher_task.simps ended handle)
  have final: "\<not> publisher_task av n (store_handle pb') x" for x
    by (auto simp: publisher_task.simps ended stored)
  have start: "publisher_task av n pb x \<longleftrightarrow> x = pb' \<or> x = store_handle pb" for x
    by (auto simp: publisher_task.simps step handle)
  have "x \<in> {pb, pb', store_handle pb, store_handle pb'}" if "(publisher_task av n)\<^sup>*\<^sup>* pb x" for x
    using that
    by (induction rule: rtranclp_induct) (auto simp: start from_stored from_done final)
  then have "x = store_handle pb'" if "x \<in> publisher_sleep av n pb" for x
    using that start from_stored from_done unfolding publisher_sleep_def by blast
  moreover have "(publisher_task av n)\<^sup>*\<^sup>* pb (store_handle pb')"
  proof -
    have "publisher_task av n pb pb'" "publisher_task av n pb' (store_handle pb')"
      by (simp_all add: start from_done)
    then show ?thesis by (rule converse_rtranclp_into_rtranclp [OF _ r_into_rtranclp])
  qed
  ultimately show ?thesis using final unfolding publisher_sleep_def by blast
qed

text \<open>The summary of the one bid.\<close>

definition dummy_book :: contributor_snapshot where
  "dummy_book = dummy_snapshot 5 Binance (f64_lit ''100.0'') (f64_lit ''1.0'')"

definition dummy_summary :: summary where
  "dummy_summary = \<lparr>sm_spread = f64_nan,
     sm_bids = [\<lparr>lv_exchange = ''binance'', lv_price = 0x4059000000000000, lv_amount = 0x3FF0000000000000\<rparr>],
     sm_asks = [], sm_arrival_time = 123456\<rparr>"

lemma dummy_merge:
  assumes "arrayvec_push_spec av"
  shows "to_proto av 5 (book_of 5 [dummy_book]) = Inr dummy_summary"
proof -
  have av: "av cap xs x = (if length xs < cap then Inr (xs @ [x]) else Inl CapacityExceeded)" for cap xs x
    using assms by (simp add: arrayvec_push_spec_def)
  show ?thesis
    by (simp add: book_of_def last_of_def dummy_book_def dummy_snapshot_def run_test, simp add: run_update,
        simp add: run_merge av dummy_summary_def)
qed

lemma publisher_tests:
  assumes "arrayvec_push_spec av"
  shows "publisher_receives_and_updates_summary av = {Some (Inr ())}"
    "publisher_shutdown_triggers_summary_error av = {Some (Inr ())}"
    "publisher_wait_complete_joins_successfully av = {Some (Inr ())}"
proof -
  let ?new = "publisher_start 5"
  let ?sent = "?new\<lparr>pb_queue := [dummy_book]\<rparr>"
  let ?got = "publish_result (Inr (Some dummy_summary)) (?new\<lparr>pb_phase := Running (book_of 5 [dummy_book])\<rparr>)"
  have upd: "update_snapshot (combined_new 5) dummy_book = Inr (book_of 5 [dummy_book])"
    using update_book_of [of 5 "[]"] by (simp add: combined_new_book_of)
  have step: "publisher_step av 5 ?sent ev = Some x \<longleftrightarrow> ev = RecvSnapshot \<and> x = ?got"
    "publisher_step av 5 (store_handle ?sent) ev = Some x \<longleftrightarrow> ev = RecvSnapshot \<and> x = store_handle ?got" for ev x
    by (cases ev; auto simp: publisher_start_def upd dummy_merge [OF assms] store_handle_def publish_result_def)+
  have ended: "publisher_step av 5 ?got ev = None" "publisher_step av 5 (store_handle ?got) ev = None" for ev
    by (cases ev; simp add: publisher_start_def publish_result_def store_handle_def)+
  have sleep: "publisher_sleep av 5 ?sent = {store_handle ?got}"
    by (rule publisher_sleep_once [OF step ended]) (simp_all add: publisher_start_def publish_result_def)
  have "source_send ?new dummy_book = Some (Inr ?sent)"
    by (simp add: source_send_def receiver_open_def publisher_start_def BACKLOG_SIZE_def)
  then have "publisher_receives_and_updates_summary av = await_summary av (Suc 4) 0 ?sent"
    by (simp add: publisher_receives_and_updates_summary_def dummy_book_def [symmetric] Let_def)
      (simp add: publisher_start_def)
  also have "\<dots> = {Some (Inr ())}"
    unfolding await_summary.simps sleep
    by (simp add: store_handle_def publish_result_def publisher_start_def latest_summary_def
        dummy_summary_def index_at_def literals f64_compute)
  finally show "publisher_receives_and_updates_summary av = {Some (Inr ())}" .
  let ?closed = "publisher_close ?new"
  let ?shut = "publish_result (Inl SummaryShutdown) (?new\<lparr>pb_phase := Finished\<rparr>)"
  have step: "publisher_step av 5 ?closed ev = Some x \<longleftrightarrow> ev = RecvShutdown \<and> x = ?shut"
    "publisher_step av 5 (store_handle ?closed) ev = Some x \<longleftrightarrow> ev = RecvShutdown \<and> x = store_handle ?shut" for ev x
    by (cases ev; auto simp: publisher_start_def publisher_close_def receiver_open_def store_handle_def publish_result_def)+
  have ended: "publisher_step av 5 ?shut ev = None" "publisher_step av 5 (store_handle ?shut) ev = None" for ev
    by (cases ev; simp add: publisher_start_def publish_result_def store_handle_def)+
  have sleep: "publisher_sleep av 5 ?closed = {store_handle ?shut}"
    by (rule publisher_sleep_once [OF step ended])
      (simp_all add: publisher_start_def publish_result_def publisher_close_def receiver_open_def)
  show "publisher_shutdown_triggers_summary_error av = {Some (Inr ())}"
    by (simp add: publisher_shutdown_triggers_summary_error_def sleep Let_def)
      (simp add: store_handle_def publish_result_def publisher_start_def latest_summary_def)
  show "publisher_wait_complete_joins_successfully av = {Some (Inr ())}"
    by (simp add: publisher_wait_complete_joins_successfully_def sleep Let_def)
      (simp add: store_handle_def publish_result_def publisher_start_def wait_complete_def)
qed

subsection \<open>manager.rs\<close>

record manager_mock =
  mm_source_id :: source_id
  mm_latest :: "(feed_error + contributor_snapshot) option"
  mm_version :: nat

definition mock_new_shared :: "source_id \<Rightarrow> manager_mock" where
  "mock_new_shared source_id = \<lparr>mm_source_id = source_id, mm_latest = None, mm_version = 0\<rparr>"

definition mock_factory_map :: "manager_mock factory_map" where
  "mock_factory_map = factory_map_from_vec [(Binance, \<lambda>symbol. okP (mock_new_shared Binance))]"

definition instrument_with_symbol :: "string \<Rightarrow> instrument_map" where
  "instrument_with_symbol symbol =
     (let source_symbols = [\<lparr>ss_source = Binance, ss_symbol = symbol\<rparr>];
          instrument = instrument_new symbol source_symbols
      in instrument_map_new [instrument])"

text \<open>\<open>open\<close> of the symbol of the one instrument.\<close>

definition mock_open :: "source_id list \<Rightarrow> string \<Rightarrow> manager \<Rightarrow> (panic + (string + nat)) \<times> manager" where
  "mock_open ord symbol = manager_open 10 (create_summary_sources ord mock_factory_map) (instrument_with_symbol symbol) symbol"

definition manager_creates_and_reuses_feed :: "source_id list \<Rightarrow> panic + unit" where
  "manager_creates_and_reuses_feed ord =
     (let manager = manager_new;
          (opened1, manager) = mock_open ord ''ethbtc-test-1'' manager
      in bindP (expect_ok opened1) (\<lambda>feed1.
         let (opened2, manager) = mock_open ord ''ethbtc-test-1'' manager
         in bindP (expect_ok opened2) (\<lambda>feed2. assert_all [feed1 = feed2])))"

text \<open>The tasks of the manager while a test sleeps: no request comes in, so there is no new client.\<close>

definition manager_tasks :: "av_push \<Rightarrow> source_id list \<Rightarrow> string \<Rightarrow> manager \<Rightarrow> manager \<Rightarrow> bool" where
  "manager_tasks av ord symbol m m' \<longleftrightarrow>
     (\<exists>ended. manager_work ended av 10 (create_summary_sources ord mock_factory_map) (instrument_with_symbol symbol)
        m m') \<and>
     length (mg_clients m') = length (mg_clients m)"

text \<open>The sleep of two seconds is longer than the grace period of the test build.\<close>

definition feed_unsubscribe_triggers_removal :: "av_push \<Rightarrow> source_id list \<Rightarrow> (panic + unit) option set" where
  "feed_unsubscribe_triggers_removal av ord =
     (let (opened, manager) = mock_open ord ''ethbtc-test-2'' manager_new
      in case opened of
           Inr (Inr feed) \<Rightarrow>
             (let manager = on_subscribe feed manager;
                  subscriptions = fd_subscriptions (mg_heap manager ! feed)
              in case assert_all [subscriptions = 1] of
                   Inl p \<Rightarrow> {Some (Inl p)}
                 | Inr u \<Rightarrow>
                     (let manager = on_unsubscribe feed manager
                      in (\<lambda>m. Some (assert_all [mg_feeds m ''ethbtc-test-2'' = None])) `
                         {m. (manager_tasks av ord ''ethbtc-test-2'')\<^sup>*\<^sup>* manager m \<and> mg_grace m = []}))
         | _ \<Rightarrow> {Some (Inl UnwrapErr)})"

text \<open>The task \<open>Manager::new\<close> spawns, next to the others, on the channel of the test.\<close>

inductive shutdown_tasks :: "av_push \<Rightarrow> source_id list \<Rightarrow> string \<Rightarrow> server \<Rightarrow> server \<Rightarrow> bool"
  for av :: av_push and ord :: "source_id list" and symbol :: string where
  task: "distinct order \<Longrightarrow> set order = dom (mg_feeds (sv_manager s)) \<Longrightarrow>
    manager_task_step order s = Some s' \<Longrightarrow> shutdown_tasks av ord symbol s s'"
| work: "manager_tasks av ord symbol (sv_manager s) m \<Longrightarrow> shutdown_tasks av ord symbol s (s\<lparr>sv_manager := m\<rparr>)"

definition manager_shutdown_drains_all_feeds :: "av_push \<Rightarrow> source_id list \<Rightarrow> (panic + unit) option set" where
  "manager_shutdown_drains_all_feeds av ord =
     (let (shutdown, shutdown_rx) = shutdown_channel;
          task = MtListening (broadcast_subscribe shutdown);
          (opened, manager) = mock_open ord ''ethbtc-test-3'' manager_new
      in case opened of
           Inr (Inr feed) \<Rightarrow>
             (let shutdown = broadcast_send shutdown;
                  server = \<lparr>sv_signal = (shutdown, HandlerDone), sv_run = RunManaged, sv_task = Some task,
                    sv_manager = manager, sv_dropped = False\<rparr>
              in (\<lambda>s. Some (assert_all [mg_feeds (sv_manager s) = Map.empty])) `
                 {s. (shutdown_tasks av ord ''ethbtc-test-3'')\<^sup>*\<^sup>* server s \<and>
                   (\<forall>order. set order = dom (mg_feeds (sv_manager s)) \<longrightarrow> manager_task_step order s = None)})
         | _ \<Rightarrow> {Some (Inl UnwrapErr)})"

subsection \<open>service.rs\<close>

record service_mock =
  sk_source :: source_id
  sk_snapshot :: "contributor_snapshot option"
  sk_notified :: nat

definition service_mock_new :: "source_id \<Rightarrow> service_mock" where
  "service_mock_new source_id = \<lparr>sk_source = source_id, sk_snapshot = None, sk_notified = 0\<rparr>"

definition test_instrument_map :: instrument_map where
  "test_instrument_map =
     (let source_symbols = [\<lparr>ss_source = Bitstamp, ss_symbol = ''ethbtc''\<rparr>,
                            \<lparr>ss_source = Binance, ss_symbol = ''ETHBTC''\<rparr>];
          instrument = instrument_new ''ETH-BTC'' source_symbols
      in instrument_map_new [instrument])"

text \<open>\<open>str::contains\<close>\<close>

fun str_contains :: "string \<Rightarrow> string \<Rightarrow> bool" where
  "str_contains [] sub \<longleftrightarrow> sub = []"
| "str_contains (c # s) sub \<longleftrightarrow> take (length sub) (c # s) = sub \<or> str_contains s sub"

definition aggregator_service_fails_on_missing_factory :: "source_id list \<Rightarrow> panic + unit" where
  "aggregator_service_fails_on_missing_factory ord =
     (let mock = service_mock_new Binance;
          factory_map = factory_map_from_vec [(Binance, \<lambda>symbol. okP mock)];
          service = aggregator_service_new manager_new ''ETH-BTC'';
          (response, manager) = book_summary 5 (create_summary_sources ord factory_map) test_instrument_map
            (as_default_symbol service) (as_manager service)
      in bindP response (\<lambda>response.
           case response of
             Inr stream \<Rightarrow> Inl AssertFailed
           | Inl (code, message) \<Rightarrow>
               bindP (assert_all [code = GrpcInternal]) (\<lambda>_.
                 assert_all [str_contains message ''Missing factory''])))"

subsection \<open>Evaluation\<close>

lemma iteration_orders: "iteration_order ord \<Longrightarrow> ord = [Bitstamp, Binance] \<or> ord = [Binance, Bitstamp]"
proof -
  assume o: "iteration_order ord"
  then have "length ord = 2" using distinct_card [of ord] by (simp add: iteration_order_def UNIV_source_id)
  then obtain a b where "ord = [a, b]" by (auto simp: numeral_2_eq_2 length_Suc_conv)
  then show ?thesis using o by (cases a; cases b) (auto simp: iteration_order_def)
qed

lemma missing_factory_test:
  assumes "iteration_order ord"
  shows "aggregator_service_fails_on_missing_factory ord = Inr ()"
  using iteration_orders [OF assms]
  by (auto simp: aggregator_service_fails_on_missing_factory_def aggregator_service_new_def Let_def
      book_summary_def open_summary_stream_def manager_open_def manager_new_def test_instrument_map_def
      instrument_map_new_def instrument_map_get_def instrument_new_def create_summary_sources_def
      source_mapping_iter_def List.map_filter_def factory_map_from_vec_def missing_factory_def with_context_def)

lemma mock_open_new:
  assumes "iteration_order ord"
  shows "mock_open ord symbol manager_new = (okP 0, manager_new
    \<lparr>mg_heap := [new_feed (instrument_new symbol [\<lparr>ss_source = Binance, ss_symbol = symbol\<rparr>]) (publisher_start 10) 1],
     mg_feeds := [symbol \<mapsto> 0]\<rparr>)"
  using iteration_orders [OF assms]
  by (auto simp: mock_open_def manager_open_def manager_new_def instrument_with_symbol_def Let_def
      instrument_map_new_def instrument_map_get_def instrument_new_def create_summary_sources_def
      source_mapping_iter_def List.map_filter_def mock_factory_map_def factory_map_from_vec_def with_context_def)

lemma reuse_test:
  assumes "iteration_order ord"
  shows "manager_creates_and_reuses_feed ord = Inr ()"
  by (simp add: manager_creates_and_reuses_feed_def mock_open_new [OF assms] expect_ok_def Let_def)
    (simp add: mock_open_def manager_open_def manager_new_def)

subsection \<open>A manager without clients\<close>

text \<open>Its tasks open no feed and serve nobody; the end of a grace period may close one.\<close>

lemma tasks_without_clients:
  assumes "manager_tasks av ord symbol m m'" "mg_clients m = []"
  shows "mg_clients m' = [] \<and> mg_feeds m' \<subseteq>\<^sub>m mg_feeds m"
proof -
  obtain ended where
    "manager_work ended av 10 (create_summary_sources ord mock_factory_map) (instrument_with_symbol symbol) m m'"
    "length (mg_clients m') = length (mg_clients m)"
    using assms(1) by (auto simp: manager_tasks_def)
  then show ?thesis
    using assms(2)
  proof (induction rule: manager_work.induct)
    case (request s m r m')
    from request(1) show ?case by (cases rule: open_summary_stream_cases) (use request(2,3) in auto)
  next
    case (grace_fire k m)
    then show ?case
      by (auto simp: remove_feed_if_unused_def Let_def map_le_def split: option.split)
  next
    case (shut k m m')
    then show ?case by (auto simp: shutdown_step_def Let_def split: list.splits option.splits)
  qed simp_all
qed

text \<open>One feed without subscribers: waiting for the end of its grace period, or closed.\<close>

definition grace_pending :: "string \<Rightarrow> manager \<Rightarrow> bool" where
  "grace_pending symbol m \<longleftrightarrow>
     (\<exists>ph. ph \<noteq> GraceNotified \<and> mg_grace m = [\<lparr>gr_feed = 0, gr_phase = ph\<rparr>]) \<and> mg_feeds m = [symbol \<mapsto> 0]"

definition unused_feed :: "string \<Rightarrow> manager \<Rightarrow> bool" where
  "unused_feed symbol m \<longleftrightarrow> mg_clients m = [] \<and>
     (\<exists>fd. mg_heap m = [fd] \<and> fd_subscriptions fd = 0 \<and> in_symbol (fd_instrument fd) = symbol) \<and>
     (grace_pending symbol m \<or> mg_grace m = [] \<and> mg_feeds m = Map.empty)"

lemma unused_feed_fires:
  assumes "unused_feed symbol m" "k < length (mg_grace m)"
  shows "unused_feed symbol (remove_feed_if_unused (gr_feed (mg_grace m ! k)) (m\<lparr>mg_grace := drop_nth k (mg_grace m)\<rparr>))"
    "mg_grace (remove_feed_if_unused (gr_feed (mg_grace m ! k)) (m\<lparr>mg_grace := drop_nth k (mg_grace m)\<rparr>)) = []"
  using assms
  by (auto simp: unused_feed_def grace_pending_def remove_feed_if_unused_def drop_nth_def Let_def)

lemma unused_feed_tasks:
  assumes "manager_tasks av ord symbol m m'" "unused_feed symbol m"
  shows "unused_feed symbol m'"
proof -
  obtain ended where
    "manager_work ended av 10 (create_summary_sources ord mock_factory_map) (instrument_with_symbol symbol) m m'"
    "length (mg_clients m') = length (mg_clients m)"
    using assms(1) by (auto simp: manager_tasks_def)
  then show ?thesis
    using assms(2)
  proof (induction rule: manager_work.induct)
    case (request s m r m')
    from request(1) show ?case
      by (cases rule: open_summary_stream_cases) (use request(2,3) in \<open>auto simp: unused_feed_def grace_pending_def\<close>)
  next
    case (client k m ev m')
    then show ?case by (simp add: unused_feed_def)
  next
    case (publisher fid m pb)
    then show ?case by (auto simp: unused_feed_def grace_pending_def update_feed_def)
  next
    case (grace_poll k m)
    then show ?case by (auto simp: unused_feed_def grace_pending_def)
  next
    case (grace_fire k m)
    then show ?case using unused_feed_fires(1) by blast
  next
    case (grace_cancelled k m)
    then show ?case by (auto simp: unused_feed_def grace_pending_def)
  next
    case (shut k m m')
    obtain g fd ph task' where step: "feed_shutdown_step (ended g) (sd_phase (mg_shutdowns m ! k)) (mg_heap m ! g) = Some (fd, ph)"
      "m' = update_feed g (\<lambda>_. fd) (m\<lparr>mg_shutdowns := (mg_shutdowns m)[k := task']\<rparr>)"
      using shut(2) by (auto simp: shutdown_step_def Let_def split: list.splits option.splits)
    then show ?case
      using shut(4) feed_shutdown_step_frame [OF step(1)]
      by (cases g) (auto simp: unused_feed_def grace_pending_def update_feed_def)
  qed
qed

lemma manager_tasks_fire:
  assumes "k < length (mg_grace m)"
  shows "manager_tasks av ord symbol m
    (remove_feed_if_unused (gr_feed (mg_grace m ! k)) (m\<lparr>mg_grace := drop_nth k (mg_grace m)\<rparr>))"
  unfolding manager_tasks_def by (intro conjI exI manager_work.grace_fire [OF assms]) simp

lemma removal_test:
  assumes "iteration_order ord"
  shows "feed_unsubscribe_triggers_removal av ord = {Some (Inr ())}"
proof -
  let ?sym = "''ethbtc-test-2''"
  let ?i = "instrument_new ?sym [\<lparr>ss_source = Binance, ss_symbol = ?sym\<rparr>]"
  let ?opened = "manager_new\<lparr>mg_heap := [new_feed ?i (publisher_start 10) 1], mg_feeds := [?sym \<mapsto> 0]\<rparr>"
  let ?left = "on_unsubscribe 0 (on_subscribe 0 ?opened)"
  let ?tasks = "(manager_tasks av ord ?sym)\<^sup>*\<^sup>*"
  have left: "unused_feed ?sym ?left" "mg_grace ?left = [\<lparr>gr_feed = 0, gr_phase = GraceSpawned\<rparr>]"
    by (simp_all add: unused_feed_def grace_pending_def on_subscribe_def on_unsubscribe_def update_feed_def
        new_feed_def manager_new_def notify_grace_def Let_def instrument_new_def)
  have closed: "mg_feeds m = Map.empty" if "?tasks ?left m" "mg_grace m = []" for m
  proof -
    have "unused_feed ?sym m"
      using that(1) by (induction rule: rtranclp_induct) (use left(1) unused_feed_tasks in blast)+
    then show ?thesis using that(2) by (simp add: unused_feed_def grace_pending_def)
  qed
  let ?m = "remove_feed_if_unused 0 (?left\<lparr>mg_grace := []\<rparr>)"
  have "manager_tasks av ord ?sym ?left ?m"
    using manager_tasks_fire [of 0 ?left] left(2) by (simp add: drop_nth_def)
  moreover have "mg_grace ?m = []"
    using unused_feed_fires(2) [OF left(1), of 0] left(2) by (simp add: drop_nth_def)
  ultimately have some: "?m \<in> {m. ?tasks ?left m \<and> mg_grace m = []}" by blast
  have "fd_subscriptions (mg_heap (on_subscribe 0 ?opened) ! 0) = 1"
    by (simp add: new_feed_def)
  then have "feed_unsubscribe_triggers_removal av ord =
      (\<lambda>m. Some (assert_all [mg_feeds m ?sym = None])) ` {m. ?tasks ?left m \<and> mg_grace m = []}"
    by (simp add: feed_unsubscribe_triggers_removal_def mock_open_new [OF assms] Let_def del: subscribe_frame)
  also have "\<dots> = {Some (Inr ())}"
    using some closed by (force simp: image_iff)
  finally show ?thesis .
qed

subsection \<open>A manager that shuts down\<close>

definition draining :: "server \<Rightarrow> bool" where
  "draining s \<longleftrightarrow> fst (sv_signal s) = \<lparr>bc_capacity = 1, bc_sent = 1\<rparr> \<and>
     mg_clients (sv_manager s) = [] \<and> finite (dom (mg_feeds (sv_manager s))) \<and>
     (sv_task s \<in> {Some (MtListening 0), Some MtFlagging, Some MtDraining} \<or>
      sv_task s = Some MtDone \<and> mg_feeds (sv_manager s) = Map.empty)"

lemma draining_tasks:
  assumes "shutdown_tasks av ord symbol s s'" "draining s"
  shows "draining s'"
  using assms
proof (induction rule: shutdown_tasks.induct)
  case (task order s s')
  then show ?case
    by (auto simp: draining_def manager_task_step_def broadcast_recv_def shutdown_flag_def shutdown_drain_def)
next
  case (work s m)
  have "mg_clients m = []" "mg_feeds m \<subseteq>\<^sub>m mg_feeds (sv_manager s)"
    using tasks_without_clients [OF work(1)] work(2) by (simp_all add: draining_def)
  moreover from this(2) have "dom (mg_feeds m) \<subseteq> dom (mg_feeds (sv_manager s))" by (rule map_le_implies_dom_le)
  ultimately show ?case using work(2) finite_subset [of "dom (mg_feeds m)"] by (auto simp: draining_def)
qed

lemma draining_ends:
  assumes "draining s" "\<forall>order. set order = dom (mg_feeds (sv_manager s)) \<longrightarrow> manager_task_step order s = None"
  shows "mg_feeds (sv_manager s) = Map.empty"
proof -
  have "finite (dom (mg_feeds (sv_manager s)))" using assms(1) by (simp add: draining_def)
  from finite_list [OF this] obtain order where "set order = dom (mg_feeds (sv_manager s))" by blast
  then have "manager_task_step order s = None" using assms(2) by blast
  then show ?thesis
    using assms(1) by (auto simp: draining_def manager_task_step_def broadcast_recv_def split: prod.splits)
qed

lemma shutdown_drain_test:
  assumes "iteration_order ord"
  shows "manager_shutdown_drains_all_feeds av ord = {Some (Inr ())}"
proof -
  let ?sym = "''ethbtc-test-3''"
  let ?i = "instrument_new ?sym [\<lparr>ss_source = Binance, ss_symbol = ?sym\<rparr>]"
  let ?m = "manager_new\<lparr>mg_heap := [new_feed ?i (publisher_start 10) 1], mg_feeds := [?sym \<mapsto> 0]\<rparr>"
  let ?at = "\<lambda>t m. \<lparr>sv_signal = (\<lparr>bc_capacity = 1, bc_sent = 1\<rparr>, HandlerDone), sv_run = RunManaged,
    sv_task = Some t, sv_manager = m, sv_dropped = False\<rparr>"
  let ?s = "?at (MtListening 0) ?m"
  let ?tasks = "(shutdown_tasks av ord ?sym)\<^sup>*\<^sup>*"
  let ?ended = "{s. ?tasks ?s s \<and>
    (\<forall>order. set order = dom (mg_feeds (sv_manager s)) \<longrightarrow> manager_task_step order s = None)}"
  have start: "draining ?s" by (simp add: draining_def manager_new_def)
  have drained: "mg_feeds (sv_manager s) = Map.empty" if "s \<in> ?ended" for s
  proof -
    have "?tasks ?s s" using that by simp
    then have "draining s"
      by (induction rule: rtranclp_induct) (use start draining_tasks in blast)+
    then show ?thesis using draining_ends that by blast
  qed
  have one: "set [?sym] = dom (mg_feeds ?m)" by simp
  have "shutdown_tasks av ord ?sym ?s (?at MtFlagging ?m)"
    by (rule shutdown_tasks.task [of "[?sym]"]) (simp_all add: manager_task_step_def broadcast_recv_def)
  moreover have "shutdown_tasks av ord ?sym (?at MtFlagging ?m) (?at MtDraining (shutdown_flag ?m))"
    by (rule shutdown_tasks.task [of "[?sym]"]) (simp_all add: manager_task_step_def)
  moreover have "shutdown_tasks av ord ?sym (?at MtDraining (shutdown_flag ?m))
      (?at MtDone (shutdown_drain [?sym] (shutdown_flag ?m)))"
    by (rule shutdown_tasks.task [of "[?sym]"]) (simp_all add: manager_task_step_def shutdown_flag_def)
  ultimately have "?tasks ?s (?at MtDone (shutdown_drain [?sym] (shutdown_flag ?m)))"
    by (meson converse_rtranclp_into_rtranclp rtranclp.rtrancl_refl)
  then have some: "?at MtDone (shutdown_drain [?sym] (shutdown_flag ?m)) \<in> ?ended"
    by (simp add: manager_task_step_def)
  have "manager_shutdown_drains_all_feeds av ord =
      (\<lambda>s. Some (assert_all [mg_feeds (sv_manager s) = Map.empty])) ` ?ended"
    by (simp add: manager_shutdown_drains_all_feeds_def mock_open_new [OF assms] Let_def shutdown_channel_def
        broadcast_channel_def broadcast_send_def broadcast_subscribe_def)
  also have "\<dots> = {Some (Inr ())}"
    using some drained by (force simp: image_iff)
  finally show ?thesis .
qed

subsection \<open>The suite\<close>

definition service_suite :: "av_push \<Rightarrow> source_id list \<Rightarrow> (panic + unit) option set list" where
  "service_suite av ord =
     [publisher_receives_and_updates_summary av, publisher_shutdown_triggers_summary_error av,
      publisher_wait_complete_joins_successfully av, {Some (manager_creates_and_reuses_feed ord)},
      feed_unsubscribe_triggers_removal av ord, manager_shutdown_drains_all_feeds av ord,
      {Some (aggregator_service_fails_on_missing_factory ord)}]"

lemma service_suite_passes:
  assumes "arrayvec_push_spec av" "iteration_order ord"
  shows "list_all (\<lambda>outcomes. outcomes = {Some (Inr ())}) (service_suite av ord)"
  using publisher_tests [OF assms(1)] reuse_test [OF assms(2)] removal_test [OF assms(2)]
    shutdown_drain_test [OF assms(2)] missing_factory_test [OF assms(2)]
  by (simp add: service_suite_def)

end
