(* ===== verification/Test_Suite.thy ===== *)
theory Test_Suite
  imports Merge_Tests Parser_Tests Common_Tests Format_Tests Service_Tests
begin

section \<open>The unit tests of the repository\<close>

text \<open>
  All the unit tests that are modelled, each as the set of its outcomes. A test that starts no task
  has one.
\<close>

definition repository_tests ::
  "av_push \<Rightarrow> 'j serde_json \<Rightarrow> (string \<Rightarrow> string) \<Rightarrow> (nat \<Rightarrow> string) \<Rightarrow> bool \<Rightarrow> source_id list \<Rightarrow>
    (panic + unit) option set list" where
  "repository_tests av S ul fmt chk ord =
     map (\<lambda>r. {Some r})
       (merge_suite av @ parser_suite S @ common_suite ul @ [test_display_summary_formatting fmt chk]) @
     service_suite av ord"

subsection \<open>Properties\<close>

text \<open>C20: the model passes the repository's own unit tests: 39 tests, translated with their fixtures,
  sample texts and assertions, on doubles computed bit by bit, for every vector push that does what
  arrayvec documents, every JSON library that reads the five sample texts as the values they denote,
  every humantime that prints a duration of zero as \<open>0s\<close>, with or without overflow checks, and every
  iteration order of the hash maps. A test that starts tasks passes in every order in which
  they can run, and none waits for ever.\<close>

theorem repository_tests_pass:
  assumes "arrayvec_push_spec av" "reads_samples S" "fmt 0 = ''0s''" "iteration_order ord"
  shows "list_all (\<lambda>outcomes. outcomes = {Some (Inr ())}) (repository_tests av S ul fmt chk ord) \<and>
    length (repository_tests av S ul fmt chk ord) = 39"
proof -
  have "list_all (\<lambda>test. test = Inr ())
      (merge_suite av @ parser_suite S @ common_suite ul @ [test_display_summary_formatting fmt chk])"
    using merge_suite_passes [OF assms(1)] parser_suite_passes [OF assms(2)] common_suite_passes
      display_summary_test [of fmt chk, OF assms(3)] by simp
  then have "list_all (\<lambda>outcomes. outcomes = {Some (Inr ())})
      (map (\<lambda>r. {Some r})
        (merge_suite av @ parser_suite S @ common_suite ul @ [test_display_summary_formatting fmt chk]))"
    by (auto simp: list_all_iff)
  then show ?thesis
    using service_suite_passes [OF assms(1,4)]
    by (simp add: repository_tests_def)
      (simp add: merge_suite_def parser_suite_def common_suite_def service_suite_def)
qed

theorem repository_tests_pass_witness:
  "list_all (\<lambda>outcomes. outcomes = {Some (Inr ())})
     (repository_tests list_push sample_reader id (\<lambda>d. show_nat d @ ''s'') True [Bitstamp, Binance])"
proof -
  have "iteration_order [Bitstamp, Binance]" by (auto simp: iteration_order_def UNIV_source_id)
  moreover have "show_nat 0 @ ''s'' = ''0s''" by (simp add: decimals)
  ultimately show ?thesis
    by (intro conjunct1 [OF repository_tests_pass] list_push_spec sample_reader_reads)
qed

end
