(* ===== verification/Spec2Isabelle.thy ===== *)
theory Spec2Isabelle
  imports Combined_Properties Parser_Agreement Client Join_Observer Pipeline_Settling Client_Progress Service_Liveness
    Stranded_Tasks Test_Suite
begin

text \<open>
  A verification of aggbook, a gRPC server that merges the order books of two exchanges, and of its
  command line client.

  The program. For each source of an instrument an exchange task (crates/aggserver/src/service/
  sources) reads a web socket, parses each message into a \<open>ContributorSnapshot\<close> and puts it into a
  cell with a watch channel. A source task (service/manager.rs, \<open>start_summary_sources\<close>) copies every
  change into the bounded channel of the publisher (service/publisher.rs), whose task keeps the last
  snapshot of each source in a \<open>CombinedSummary\<close> (service/model.rs) and publishes the merge of them,
  \<open>to_proto\<close>. The manager (service/manager.rs) opens one such feed per symbol on demand, spawns a
  publishing task per client, counts the clients, removes a feed some time after the last one has
  left, and shuts everything down on a signal. The handlers are in service.rs, the stream a client
  reads in stream.rs, the start up in main.rs and config.rs; crates/aggcommon has what both binaries
  share and crates/aggclient prints what it receives.

  Conventions. A struct is a \<open>record\<close>, an enum a \<open>datatype\<close>, \<open>u64\<close> and \<open>AtomicUsize\<close> are \<open>64 word\<close>, an
  \<open>f64\<close> is its 64 bit pattern. A function that may panic returns \<open>panic + 'a\<close>, one that also returns
  a \<open>Result\<close> returns \<open>panic + ('e + 'a)\<close> (Agg_Prelude). An async task is a partial function from its
  state and the event that completes its await; \<open>None\<close> means that the await cannot complete like
  that. Whatever runs in parallel is an inductive relation that interleaves such steps in any order.

  The theories, from the bottom up:
    \<^item> Agg_Prelude: panics, results, loops that stop early, ASCII strings; lemmas on lists.
    \<^item> F64, F64_Decimal, Decimal_Text: doubles, their comparison, subtraction, parsing and printing,
      as the Rust standard library and IEEE 754 define them.
    \<^item> Sources (aggcommon/src/sources.rs), Instruments (instrument.rs), Nanos (nanos.rs).
    \<^item> Snapshots, Price_Keys, Combined (service/model.rs): snapshots with their bounded sides, the two
      keyed prices, and the merge. The contracts are the locales \<open>bounded_log\<close>, \<open>keyed_price\<close>,
      \<open>slice_sort\<close> and \<open>price_side\<close>. Combined_Properties has what a summary promises, and exactly when
      merging panics.
    \<^item> Exchange_Parsers, Parser_Properties (sources/binance.rs, bitstamp.rs): the two parsers, the
      levels they accept and their errors and panics; Parser_Agreement: the two agree on the same entries.
    \<^item> Watch_Channels, Exchange_Feeds, Feed_Properties: the two exchange tasks as state machines, with
      the locales \<open>watched\<close> and \<open>feed_runner\<close>; what a reader finds in a feed and when a task ends. A
      task remembers the address it has connected to.
    \<^item> Publishers (service/publisher.rs): the task, and the refinement of an abstract book, the last
      snapshot of each source.
    \<^item> Source_Factories (model.rs, sources/factories.rs), Source_Tasks (manager.rs): the creation of the
      sources and the pipeline of exchange tasks, source tasks and publisher; every summary is the
      merge of at most one snapshot of each exchange, parsed from a message that the server at the
      exchange's address for the instrument may send (\<open>wire\<close>, \<open>delivered\<close>).
      Source_Start shows that what \<open>open\<close> starts is a state of that pipeline, Pipeline_Settling that
      a pipeline settles after a bounded number of steps and then shows the latest snapshots.
    \<^item> Subscribers, Client_Streams (Feed::publish in manager.rs, service.rs, stream.rs): the task of a
      client, its bounded channel and the stream it reads; the order of what it reads.
      Client_Progress: a client that has noticed a change keeps up with its feed, and how an update
      just before its subscription is lost.
    \<^item> Feed_Manager, Manager_Properties (manager.rs, service.rs): the registry of feeds, subscriptions, grace
      periods and \<open>Feed::shutdown\<close> between its waits; the invariant \<open>manager_ok\<close>, kept by every step.
      The wait for a source task ends only when that task has ended, which is the argument \<open>ended\<close>.
    \<^item> Whole_System (service.rs, manager.rs): the manager with the pipelines and clients of all its feeds
      as one transition system; \<open>source_ended\<close> takes the end of the source tasks from the pipelines.
      Service_Properties: the feed a request leads to and what every client is sent, end to end; Service_Liveness: when nothing is left to do, a
      client has been sent the merge of the latest snapshots.
    \<^item> Join_Observer (aggcommon/src/join_observer.rs): what is logged of the end of a task.
    \<^item> Shutdown_Signals (aggcommon/src/shutdown.rs), Socket_Addrs, Server_Config (config.rs, main.rs),
      Server_Lifecycle (main.rs, server.rs): the configuration and the life of the process, in which
      only the manager's own task takes the steps of its shutdown. The tasks go on after \<open>run\<close> has
      returned, until the runtime is dropped; a failing \<open>run\<close> sends the signal too, and a manager that
      has not listened in between lags and skips its shutdown.
    \<^item> Server_Process: the life of the server with the service it runs, \<open>process_step\<close>; its states are
      reachable states of both, so that what is proved of either holds in the binary. Process_Run: one run of it, from the
      start to a client that has been sent a summary, and what every client of the binary is sent.
      Stranded_Tasks: a shutdown and a client that wait for ever, whatever the process does later.
    \<^item> Test_Harness, F64_Eval, Merge_Tests, Parser_Tests, Common_Tests, Format_Tests, Service_Tests, Test_Suite:
      the unit tests of the repository (the modules \<open>tests\<close> of model.rs, binance.rs, bitstamp.rs and the others)
      as computations over the model that panic when an assertion fails; a test that starts tasks is
      the set of its outcomes over all orders in which they can run. All of them pass.
    \<^item> Entry_Points, Client (aggclient/src/format.rs, main.rs): the text of a summary, the streaming
      loop and the ends of \<open>main\<close>.

  Bounds and fuel. No definition has fuel: every function is total by its recursion, and the loops
  that need not end are relations; for the pipeline a rank bounds their steps, and for the shutdown
  of a feed when its source tasks end. The depth \<open>n\<close> is a parameter, 10 in the server. The model of the
  sort is the insertion sort that the standard library runs on up to 20 elements; the theorems use
  only that it returns a sorted permutation. Watch versions and message counts are natural numbers.

  Parameters and environment. JSON values and their operations (serde\_json), \<open>ArrayVec::push\<close>, with
  its documentation \<open>arrayvec_push_spec\<close> as hypothesis, the Unicode part of \<open>to_lowercase\<close>, the text
  of a duration (humantime) and of the subscription message are arguments of the definitions; the
  texts a server may send at an address are arguments too (\<open>wire\<close>). The channels, \<open>Notify\<close> and \<open>select!\<close> of tokio are modelled by their documented behaviour: a bounded
  queue, a version, a count of messages, a flag. The web socket, the clock, timers and the network
  are events: any that the code handles may happen at any time. Storing a snapshot in the cell of a
  feed and notifying its watchers is one step (\<open>store_latest\<close>).

  Not modelled: the work of clap, rustls and tracing when \<open>main\<close> sets them up, the protobuf build script and generated
  code, tonic beyond the outcome of the server, log messages other than that of join\_observer.rs.
  Of the tests: those of tests/feed\_integration.rs, which talk to the live exchanges, and
  \<open>aggregator_service_emits_summary_from_mock_source\<close>, which passes only because its runtime has one
  thread: in other interleavings its client misses the update (\<open>early_update_is_missed\<close>).
\<close>

end
